(* ===== verification/Prelude.thy ===== *)
theory Prelude
  imports Complex_Main "HOL-Library.AList" "HOL-Library.Word" "HOL-Library.Countable"
begin

text \<open>
  Shared vocabulary of the development: the exceptions the modelled Python raises, the result
  type that carries them, loops that may raise, the integer helpers of
  \<^verbatim>\<open>vllm/utils/math_utils.py\<close>, insertion-ordered dictionaries as association lists, and the
  generic lemmas on lists and dictionaries that the component theories use.

  Python integers are \<open>int\<close>, lengths and indices of Python lists are \<open>nat\<close>. A Python
  dictionary is an association list with distinct keys: \<open>AList.update\<close> overwrites in place or
  appends at the end and \<open>AList.delete\<close> removes, which is the insertion order Python keeps.
\<close>

named_theorems err_simps \<open>unfolding of the error monad in hypotheses\<close>

section \<open>Exceptions and results\<close>

datatype py_error =
    ValueError
  | AssertionError
  | RuntimeError
  | IndexError
  | KeyError
  | TypeError
  | OverflowError
  | ZeroDivisionError
  | StopIteration
  | NotImplementedError
  | AttributeError

type_synonym 'a res = "py_error + 'a"

type_synonym bytes = "8 word list"

definition bindE :: "'a res \<Rightarrow> ('a \<Rightarrow> 'b res) \<Rightarrow> 'b res" where
  "bindE m f = (case m of Inl e \<Rightarrow> Inl e | Inr x \<Rightarrow> f x)"

definition guardE :: "bool \<Rightarrow> py_error \<Rightarrow> unit res" where
  "guardE b e = (if b then Inr () else Inl e)"

text \<open>A \<^verbatim>\<open>for\<close> loop whose body may raise: the first error ends the loop.\<close>

fun foldE :: "('a \<Rightarrow> 's \<Rightarrow> 's res) \<Rightarrow> 'a list \<Rightarrow> 's \<Rightarrow> 's res" where
  "foldE f [] s = Inr s"
| "foldE f (x # xs) s = (case f x s of Inl e \<Rightarrow> Inl e | Inr s' \<Rightarrow> foldE f xs s')"

lemma bindE_Inl [simp]: "bindE (Inl e) f = Inl e"
  by (simp add: bindE_def)

lemma bindE_Inr [simp]: "bindE (Inr x) f = f x"
  by (simp add: bindE_def)

lemma bindE_eq_Inr [err_simps]: "bindE m f = Inr y \<longleftrightarrow> (\<exists>x. m = Inr x \<and> f x = Inr y)"
  by (cases m) simp_all

lemma guardE_eq_Inr [err_simps]: "guardE b e = Inr u \<longleftrightarrow> b"
  by (simp add: guardE_def)

lemma guardE_True [simp]: "guardE True e = Inr ()"
  by (simp add: guardE_def)

lemma guardE_False [simp]: "guardE False e = Inl e"
  by (simp add: guardE_def)

lemma foldE_invariant:
  assumes "foldE f xs s = Inr t" and "P s"
    and "\<And>x s s'. x \<in> set xs \<Longrightarrow> P s \<Longrightarrow> f x s = Inr s' \<Longrightarrow> P s'"
  shows "P t"
  using assms
proof (induction xs arbitrary: s)
  case Nil
  then show ?case by simp
next
  case (Cons x xs)
  then obtain s' where s': "f x s = Inr s'" "foldE f xs s' = Inr t"
    by (auto split: sum.splits)
  have "P s'" by (rule Cons.prems(3) [OF _ Cons.prems(2) s'(1)]) simp
  then show ?case by (rule Cons.IH [OF s'(2)]) (rule Cons.prems(3), simp_all)
qed

lemma foldE_total:
  assumes "P xs s"
    and "\<And>x ys s. P (x # ys) s \<Longrightarrow> \<exists>s'. f x s = Inr s' \<and> P ys s'"
  shows "\<exists>t. foldE f xs s = Inr t \<and> P [] t"
  using assms(1)
proof (induction xs arbitrary: s)
  case Nil
  then show ?case by simp
next
  case (Cons x xs)
  obtain s' where s': "f x s = Inr s'" "P xs s'"
    using assms(2) [OF Cons.prems] by blast
  with Cons.IH [OF s'(2)] show ?case by simp
qed

lemma foldE_append:
  "foldE f (xs @ ys) s = (case foldE f xs s of Inl e \<Rightarrow> Inl e | Inr t \<Rightarrow> foldE f ys t)"
  by (induction xs arbitrary: s) (simp_all split: sum.split)

section \<open>Python lists\<close>

text \<open>Indexing: a negative index counts from the end, out of range raises.\<close>

definition py_index :: "'a list \<Rightarrow> int \<Rightarrow> 'a res" where
  "py_index xs i =
     (if i < 0
      then if nat (- i) \<le> length xs then Inr (rev xs ! (nat (- i) - 1)) else Inl IndexError
      else if nat i < length xs then Inr (xs ! nat i) else Inl IndexError)"

text \<open>The slice \<^verbatim>\<open>xs[a:b]\<close> for non-negative bounds.\<close>

definition slice :: "int \<Rightarrow> int \<Rightarrow> 'a list \<Rightarrow> 'a list" where
  "slice a b xs = take (nat b - nat a) (drop (nat a) xs)"

lemma py_index_nonneg [simp]: "i < length xs \<Longrightarrow> py_index xs (int i) = Inr (xs ! i)"
  by (simp add: py_index_def)

lemma py_index_from_end:
  "0 < i \<Longrightarrow> i \<le> length xs \<Longrightarrow> py_index xs (- int i) = Inr (rev xs ! (i - 1))"
  by (simp add: py_index_def)

lemma length_slice [simp]: "length (slice a b xs) = min (length xs - nat a) (nat b - nat a)"
  by (simp add: slice_def)

section \<open>Integer helpers\<close>

lemma upto_map_int: "[0..int n - 1] = map int [0..<n]"
proof (induction n)
  case (Suc n)
  have "[0..int (Suc n) - 1] = [0..int n - 1] @ [int n]" using upto_rec2 [of 0 "int n"] by simp
  thus ?case using Suc by simp
qed simp

lemma le_div_iff:
  fixes k n b :: int
  assumes "0 < b"
  shows "k \<le> n div b \<longleftrightarrow> k * b \<le> n"
proof
  assume "k \<le> n div b"
  hence "k * b \<le> n div b * b" using assms by (simp add: mult_right_mono)
  also have "\<dots> \<le> n" using assms pos_mod_sign [of b n] by (metis diff_ge_0_iff_ge minus_div_mult_eq_mod)
  finally show "k * b \<le> n" .
next
  assume "k * b \<le> n"
  hence "k * b div b \<le> n div b" using assms by (intro zdiv_mono1)
  thus "k \<le> n div b" using assms by simp
qed

definition cdiv :: "int \<Rightarrow> int \<Rightarrow> int" where
  "cdiv a b = - (a div (- b))"

lemma cdiv_neg: "cdiv a b = - ((- a) div b)"
  using div_minus_minus [of "- a" b] by (simp add: cdiv_def)

lemma cdiv_upper: "0 < b \<Longrightarrow> a \<le> cdiv a b * b"
proof -
  assume "0 < b"
  then have "b * ((- a) div b) + (- a) mod b = - a" "0 \<le> (- a) mod b" by simp_all
  then show ?thesis unfolding cdiv_neg by (simp only: mult_minus_left mult.commute [of _ b])
qed

lemma cdiv_lower: "0 < b \<Longrightarrow> (cdiv a b - 1) * b < a"
proof -
  assume "0 < b"
  then have "b * ((- a) div b) + (- a) mod b = - a" "(- a) mod b < b" by simp_all
  then show ?thesis unfolding cdiv_neg
    by (simp only: mult.commute [of _ b] right_diff_distrib mult_minus_right mult_1_right)
qed

lemma cdiv_unique:
  assumes "0 < b" and "a \<le> q * b" and "(q - 1) * b < a"
  shows "cdiv a b = q"
proof -
  have "(q - 1) * b < cdiv a b * b" "(cdiv a b - 1) * b < q * b"
    using cdiv_upper [OF assms(1), of a] cdiv_lower [OF assms(1), of a] assms(2,3) by linarith+
  then show ?thesis using assms(1) by (simp add: mult_less_cancel_right)
qed

lemma cdiv_nonneg: "0 < b \<Longrightarrow> 0 \<le> a \<Longrightarrow> 0 \<le> cdiv a b"
  using zdiv_mono1 [of "- a" 0 b] by (simp add: cdiv_neg)

lemma cdiv_mult [simp]: "0 < b \<Longrightarrow> cdiv (q * b) b = q"
  by (rule cdiv_unique) auto

lemma cdiv_mono: "0 < b \<Longrightarrow> a \<le> c \<Longrightarrow> cdiv a b \<le> cdiv c b"
  using zdiv_mono1 [of "- c" "- a" b] by (simp add: cdiv_neg)

end
