(* ===== verification/Requests.thy ===== *)
theory Requests
  imports Prelude
begin

text \<open>
  Requests as the scheduler and the KV-cache managers see them: \<^verbatim>\<open>Request\<close> and
  \<^verbatim>\<open>RequestStatus\<close> of \<^verbatim>\<open>vllm/v1/request.py\<close>, and the stop checks of
  \<^verbatim>\<open>vllm/v1/core/sched/utils.py\<close>.

  The record keeps the fields that the modelled operations read or write. Fields that are only
  carried along (client index, trace headers, engine events, streaming queue, prefill statistics,
  reasoning-parser settings, KV-transfer parameters) are left out. Arrival times are reals.
  \<open>obj_id\<close> is Python's \<^verbatim>\<open>id()\<close> of the object, which \<^verbatim>\<open>__lt__\<close> falls back to.
\<close>

section \<open>Data\<close>

datatype request_status =
    WAITING
  | WAITING_FOR_STRUCTURED_OUTPUT_GRAMMAR
  | WAITING_FOR_REMOTE_KVS
  | WAITING_FOR_STREAMING_REQ
  | RUNNING
  | PREEMPTED
  | FINISHED_STOPPED
  | FINISHED_LENGTH_CAPPED
  | FINISHED_ABORTED
  | FINISHED_IGNORED
  | FINISHED_ERROR
  | FINISHED_REPETITION

datatype finish_reason = Reason_Stop | Reason_Length | Reason_Abort | Reason_Error | Reason_Repetition

datatype stop_reason_val = Stop_Token int | Stop_String string

record placeholder_range =
  mm_offset :: int
  mm_length :: int
  is_embed :: "bool list option"

record mm_feature =
  mm_identifier :: string
  mm_position :: placeholder_range

record lora_req =
  lora_name :: string
  adapter_id :: int

record repetition_params =
  max_pattern_size :: int
  min_pattern_size :: int
  min_count :: int

record sampling_params =
  sp_max_tokens :: "int option"
  min_tokens :: int
  eos_token_id :: "int option"
  stop_token_ids :: "int list option"
  repetition_detection :: "repetition_params option"
  structured_outputs :: bool
  sp_skip_reading :: "bool option"

record pooling_params =
  pp_skip_reading :: "bool option"

record request =
  obj_id :: int
  request_id :: string
  priority :: int
  arrival_time :: real
  req_sampling_params :: "sampling_params option"
  req_pooling_params :: "pooling_params option"
  lora_request :: "lora_req option"
  cache_salt :: "string option"
  status :: request_status
  stop_reason :: "stop_reason_val option"
  max_tokens :: int
  prompt_embeds :: "bytes list option"
  prompt_embeds_hashes :: "((int \<times> int) \<times> bytes) list"
  num_prompt_tokens :: int
  output_token_ids :: "int list"
  all_token_ids :: "int list"
  spec_token_ids :: "int list"
  num_computed_tokens :: int
  mm_features :: "mm_feature list"
  num_preemptions :: int
  block_hashes :: "bytes list"
  skip_reading_prefix_cache :: bool

text \<open>
  The block hasher a request is built with. It may raise (an assertion inside the key
  generation) and, being a \<^verbatim>\<open>while True\<close> loop, may not return: \<open>None\<close>. It returns the new
  hashes and the request, whose memo of embedding hashes it extends.
\<close>

type_synonym hasher = "request \<Rightarrow> (bytes list \<times> request) res option"

section \<open>Request\<close>

definition num_tokens :: "request \<Rightarrow> int" where
  "num_tokens r = int (length (all_token_ids r))"

definition num_tokens_with_spec :: "request \<Rightarrow> int" where
  "num_tokens_with_spec r = int (length (all_token_ids r)) + int (length (spec_token_ids r))"

definition num_output_tokens :: "request \<Rightarrow> int" where
  "num_output_tokens r = int (length (output_token_ids r))"

fun cumsum :: "int \<Rightarrow> bool list \<Rightarrow> int list" where
  "cumsum acc [] = []"
| "cumsum acc (b # bs) = (acc + of_bool b) # cumsum (acc + of_bool b) bs"

definition embeds_cumsum :: "placeholder_range \<Rightarrow> int list option" where
  "embeds_cumsum p = map_option (cumsum 0) (is_embed p)"

definition get_num_embeds :: "placeholder_range \<Rightarrow> int" where
  "get_num_embeds p =
     (case embeds_cumsum p of
        None \<Rightarrow> mm_length p
      | Some cs \<Rightarrow> if cs \<noteq> [] then last cs else 0)"

definition get_embeds_indices_in_range ::
  "placeholder_range \<Rightarrow> int \<Rightarrow> int \<Rightarrow> (int \<times> int) res" where
  "get_embeds_indices_in_range p start_idx end_idx =
     (case embeds_cumsum p of
        None \<Rightarrow> Inr (start_idx, end_idx)
      | Some cs \<Rightarrow>
          bindE (if start_idx > 0 then py_index cs (start_idx - 1) else Inr 0) (\<lambda>s.
            bindE (if end_idx > 0 then py_index cs (end_idx - 1) else Inr 0) (\<lambda>e.
              Inr (s, e))))"

definition get_num_encoder_embeds :: "request \<Rightarrow> nat \<Rightarrow> int res" where
  "get_num_encoder_embeds r i =
     (if i < length (mm_features r) then Inr (get_num_embeds (mm_position (mm_features r ! i)))
      else Inl AssertionError)"

definition length_from_prompt_token_ids_or_embeds ::
  "int list option \<Rightarrow> bytes list option \<Rightarrow> int res" where
  "length_from_prompt_token_ids_or_embeds toks embeds =
     (case toks of
        None \<Rightarrow> (case embeds of None \<Rightarrow> Inl ValueError | Some e \<Rightarrow> Inr (int (length e)))
      | Some t \<Rightarrow>
          (case embeds of
             None \<Rightarrow> Inr (int (length t))
           | Some e \<Rightarrow> if length e \<noteq> length t then Inl ValueError else Inr (int (length t))))"

definition get_skip_reading_prefix_cache ::
  "sampling_params option \<Rightarrow> pooling_params option \<Rightarrow> bool" where
  "get_skip_reading_prefix_cache sp pp =
     (case Option.bind sp sp_skip_reading of
        Some b \<Rightarrow> b
      | None \<Rightarrow> (case Option.bind pp pp_skip_reading of Some b \<Rightarrow> b | None \<Rightarrow> False))"

definition update_block_hashes :: "hasher option \<Rightarrow> request \<Rightarrow> request res option" where
  "update_block_hashes hasher r =
     (case hasher of
        None \<Rightarrow> Some (Inr r)
      | Some f \<Rightarrow>
          map_option (\<lambda>x. bindE x (\<lambda>(hs, r'). Inr (r'\<lparr>block_hashes := block_hashes r' @ hs\<rparr>))) (f r))"

definition append_output_token_ids :: "hasher option \<Rightarrow> int list \<Rightarrow> request \<Rightarrow> request res option" where
  "append_output_token_ids hasher toks r =
     update_block_hashes hasher
       (r\<lparr>output_token_ids := output_token_ids r @ toks,
          all_token_ids := all_token_ids r @ toks\<rparr>)"

text \<open>The constructor: the limit and status from the parameters, then the first block hashes.\<close>

definition request_limits ::
  "sampling_params option \<Rightarrow> pooling_params option \<Rightarrow> (int \<times> request_status) res" where
  "request_limits sp pp =
     (case pp of
        Some _ \<Rightarrow> Inr (1, WAITING)
      | None \<Rightarrow>
          (case sp of
             None \<Rightarrow> Inl ValueError
           | Some s \<Rightarrow>
               (case sp_max_tokens s of
                  None \<Rightarrow> Inl AssertionError
                | Some n \<Rightarrow> Inr (n, if structured_outputs s
                                   then WAITING_FOR_STRUCTURED_OUTPUT_GRAMMAR else WAITING))))"

definition new_request ::
  "int \<Rightarrow> string \<Rightarrow> int list option \<Rightarrow> sampling_params option \<Rightarrow> pooling_params option \<Rightarrow> real \<Rightarrow>
   bytes list option \<Rightarrow> mm_feature list \<Rightarrow> lora_req option \<Rightarrow> string option \<Rightarrow> int \<Rightarrow>
   hasher option \<Rightarrow> request res option" where
  "new_request addr rid toks sp pp arrival embeds mms lora salt prio hasher =
     (case bindE (request_limits sp pp) (\<lambda>(mt, st).
           bindE (length_from_prompt_token_ids_or_embeds toks embeds) (\<lambda>n.
             Inr \<lparr>obj_id = addr, request_id = rid, priority = prio, arrival_time = arrival,
                  req_sampling_params = sp, req_pooling_params = pp, lora_request = lora,
                  cache_salt = salt, status = st, stop_reason = None, max_tokens = mt,
                  prompt_embeds = embeds, prompt_embeds_hashes = [], num_prompt_tokens = n,
                  output_token_ids = [],
                  all_token_ids = (case toks of Some t \<Rightarrow> t | None \<Rightarrow> replicate (nat n) 0),
                  spec_token_ids = [], num_computed_tokens = 0, mm_features = mms,
                  num_preemptions = 0, block_hashes = [],
                  skip_reading_prefix_cache = False\<rparr>)) of
        Inl e \<Rightarrow> Some (Inl e)
      | Inr r \<Rightarrow>
          map_option (\<lambda>x. bindE x (\<lambda>r'.
              Inr (r'\<lparr>skip_reading_prefix_cache := get_skip_reading_prefix_cache sp pp\<rparr>)))
            (update_block_hashes hasher r))"

text \<open>\<^verbatim>\<open>RequestStatus\<close> is an integer enumeration; \<open>status_rank\<close> is its value.\<close>

fun status_rank :: "request_status \<Rightarrow> int" where
  "status_rank WAITING = 1"
| "status_rank WAITING_FOR_STRUCTURED_OUTPUT_GRAMMAR = 2"
| "status_rank WAITING_FOR_REMOTE_KVS = 3"
| "status_rank WAITING_FOR_STREAMING_REQ = 4"
| "status_rank RUNNING = 5"
| "status_rank PREEMPTED = 6"
| "status_rank FINISHED_STOPPED = 7"
| "status_rank FINISHED_LENGTH_CAPPED = 8"
| "status_rank FINISHED_ABORTED = 9"
| "status_rank FINISHED_IGNORED = 10"
| "status_rank FINISHED_ERROR = 11"
| "status_rank FINISHED_REPETITION = 12"

definition is_finished :: "request_status \<Rightarrow> bool" where
  "is_finished s \<longleftrightarrow> status_rank s > status_rank PREEMPTED"

fun get_finished_reason :: "request_status \<Rightarrow> finish_reason option" where
  "get_finished_reason FINISHED_STOPPED = Some Reason_Stop"
| "get_finished_reason FINISHED_LENGTH_CAPPED = Some Reason_Length"
| "get_finished_reason FINISHED_ABORTED = Some Reason_Abort"
| "get_finished_reason FINISHED_IGNORED = Some Reason_Length"
| "get_finished_reason FINISHED_ERROR = Some Reason_Error"
| "get_finished_reason WAITING_FOR_STREAMING_REQ = Some Reason_Stop"
| "get_finished_reason FINISHED_REPETITION = Some Reason_Repetition"
| "get_finished_reason _ = None"

section \<open>Stop checks\<close>

text \<open>The inner loop over \<open>m\<close> and the outer loop over \<open>n\<close> of \<^verbatim>\<open>_has_repeating_pattern\<close>.\<close>

fun repeats_inner :: "int list \<Rightarrow> int \<Rightarrow> int \<Rightarrow> int \<Rightarrow> int list \<Rightarrow> bool res" where
  "repeats_inner toks plen n target [] = Inr True"
| "repeats_inner toks plen n target (m # ms) =
     bindE (py_index toks (- (plen * m + n)))
       (\<lambda>t. if t \<noteq> target then Inr False else repeats_inner toks plen n target ms)"

fun repeats_outer :: "int list \<Rightarrow> int \<Rightarrow> int \<Rightarrow> int list \<Rightarrow> bool res" where
  "repeats_outer toks plen cnt [] = Inr True"
| "repeats_outer toks plen cnt (n # ns) =
     bindE (py_index toks (- n)) (\<lambda>target.
       bindE (repeats_inner toks plen n target [1..cnt - 1])
         (\<lambda>ok. if ok then repeats_outer toks plen cnt ns else Inr False))"

definition has_repeating_pattern :: "int list \<Rightarrow> int \<Rightarrow> int \<Rightarrow> bool res" where
  "has_repeating_pattern toks plen cnt = repeats_outer toks plen cnt [1..plen]"

fun repetition_loop :: "int list \<Rightarrow> int \<Rightarrow> int list \<Rightarrow> bool res" where
  "repetition_loop toks cnt [] = Inr False"
| "repetition_loop toks cnt (plen # plens) =
     (if plen * cnt > int (length toks) then Inr False
      else bindE (has_repeating_pattern toks plen cnt)
        (\<lambda>b. if b then Inr True else repetition_loop toks cnt plens))"

definition check_sequence_repetition :: "int list \<Rightarrow> repetition_params \<Rightarrow> bool res" where
  "check_sequence_repetition toks ps =
     (let mx = max_pattern_size ps;
          mn = (if min_pattern_size ps \<le> 0 then 1 else min_pattern_size ps);
          cnt = min_count ps
      in if mx \<le> 0 \<or> cnt < 2 \<or> mn > mx then Inr False
         else repetition_loop toks cnt [mn..mx])"

definition remove_all :: "'a list \<Rightarrow> 'a list \<Rightarrow> 'a list" where
  "remove_all xs items =
     (if items = [] then xs
      else if length (remdups items) = 1 then remove1 (hd items) xs
      else filter (\<lambda>x. x \<notin> set items) xs)"

definition check_stop :: "request \<Rightarrow> int \<Rightarrow> (bool \<times> request) res" where
  "check_stop r max_model_len =
     (if req_pooling_params r \<noteq> None then Inl AssertionError
      else case req_sampling_params r of
        None \<Rightarrow> Inl AssertionError
      | Some sp \<Rightarrow>
          if num_output_tokens r < min_tokens sp then Inr (False, r)
          else bindE (py_index (output_token_ids r) (-1)) (\<lambda>last_token_id.
            if eos_token_id sp = Some last_token_id
            then Inr (True, r\<lparr>status := FINISHED_STOPPED\<rparr>)
            else if last_token_id \<in> set (case stop_token_ids sp of None \<Rightarrow> [] | Some l \<Rightarrow> l)
            then Inr (True, r\<lparr>status := FINISHED_STOPPED,
                             stop_reason := Some (Stop_Token last_token_id)\<rparr>)
            else if num_tokens r \<ge> max_model_len \<or> num_output_tokens r \<ge> max_tokens r
            then Inr (True, r\<lparr>status := FINISHED_LENGTH_CAPPED\<rparr>)
            else case repetition_detection sp of
              None \<Rightarrow> Inr (False, r)
            | Some ps \<Rightarrow>
                bindE (check_sequence_repetition (output_token_ids r) ps) (\<lambda>rep.
                  if rep then Inr (True, r\<lparr>status := FINISHED_REPETITION,
                                     stop_reason := Some (Stop_String ''repetition_detected'')\<rparr>)
                  else Inr (False, r))))"

section \<open>Repetition detection\<close>

text \<open>The specification: the tokens end in \<open>cnt\<close> copies of a pattern of length \<open>plen\<close>.\<close>

definition ends_in_copies :: "int list \<Rightarrow> int \<Rightarrow> int \<Rightarrow> bool" where
  "ends_in_copies toks plen cnt \<longleftrightarrow>
     (\<exists>pre pat. int (length pat) = plen \<and> toks = pre @ concat (replicate (nat cnt) pat))"

lemma nth_concat_replicate:
  "i < c * length ys \<Longrightarrow> concat (replicate c ys) ! i = ys ! (i mod length ys)"
proof (induction c arbitrary: i)
  case (Suc c)
  show ?case
  proof (cases "i < length ys")
    case False
    hence "i - length ys < c * length ys" using Suc.prems by simp
    from Suc.IH [OF this] False show ?thesis by (simp add: nth_append le_mod_geq)
  qed (simp add: nth_append)
qed simp

lemma length_concat_replicate [simp]: "length (concat (replicate c ys)) = c * length ys"
  by (induction c) simp_all

lemma rev_concat_replicate: "rev (concat (replicate c ys)) = concat (replicate c (rev ys))"
  by (simp add: rev_concat map_replicate_const)

lemma take_eq_copies:
  assumes "k * c \<le> length xs" "0 < c"
  shows "take (k * c) xs = concat (replicate c (take k xs)) \<longleftrightarrow>
         (\<forall>n\<in>{1..k}. \<forall>m\<in>{1..<c}. xs ! (k * m + n - 1) = xs ! (n - 1))" (is "?L \<longleftrightarrow> ?R")
proof -
  have len: "length (take k xs) = k" using assms by (cases c) auto
  have "?L \<longleftrightarrow> (\<forall>i < k * c. xs ! i = xs ! (i mod k))"
  proof -
    have "concat (replicate c (take k xs)) ! i = xs ! (i mod k)" if "i < k * c" for i
    proof -
      have "0 < k" using that by (cases k) auto
      thus ?thesis using that nth_concat_replicate [of i c "take k xs"] len by (simp add: mult.commute)
    qed
    thus ?thesis using assms len by (simp add: list_eq_iff_nth_eq mult.commute)
  qed
  also have "\<dots> \<longleftrightarrow> ?R"
  proof (intro iffI ballI allI impI)
    fix n m assume all: "\<forall>i < k * c. xs ! i = xs ! (i mod k)" and n: "n \<in> {1..k}" and m: "m \<in> {1..<c}"
    have "k * m + k \<le> k * c" using m by (metis Suc_leI atLeastLessThan_iff mult_Suc_right mult_le_mono2 add.commute)
    hence "k * m + n - 1 < k * c" using n by auto
    moreover have "(k * m + n - 1) mod k = n - 1"
    proof -
      have "k * m + n - 1 = k * m + (n - 1)" "n - 1 < k" using n by auto
      thus ?thesis by simp
    qed
    ultimately show "xs ! (k * m + n - 1) = xs ! (n - 1)" using all by metis
  next
    fix i assume R: ?R and i: "i < k * c"
    have k: "0 < k" using i by (cases k) auto
    show "xs ! i = xs ! (i mod k)"
    proof (cases "i div k = 0")
      case True thus ?thesis using k by (auto simp: div_eq_0_iff)
    next
      case False
      have "i div k < c" using i by (simp add: less_mult_imp_div_less mult.commute)
      hence "xs ! (k * (i div k) + Suc (i mod k) - 1) = xs ! (Suc (i mod k) - 1)"
        using False k by (intro R [rule_format]) (auto simp: Suc_le_eq)
      thus ?thesis by simp
    qed
  qed
  finally show ?thesis .
qed

lemma repeats_inner_spec:
  assumes "\<forall>m \<in> set ms. 1 \<le> plen * m + n \<and> plen * m + n \<le> int (length toks)"
  shows "repeats_inner toks plen n target ms =
           Inr (\<forall>m \<in> set ms. rev toks ! nat (plen * m + n - 1) = target)"
  using assms
proof (induction ms)
  case (Cons m ms)
  let ?i = "nat (plen * m + n)"
  have "0 < ?i" "?i \<le> length toks" and i: "int ?i = plen * m + n" using Cons.prems by auto
  hence "py_index toks (- (plen * m + n)) = Inr (rev toks ! (?i - 1))"
    using py_index_from_end [of ?i toks] by simp
  moreover have "?i - 1 = nat (plen * m + n - 1)" by (simp add: nat_diff_distrib')
  ultimately show ?case using Cons by simp
qed simp

lemma repeats_outer_spec:
  assumes "plen * cnt \<le> int (length toks)" "1 \<le> plen" "1 \<le> cnt"
    and "\<forall>n \<in> set ns. 1 \<le> n \<and> n \<le> plen"
  shows "repeats_outer toks plen cnt ns =
           Inr (\<forall>n \<in> set ns. \<forall>m \<in> {1..cnt - 1}.
                  rev toks ! nat (plen * m + n - 1) = rev toks ! nat (n - 1))"
  using assms(4)
proof (induction ns)
  case (Cons n ns)
  have n: "1 \<le> n" "n \<le> plen" using Cons.prems by auto
  have bound: "plen * m + n \<le> int (length toks)" if "m \<in> {0..cnt - 1}" for m
  proof -
    have "plen * m \<le> plen * (cnt - 1)" using that assms by (intro mult_left_mono) auto
    thus ?thesis using n assms(1) by (simp add: right_diff_distrib)
  qed
  have pos: "1 \<le> plen * m + n" if "m \<in> {0..cnt - 1}" for m
    using that n assms by (simp add: add_increasing)
  have "0 < nat n" "nat n \<le> length toks" using bound [of 0] n assms by auto
  hence "py_index toks (- n) = Inr (rev toks ! nat (n - 1))"
    using py_index_from_end [of "nat n" toks] n by (simp add: nat_diff_distrib')
  moreover have "repeats_inner toks plen n t [1..cnt - 1] =
      Inr (\<forall>m \<in> {1..cnt - 1}. rev toks ! nat (plen * m + n - 1) = t)" for t
    using bound pos by (subst repeats_inner_spec) auto
  ultimately show ?case using Cons by auto
qed simp

lemma periodic_int_nat:
  assumes "1 \<le> plen" "1 \<le> cnt"
  shows "(\<forall>n \<in> {1..plen}. \<forall>m \<in> {1..cnt - 1}. P (nat (plen * m + n - 1)) (nat (n - 1))) \<longleftrightarrow>
         (\<forall>n \<in> {1..nat plen}. \<forall>m \<in> {1..<nat cnt}. P (nat plen * m + n - 1) (n - 1))"
    (is "?A \<longleftrightarrow> ?B")
proof (intro iffI ballI)
  fix n m assume A: ?A and nm: "n \<in> {1..nat plen}" "m \<in> {1..<nat cnt}"
  have "int n \<in> {1..plen}" "int m \<in> {1..cnt - 1}" using nm by auto
  moreover have "nat (plen * int m + int n - 1) = nat plen * m + n - 1" "nat (int n - 1) = n - 1"
    using assms by (simp_all add: nat_diff_distrib' nat_add_distrib nat_mult_distrib)
  ultimately show "P (nat plen * m + n - 1) (n - 1)" using A by metis
next
  fix n m assume B: ?B and nm: "n \<in> {1..plen}" "m \<in> {1..cnt - 1}"
  have "nat n \<in> {1..nat plen}" "nat m \<in> {1..<nat cnt}" using nm by auto
  moreover have "nat (plen * m + n - 1) = nat plen * nat m + nat n - 1" "nat (n - 1) = nat n - 1"
    using assms nm by (simp_all add: nat_diff_distrib' nat_add_distrib nat_mult_distrib)
  ultimately show "P (nat (plen * m + n - 1)) (nat (n - 1))" using B by metis
qed

lemma ends_in_copies_take:
  assumes "nat plen * nat cnt \<le> length toks" "1 \<le> plen" "1 \<le> cnt"
  shows "ends_in_copies toks plen cnt \<longleftrightarrow>
         take (nat plen * nat cnt) (rev toks) = concat (replicate (nat cnt) (take (nat plen) (rev toks)))"
    (is "_ \<longleftrightarrow> ?T")
proof
  let ?k = "nat plen" and ?c = "nat cnt" and ?xs = "rev toks"
  assume ?T
  hence "?xs = concat (replicate ?c (take ?k ?xs)) @ drop (?k * ?c) ?xs" by (metis append_take_drop_id)
  hence "toks = rev (drop (?k * ?c) ?xs) @ concat (replicate ?c (rev (take ?k ?xs)))"
    by (metis rev_append rev_concat_replicate rev_rev_ident)
  moreover have "int (length (rev (take ?k ?xs))) = plen"
    using assms by (cases ?c) auto
  ultimately show "ends_in_copies toks plen cnt" unfolding ends_in_copies_def by blast
next
  let ?k = "nat plen" and ?c = "nat cnt" and ?xs = "rev toks"
  assume "ends_in_copies toks plen cnt"
  then obtain pre pat where pat: "int (length pat) = plen" "toks = pre @ concat (replicate ?c pat)"
    unfolding ends_in_copies_def by blast
  hence k: "length pat = ?k" by simp
  have xs: "?xs = concat (replicate ?c (rev pat)) @ rev pre"
    using pat(2) by (simp add: rev_concat_replicate)
  have "concat (replicate ?c (rev pat)) = rev pat @ concat (replicate (?c - 1) (rev pat))"
    using assms(3) by (cases ?c) auto
  hence "take ?k ?xs = rev pat" unfolding xs using k by simp
  thus ?T using xs k by (simp add: mult.commute)
qed

lemma has_repeating_pattern_spec:
  assumes "plen * cnt \<le> int (length toks)" "1 \<le> plen" "1 \<le> cnt"
  shows "has_repeating_pattern toks plen cnt = Inr (ends_in_copies toks plen cnt)"
proof -
  have len: "nat plen * nat cnt \<le> length (rev toks)" "0 < nat cnt"
    using assms by (auto simp: nat_mult_distrib [symmetric])
  show ?thesis
    unfolding has_repeating_pattern_def
    using assms len periodic_int_nat [OF assms(2,3), of "\<lambda>i j. rev toks ! i = rev toks ! j"]
    by (subst repeats_outer_spec) (auto simp: ends_in_copies_take take_eq_copies)
qed

lemma ends_in_copies_length:
  "ends_in_copies toks plen cnt \<Longrightarrow> 0 \<le> cnt \<Longrightarrow> plen * cnt \<le> int (length toks)"
  unfolding ends_in_copies_def by (auto simp: mult.commute)

lemma repetition_loop_spec:
  assumes "1 \<le> i" "1 \<le> cnt"
  shows "repetition_loop toks cnt [i..mx] =
           Inr (\<exists>p. i \<le> p \<and> p \<le> mx \<and> ends_in_copies toks p cnt)"
  using assms
proof (induction i mx rule: upto.induct)
  case (1 i mx)
  show ?case
  proof (cases "i \<le> mx")
    case True
    note split = upto_rec1 [OF True]
    show ?thesis
    proof (cases "i * cnt > int (length toks)")
      case long: True
      have "\<not> ends_in_copies toks p cnt" if "i \<le> p" for p
      proof
        assume "ends_in_copies toks p cnt"
        hence "p * cnt \<le> int (length toks)" using 1 by (simp add: ends_in_copies_length)
        moreover have "i * cnt \<le> p * cnt" using that 1 by (intro mult_right_mono) auto
        ultimately show False using long by simp
      qed
      thus ?thesis using long by (auto simp: split)
    next
      case False
      hence "has_repeating_pattern toks i cnt = Inr (ends_in_copies toks i cnt)"
        using 1 by (intro has_repeating_pattern_spec) auto
      moreover have "repetition_loop toks cnt [i + 1..mx] =
          Inr (\<exists>p. i + 1 \<le> p \<and> p \<le> mx \<and> ends_in_copies toks p cnt)"
        using 1 True by simp
      moreover have "(\<exists>p. i \<le> p \<and> p \<le> mx \<and> ends_in_copies toks p cnt) \<longleftrightarrow>
          ends_in_copies toks i cnt \<or> (\<exists>p. i + 1 \<le> p \<and> p \<le> mx \<and> ends_in_copies toks p cnt)"
        using True by (metis add1_zle_eq order_le_less order_refl)
      ultimately show ?thesis using False by (simp add: split)
    qed
  qed simp
qed

lemma check_sequence_repetition_spec:
  "check_sequence_repetition toks ps =
     Inr (min_count ps \<ge> 2 \<and>
          (\<exists>p. max 1 (min_pattern_size ps) \<le> p \<and> p \<le> max_pattern_size ps \<and>
               ends_in_copies toks p (min_count ps)))"
  unfolding check_sequence_repetition_def Let_def
  by (auto simp: repetition_loop_spec max_def split: if_splits)

text \<open>
  C17: repetition detection is exact. For every output and every setting of the parameters,
  \<^verbatim>\<open>check_sequence_repetition\<close> returns (no index error), and it returns true exactly when at
  least two copies are asked for and the output ends in that many copies of some pattern whose length
  lies between the two sizes (a minimum below one counts as one). The early exit on a pattern that
  no longer fits loses nothing.
\<close>

theorem check_sequence_repetition_exact:
  "check_sequence_repetition toks ps =
     Inr (min_count ps \<ge> 2 \<and>
          (\<exists>pre pat. max 1 (min_pattern_size ps) \<le> int (length pat) \<and>
             int (length pat) \<le> max_pattern_size ps \<and>
             toks = pre @ concat (replicate (nat (min_count ps)) pat)))"
  unfolding check_sequence_repetition_spec ends_in_copies_def
  by (intro arg_cong [where f = Inr] conj_cong refl) blast

section \<open>Stop decision and multi-modal ranges\<close>

lemma check_stop_frame:
  assumes "check_stop r n = Inr (b, r')"
  shows "r'\<lparr>status := status r, stop_reason := stop_reason r\<rparr> = r"
proof -
  define keeps where "keeps x = (case x of Inl _ \<Rightarrow> True
    | Inr (b, r') \<Rightarrow> r'\<lparr>status := status r, stop_reason := stop_reason r\<rparr> = r)"
    for x :: "(bool \<times> request) res"
  have upd: "r\<lparr>status := s, status := status r, stop_reason := stop_reason r\<rparr> = r"
    "r\<lparr>status := s, stop_reason := t, status := status r, stop_reason := stop_reason r\<rparr> = r"
    "r\<lparr>status := status r, stop_reason := stop_reason r\<rparr> = r" for s t
    by (cases r; simp)+
  have keep: "keeps (Inl e)" "keeps (Inr (c, r\<lparr>status := s\<rparr>))"
    "keeps (Inr (c, r\<lparr>status := s, stop_reason := t\<rparr>))" "keeps (Inr (c, r))" for e c s t
    by (simp_all only: keeps_def upd sum.case prod.case)
  have bind: "keeps (bindE x f)" if "\<And>y. keeps (f y)" for x :: "'c res" and f
    using that by (cases x) (simp_all add: keep)
  have "keeps (check_stop r n)"
    unfolding check_stop_def by (auto simp: keep intro!: bind split: option.split)
  thus ?thesis using assms by (simp add: keeps_def)
qed

lemma check_stop_finishes: "check_stop r n = Inr (True, r') \<Longrightarrow> is_finished (status r')"
  by (auto simp: check_stop_def is_finished_def bindE_eq_Inr split: if_splits option.splits)

lemma check_stop_unchanged: "check_stop r n = Inr (False, r') \<Longrightarrow> r' = r"
  by (auto simp: check_stop_def bindE_eq_Inr split: if_splits option.splits)

lemma check_stop_continue:
  "check_stop r n = Inr (False, r') \<Longrightarrow>
     (\<exists>sp. req_sampling_params r = Some sp \<and>
        (num_output_tokens r < min_tokens sp \<or> num_tokens r < n \<and> num_output_tokens r < max_tokens r))"
  by (auto simp: check_stop_def bindE_eq_Inr split: if_splits option.splits)

lemma check_stop_returns:
  assumes "req_pooling_params r = None" "req_sampling_params r = Some sp" "output_token_ids r \<noteq> []"
  shows "\<exists>b r'. check_stop r n = Inr (b, r')"
proof -
  have "py_index (output_token_ids r) (- 1) = Inr (last (output_token_ids r))"
    using assms(3) py_index_from_end [of 1 "output_token_ids r"] by (cases "output_token_ids r" rule: rev_cases) auto
  thus ?thesis using assms by (auto simp: check_stop_def check_sequence_repetition_spec split: option.splits)
qed


lemma length_cumsum [simp]: "length (cumsum acc bs) = length bs"
  by (induction bs arbitrary: acc) simp_all

lemma nth_cumsum:
  "i < length bs \<Longrightarrow> cumsum acc bs ! i = acc + int (length (filter id (take (Suc i) bs)))"
proof (induction bs arbitrary: acc i)
  case (Cons b bs)
  thus ?case by (cases i) auto
qed simp

lemma cumsum_prefix:
  assumes "0 \<le> i" "i \<le> int (length bs)"
  shows "(if i > 0 then py_index (cumsum 0 bs) (i - 1) else Inr 0) =
           Inr (int (length (filter id (take (nat i) bs))))"
proof (cases "i > 0")
  case True
  then obtain k where k: "i = int (Suc k)" by (metis gr0_conv_Suc int_nat_eq zero_less_nat_eq not_less zero_less_imp_eq_int of_nat_0_less_iff)
  thus ?thesis using assms py_index_nonneg [of k "cumsum 0 bs"] by (simp add: nth_cumsum nat_add_distrib)
qed (use assms in simp)

text \<open>
  C20: the embeddings of a placeholder range. For a range of positions inside a masked
  placeholder, the two indices returned are the number of embeddings before the range and the number
  before its end: they delimit exactly the embeddings that fall into the range.
\<close>

theorem embeds_indices_delimit_range:
  assumes "is_embed p = Some bm" "0 \<le> s" "s \<le> e" "e \<le> int (length bm)"
  shows "\<exists>a b. get_embeds_indices_in_range p s e = Inr (a, b) \<and>
           a = int (length (filter id (take (nat s) bm))) \<and>
           b - a = int (length (filter id (slice s e bm)))"
proof -
  have "take (nat e) bm = take (nat s) bm @ slice s e bm"
    using assms by (simp add: slice_def take_add [symmetric] nat_mono)
  thus ?thesis using assms
    by (simp add: get_embeds_indices_in_range_def embeds_cumsum_def cumsum_prefix)
qed

text \<open>
  C21: removing requests from a queue. On a list without duplicates \<^verbatim>\<open>remove_all\<close>, fast path for a
  single item included, keeps exactly the elements that are not to be removed, in order.
\<close>

theorem remove_all_distinct:
  assumes "distinct xs"
  shows "remove_all xs items = filter (\<lambda>x. x \<notin> set items) xs"
proof (cases "length (remdups items) = 1")
  case True
  then obtain a where "remdups items = [a]" by (metis One_nat_def length_0_conv length_Suc_conv)
  hence single: "set items = {a}" by (metis set_remdups list.set(1,2))
  hence "items \<noteq> []" "hd items = a" by (cases items; simp)+
  moreover have "filter (\<lambda>x. x \<notin> set items) xs = removeAll a xs" by (induction xs) (auto simp: single)
  ultimately show ?thesis using True assms by (simp add: remove_all_def distinct_remove1_removeAll)
qed (simp add: remove_all_def)

section \<open>Concrete instances\<close>

definition demo_sampling :: sampling_params where
  "demo_sampling = \<lparr>sp_max_tokens = Some 8, min_tokens = 0, eos_token_id = Some 2,
     stop_token_ids = Some [7], repetition_detection = None, structured_outputs = False,
     sp_skip_reading = None\<rparr>"

definition demo_request :: request where
  "demo_request = \<lparr>obj_id = 1, request_id = ''r0'', priority = 0, arrival_time = 0,
     req_sampling_params = Some demo_sampling, req_pooling_params = None, lora_request = None,
     cache_salt = None, status = RUNNING, stop_reason = None, max_tokens = 8, prompt_embeds = None,
     prompt_embeds_hashes = [], num_prompt_tokens = 4, output_token_ids = [5, 7],
     all_token_ids = [10, 11, 12, 13, 5, 7], spec_token_ids = [], num_computed_tokens = 5,
     mm_features = [], num_preemptions = 0, block_hashes = [], skip_reading_prefix_cache = False\<rparr>"


theorem embeds_indices_delimit_range_witness:
  "get_embeds_indices_in_range
     \<lparr>mm_offset = 2, mm_length = 5, is_embed = Some [False, True, False, True, True]\<rparr> 3 5 = Inr (1, 3)"
  using embeds_indices_delimit_range
    [of "\<lparr>mm_offset = 2, mm_length = 5, is_embed = Some [False, True, False, True, True]\<rparr>"
        "[False, True, False, True, True]" 3 5]
  by (auto simp: slice_def numeral_eq_Suc)

theorem remove_all_distinct_witness: "remove_all [1::int, 2, 3] [2] = [1, 3]"
  using remove_all_distinct [of "[1::int, 2, 3]" "[2]"] by simp

end
