(* ===== verification/Block_Hash.thy ===== *)
theory Block_Hash
  imports Requests
begin

text \<open>
  Content hashes of KV-cache blocks, from \<^verbatim>\<open>vllm/v1/core/kv_cache_utils.py\<close>: the packing of a
  block hash with its group id, the extra keys of a block (LoRA, multi-modal items, cache salt,
  prompt embeddings), the hash chain of a request, the block-size resolution for hybrid models and
  the view of a hash list at a coarser block size.

  The hash functions are not part of the source: \<open>hf\<close> stands for \<^verbatim>\<open>caching_hash_fn\<close> (applied to
  the seed string or to the triple of parent, tokens and extra keys), \<open>eh\<close> for
  \<^verbatim>\<open>hashlib.sha256(tensor_data(...)).digest()\<close>. An extra key is a Python value without a tag: a pair
  for a multi-modal item, a plain string for both the LoRA name and the cache salt, bytes for
  embeddings.
\<close>

unbundle bit_operations_syntax

section \<open>Keys\<close>

text \<open>\<^verbatim>\<open>int.to_bytes(4, "big")\<close> and \<^verbatim>\<open>int.from_bytes(_, "big")\<close>.\<close>

definition to_bytes4 :: "int \<Rightarrow> bytes res" where
  "to_bytes4 g =
     (if 0 \<le> g \<and> g < 2 ^ 32
      then Inr [word_of_int (g div 2 ^ 24), word_of_int (g div 2 ^ 16),
                word_of_int (g div 2 ^ 8), word_of_int g]
      else Inl OverflowError)"

definition from_bytes :: "bytes \<Rightarrow> int" where
  "from_bytes bs = foldl (\<lambda>a b. a * 256 + uint b) 0 bs"

definition make_block_hash_with_group_id :: "bytes \<Rightarrow> int \<Rightarrow> bytes res" where
  "make_block_hash_with_group_id h g = bindE (to_bytes4 g) (\<lambda>bs. Inr (h @ bs))"

definition get_block_hash :: "bytes \<Rightarrow> bytes" where
  "get_block_hash key = take (length key - 4) key"

definition get_group_id :: "bytes \<Rightarrow> int" where
  "get_group_id key = from_bytes (drop (length key - 4) key)"

datatype external_hash = EH_Bytes bytes | EH_Int int

definition maybe_convert_block_hash :: "bool \<Rightarrow> bytes \<Rightarrow> external_hash" where
  "maybe_convert_block_hash use_int h =
     (if \<not> use_int then EH_Bytes h else EH_Int (from_bytes h AND (push_bit 64 1 - 1)))"

section \<open>Extra keys of a block\<close>

datatype extra_key = EK_MM string int | EK_Str string | EK_Bytes bytes

datatype hash_input = H_Seed string | H_Block bytes "int list" "extra_key list option"

instance extra_key :: countable
  by countable_datatype

instance hash_input :: countable
  by countable_datatype

definition init_none_hash :: "(hash_input \<Rightarrow> bytes) \<Rightarrow> string option \<Rightarrow> bytes \<Rightarrow> bytes" where
  "init_none_hash hf seed urandom = (case seed of None \<Rightarrow> urandom | Some s \<Rightarrow> hf (H_Seed s))"

definition need_extra_keys :: "request \<Rightarrow> bool" where
  "need_extra_keys r \<longleftrightarrow>
     mm_features r \<noteq> [] \<or> lora_request r \<noteq> None \<or> cache_salt r \<noteq> None"

text \<open>
  The \<^verbatim>\<open>while\<close> loop over multi-modal inputs, as a recursion over the inputs from
  \<^verbatim>\<open>curr_mm_idx\<close> on; \<open>i\<close> is the index of the first of them.
\<close>

fun mm_keys_loop :: "mm_feature list \<Rightarrow> int \<Rightarrow> int \<Rightarrow> int \<Rightarrow> extra_key list \<times> int" where
  "mm_keys_loop [] s e i = ([], i)"
| "mm_keys_loop (f # fs) s e i =
     (let off = mm_offset (mm_position f); len = mm_length (mm_position f)
      in if e > off then
           if s \<ge> off + len then mm_keys_loop fs s e (i + 1)
           else if e \<ge> off + len
           then (let (ks, j) = mm_keys_loop fs s e (i + 1)
                 in (EK_MM (mm_identifier f) (off - s) # ks, j))
           else ([EK_MM (mm_identifier f) (off - s)], i)
         else ([], i))"

definition gen_mm_extra_hash_keys :: "request \<Rightarrow> int \<Rightarrow> int \<Rightarrow> int \<Rightarrow> (extra_key list \<times> int) res" where
  "gen_mm_extra_hash_keys r s e i =
     (if mm_features r = [] then Inr ([], i)
      else let last_pos = mm_position (last (mm_features r))
      in if mm_offset last_pos + mm_length last_pos \<le> s then Inr ([], i)
      else if i < 0
      then if - i \<le> int (length (mm_features r))
           then let i' = int (length (mm_features r)) + i
                in Inr (mm_keys_loop (drop (nat i') (mm_features r)) s e i')
           else Inl AssertionError
      else Inr (mm_keys_loop (drop (nat i) (mm_features r)) s e i))"

definition gen_lora_extra_hash_keys :: "request \<Rightarrow> extra_key list" where
  "gen_lora_extra_hash_keys r =
     (case lora_request r of None \<Rightarrow> [] | Some l \<Rightarrow> [EK_Str (lora_name l)])"

definition gen_prompt_embeds_extra_hash_keys ::
  "(bytes \<Rightarrow> bytes) \<Rightarrow> request \<Rightarrow> int \<Rightarrow> int \<Rightarrow> extra_key list \<times> request" where
  "gen_prompt_embeds_extra_hash_keys eh r s e =
     (case prompt_embeds r of
        None \<Rightarrow> ([], r)
      | Some rows \<Rightarrow>
          (case map_of (prompt_embeds_hashes r) (s, e) of
             Some h \<Rightarrow> ([EK_Bytes h], r)
           | None \<Rightarrow>
               let h = eh (concat (slice s e rows))
               in ([EK_Bytes h],
                   r\<lparr>prompt_embeds_hashes := AList.update (s, e) h (prompt_embeds_hashes r)\<rparr>)))"

definition cache_salt_keys :: "request \<Rightarrow> int \<Rightarrow> extra_key list" where
  "cache_salt_keys r s =
     (case cache_salt r of
        None \<Rightarrow> []
      | Some salt \<Rightarrow> if s = 0 \<and> salt \<noteq> [] then [EK_Str salt] else [])"

definition generate_block_hash_extra_keys ::
  "(bytes \<Rightarrow> bytes) \<Rightarrow> request \<Rightarrow> int \<Rightarrow> int \<Rightarrow> int \<Rightarrow> ((extra_key list option \<times> int) \<times> request) res" where
  "generate_block_hash_extra_keys eh r s e i =
     bindE (gen_mm_extra_hash_keys r s e i) (\<lambda>(mm_keys, i').
       let lora_keys = gen_lora_extra_hash_keys r;
           salt_keys = cache_salt_keys r s;
           (embed_keys, r') = gen_prompt_embeds_extra_hash_keys eh r s e;
           keys = lora_keys @ mm_keys @ salt_keys @ embed_keys
       in if keys = [] then Inr ((None, i'), r') else Inr ((Some keys, i'), r'))"

section \<open>The hash chain of a request\<close>

definition hash_block_tokens ::
  "(hash_input \<Rightarrow> bytes) \<Rightarrow> bytes \<Rightarrow> bytes option \<Rightarrow> int list \<Rightarrow> extra_key list option \<Rightarrow> bytes" where
  "hash_block_tokens hf none_hash parent toks extra =
     hf (H_Block (case parent of None \<Rightarrow> none_hash | Some p \<Rightarrow> if p = [] then none_hash else p)
           toks extra)"

text \<open>
  The \<^verbatim>\<open>while True\<close> loop of \<^verbatim>\<open>request_block_hasher\<close>. With a block size of zero or less it
  would never leave the loop: the value \<open>None\<close>.
\<close>

partial_function (option) hasher_loop ::
  "(hash_input \<Rightarrow> bytes) \<Rightarrow> bytes \<Rightarrow> (bytes \<Rightarrow> bytes) \<Rightarrow> int \<Rightarrow> int \<Rightarrow> request \<Rightarrow> int \<Rightarrow> bytes option \<Rightarrow> int \<Rightarrow>
   bytes list \<Rightarrow> (bytes list \<times> request) res option" where
  "hasher_loop hf none_hash eh bs n r start prev mm acc =
     (if start + bs > n then Some (Inr (acc, r))
      else case generate_block_hash_extra_keys eh r start (start + bs) mm of
        Inl err \<Rightarrow> Some (Inl err)
      | Inr x \<Rightarrow>
          let ks = fst (fst x); mm' = snd (fst x); r' = snd x;
              h = hash_block_tokens hf none_hash prev (slice start (start + bs) (all_token_ids r')) ks
          in hasher_loop hf none_hash eh bs n r' (start + bs) (Some h) mm' (acc @ [h]))"

definition request_block_hasher ::
  "(hash_input \<Rightarrow> bytes) \<Rightarrow> bytes \<Rightarrow> (bytes \<Rightarrow> bytes) \<Rightarrow> int \<Rightarrow> hasher" where
  "request_block_hasher hf none_hash eh bs r =
     (let start = int (length (block_hashes r)) * bs; n = num_tokens r
      in if start + bs > n then Some (Inr ([], r))
         else hasher_loop hf none_hash eh bs n r start
                (if block_hashes r \<noteq> [] then Some (last (block_hashes r)) else None)
                (if start > 0 then -1 else 0) [])"

section \<open>Block sizes of hybrid models\<close>

record group_size =
  group_block_size :: int
  is_mamba_group :: bool

record size_config =
  cfg_block_size :: int
  dcp_size :: int
  pcp_size :: int
  enable_prefix_caching :: bool
  connector_enabled :: bool
  requested_hash_block_size :: "int option"

definition resolve_kv_cache_block_sizes :: "group_size list \<Rightarrow> size_config \<Rightarrow> (int \<times> int) res" where
  "resolve_kv_cache_block_sizes groups cfg =
     (if length groups \<le> 1
      then let bs = cfg_block_size cfg * dcp_size cfg * pcp_size cfg in Inr (bs, bs)
      else if dcp_size cfg \<noteq> 1 \<or> pcp_size cfg \<noteq> 1 then Inl ValueError
      else let sizes = map group_block_size groups;
               sched = Lcm (set sizes)
      in if \<not> (enable_prefix_caching cfg \<or> connector_enabled cfg) then Inr (sched, sched)
      else if list_ex (\<lambda>g. is_mamba_group g \<and> group_block_size g \<noteq> cfg_block_size cfg) groups
      then Inr (sched, sched)
      else let hbs = (case requested_hash_block_size cfg of Some n \<Rightarrow> n | None \<Rightarrow> Gcd (set sizes))
      in if hbs = 0 then Inl ZeroDivisionError
      else if list_ex (\<lambda>bs. bs mod hbs \<noteq> 0) sizes then Inl ValueError
      else Inr (sched, hbs))"

section \<open>Hash lists at a coarser block size\<close>

record hash_view =
  view_hashes :: "bytes list"
  scale_factor :: int

definition make_hash_view :: "bytes list \<Rightarrow> int \<Rightarrow> int \<Rightarrow> hash_view res" where
  "make_hash_view hs hash_block_size target =
     (if hash_block_size = 0 then Inl ZeroDivisionError
      else if target mod hash_block_size = 0
      then Inr \<lparr>view_hashes = hs, scale_factor = target div hash_block_size\<rparr>
      else Inl AssertionError)"

definition hash_view_len :: "hash_view \<Rightarrow> int res" where
  "hash_view_len v =
     (if scale_factor v = 0 then Inl ZeroDivisionError
      else Inr (int (length (view_hashes v)) div scale_factor v))"

text \<open>\<^verbatim>\<open>_get_value_at\<close> for a non-negative index, and the list the view iterates over.\<close>

definition hash_view_at :: "hash_view \<Rightarrow> int \<Rightarrow> bytes" where
  "hash_view_at v i =
     (let base = i * scale_factor v in concat (slice base (base + scale_factor v) (view_hashes v)))"

definition hash_view_list :: "hash_view \<Rightarrow> bytes list res" where
  "hash_view_list v = bindE (hash_view_len v) (\<lambda>n. Inr (map (hash_view_at v) [0..n - 1]))"

section \<open>Packing of hash and group id\<close>

lemma from_to_bytes4:
  assumes "to_bytes4 g = Inr bs"
  shows "from_bytes bs = g" "length bs = 4"
proof -
  have g: "0 \<le> g" "g < 2 ^ 32" and bs: "bs = [word_of_int (g div 2 ^ 24), word_of_int (g div 2 ^ 16),
      word_of_int (g div 2 ^ 8), word_of_int g]"
    using assms by (auto simp: to_bytes4_def split: if_splits)
  have steps: "g div 256 div 256 = g div 65536" "g div 65536 div 256 = g div 16777216"
    by (simp_all flip: zdiv_zmult2_eq)
  have digits: "((z * 256 + m2) * 256 + m1) * 256 + m0 = v"
    if "v = 256 * x + m0" "x = 256 * y + m1" "y = 256 * z + m2" for v x y z m0 m1 m2 :: int
    using that by simp
  have top: "g div 16777216 mod 256 = g div 16777216" using g by (simp add: div_pos_geq)
  have d0: "g = 256 * (g div 256) + g mod 256" by simp
  have d1: "g div 256 = 256 * (g div 65536) + g div 256 mod 256"
    using steps(1) by (metis mult_div_mod_eq)
  have d2: "g div 65536 = 256 * (g div 16777216) + g div 65536 mod 256"
    using steps(2) by (metis mult_div_mod_eq)
  have "from_bytes bs = ((g div 16777216 mod 256 * 256 + g div 65536 mod 256) * 256
      + g div 256 mod 256) * 256 + g mod 256"
    by (simp add: bs from_bytes_def uint_word_of_int)
  also have "\<dots> = g" unfolding top by (rule digits [OF d0 d1 d2])
  finally show "from_bytes bs = g" .
  show "length bs = 4" by (simp add: bs)
qed

lemma make_key_parts:
  assumes "make_block_hash_with_group_id h g = Inr key"
  shows "get_block_hash key = h" "get_group_id key = g" "0 \<le> g" "g < 2 ^ 32"
proof -
  obtain bs where bs: "to_bytes4 g = Inr bs" "key = h @ bs"
    using assms by (auto simp: make_block_hash_with_group_id_def bindE_eq_Inr)
  show "get_block_hash key = h" "get_group_id key = g"
    using from_to_bytes4 [OF bs(1)] bs(2) by (simp_all add: get_block_hash_def get_group_id_def)
  show "0 \<le> g" "g < 2 ^ 32" using bs(1) by (auto simp: to_bytes4_def split: if_splits)
qed

lemma make_key_total:
  "0 \<le> g \<Longrightarrow> g < 2 ^ 32 \<Longrightarrow> \<exists>key. make_block_hash_with_group_id h g = Inr key"
  by (simp add: make_block_hash_with_group_id_def to_bytes4_def)

lemma make_key_inj:
  "make_block_hash_with_group_id h g = Inr k \<Longrightarrow> make_block_hash_with_group_id h' g' = Inr k \<Longrightarrow>
     h = h' \<and> g = g'"
  by (metis make_key_parts(1,2))

text \<open>
  C25: packing a block hash with its group id loses nothing. Inside the 32-bit range both parts are
  recovered from the key; outside it packing raises \<^verbatim>\<open>OverflowError\<close> and never wraps.
\<close>

theorem group_key_roundtrip:
  "case make_block_hash_with_group_id h g of
     Inr key \<Rightarrow> 0 \<le> g \<and> g < 2 ^ 32 \<and> get_block_hash key = h \<and> get_group_id key = g
   | Inl err \<Rightarrow> err = OverflowError \<and> (g < 0 \<or> 2 ^ 32 \<le> g)"
proof (cases "make_block_hash_with_group_id h g")
  case (Inl err)
  thus ?thesis by (auto simp: make_block_hash_with_group_id_def to_bytes4_def split: if_splits)
next
  case (Inr key)
  with make_key_parts [OF Inr] show ?thesis by simp
qed

text \<open>
  An external integer hash is the low 64 bits of the digest, so it is below \<open>2 ^ 64\<close>; without
  the integer option the bytes are passed through.
\<close>

lemma external_hash_low_bits:
  "maybe_convert_block_hash use_int h =
     (if use_int then EH_Int (from_bytes h mod 2 ^ 64) else EH_Bytes h)"
proof -
  have "from_bytes h AND (push_bit 64 1 - 1) = take_bit 64 (from_bytes h)"
    by (simp add: take_bit_eq_mask mask_eq_exp_minus_1 push_bit_eq_mult)
  thus ?thesis by (simp add: maybe_convert_block_hash_def take_bit_eq_mod)
qed

end
