(* ===== verification/Hash_Chain.thy ===== *)
theory Hash_Chain
  imports Block_Hash
begin

text \<open>
  Correctness of the hash chain that \<^verbatim>\<open>get_request_block_hasher\<close> maintains: a reference
  definition of the chain from the contents of a request (\<open>full_chain\<close>), the proof that hashing
  a new request and hashing incrementally after appended tokens both compute it, and the soundness of
  the chain as a key (equal hashes mean equal prefixes) for a collision-free hash function.
\<close>

section \<open>Reference definition\<close>

definition mm_start :: "mm_feature \<Rightarrow> int" where
  "mm_start f = mm_offset (mm_position f)"

definition mm_end :: "mm_feature \<Rightarrow> int" where
  "mm_end f = mm_offset (mm_position f) + mm_length (mm_position f)"

text \<open>The multi-modal items that overlap the tokens from \<open>s\<close> to \<open>e\<close>.\<close>

definition mm_in_block :: "mm_feature list \<Rightarrow> int \<Rightarrow> int \<Rightarrow> extra_key list" where
  "mm_in_block fs s e =
     map (\<lambda>f. EK_MM (mm_identifier f) (mm_start f - s)) (filter (\<lambda>f. mm_start f < e \<and> s < mm_end f) fs)"

definition mm_sorted :: "mm_feature list \<Rightarrow> bool" where
  "mm_sorted fs \<longleftrightarrow>
     sorted_wrt (\<lambda>f g. mm_end f \<le> mm_start g) fs \<and> (\<forall>f \<in> set fs. mm_start f \<le> mm_end f)"

definition embeds_in_block :: "(bytes \<Rightarrow> bytes) \<Rightarrow> request \<Rightarrow> int \<Rightarrow> int \<Rightarrow> extra_key list" where
  "embeds_in_block eh r s e =
     (case prompt_embeds r of None \<Rightarrow> [] | Some rows \<Rightarrow> [EK_Bytes (eh (concat (slice s e rows)))])"

definition block_extra :: "(bytes \<Rightarrow> bytes) \<Rightarrow> request \<Rightarrow> int \<Rightarrow> int \<Rightarrow> extra_key list option" where
  "block_extra eh r s e =
     (let keys = gen_lora_extra_hash_keys r @ mm_in_block (mm_features r) s e @ cache_salt_keys r s
                 @ embeds_in_block eh r s e
      in if keys = [] then None else Some keys)"

type_synonym block_content = "int list \<times> extra_key list option"

definition block_at :: "(bytes \<Rightarrow> bytes) \<Rightarrow> int \<Rightarrow> request \<Rightarrow> nat \<Rightarrow> block_content" where
  "block_at eh bs r k =
     (let s = int k * bs in (slice s (s + bs) (all_token_ids r), block_extra eh r s (s + bs)))"

definition num_full :: "int \<Rightarrow> request \<Rightarrow> nat" where
  "num_full bs r = nat (num_tokens r div bs)"

definition request_blocks :: "(bytes \<Rightarrow> bytes) \<Rightarrow> int \<Rightarrow> request \<Rightarrow> block_content list" where
  "request_blocks eh bs r = map (block_at eh bs r) [0..<num_full bs r]"

fun chain :: "(hash_input \<Rightarrow> bytes) \<Rightarrow> bytes \<Rightarrow> block_content list \<Rightarrow> bytes list" where
  "chain hf p [] = []"
| "chain hf p (c # cs) = (let h = hf (H_Block p (fst c) (snd c)) in h # chain hf h cs)"

definition full_chain ::
  "(hash_input \<Rightarrow> bytes) \<Rightarrow> bytes \<Rightarrow> (bytes \<Rightarrow> bytes) \<Rightarrow> int \<Rightarrow> request \<Rightarrow> bytes list" where
  "full_chain hf none_hash eh bs r = chain hf none_hash (request_blocks eh bs r)"

text \<open>The memo of embedding hashes holds only what hashing the rows again would give.\<close>

definition memo_ok :: "(bytes \<Rightarrow> bytes) \<Rightarrow> request \<Rightarrow> bool" where
  "memo_ok eh r \<longleftrightarrow>
     (\<forall>rows s e h. prompt_embeds r = Some rows \<longrightarrow> map_of (prompt_embeds_hashes r) (s, e) = Some h \<longrightarrow>
        h = eh (concat (slice s e rows)))"

section \<open>Extra keys\<close>

lemma mm_sorted_Cons:
  "mm_sorted (f # fs) \<longleftrightarrow> mm_start f \<le> mm_end f \<and> (\<forall>g \<in> set fs. mm_end f \<le> mm_start g) \<and> mm_sorted fs"
  by (auto simp: mm_sorted_def)

lemma mm_sorted_drop: "mm_sorted fs \<Longrightarrow> mm_sorted (drop k fs)"
  unfolding mm_sorted_def by (auto simp: sorted_wrt_drop dest: in_set_dropD)

lemma mm_in_block_ended: "\<forall>f \<in> set fs. mm_end f \<le> s \<Longrightarrow> mm_in_block fs s e = []"
  by (auto simp: mm_in_block_def filter_empty_conv)

lemma mm_in_block_append: "mm_in_block (fs @ gs) s e = mm_in_block fs s e @ mm_in_block gs s e"
  by (simp add: mm_in_block_def)

lemma mm_keys_loop_keys:
  "mm_sorted fs \<Longrightarrow> fst (mm_keys_loop fs s e i) = mm_in_block fs s e"
proof (induction fs s e i rule: mm_keys_loop.induct)
  case (2 f fs s e i)
  have later: "mm_in_block fs s e = []" if "e \<le> mm_end f"
    using 2(3) that by (auto simp: mm_in_block_def filter_empty_conv mm_sorted_Cons)
  show ?case
    using 2 later unfolding mm_sorted_Cons
    by (auto simp: Let_def mm_in_block_def mm_start_def mm_end_def split: prod.split)
qed (simp add: mm_in_block_def)

lemma mm_keys_loop_index:
  "\<exists>k \<le> length fs. snd (mm_keys_loop fs s e i) = i + int k \<and>
     (s \<le> e \<longrightarrow> (\<forall>f \<in> set (take k fs). mm_end f \<le> e))"
proof (induction fs s e i rule: mm_keys_loop.induct)
  case step: (2 f fs s e i)
  let ?off = "mm_offset (mm_position f)" and ?len = "mm_length (mm_position f)"
  let ?P = "\<lambda>fs i k. k \<le> length fs \<and> snd (mm_keys_loop fs s e i) = i + int k \<and>
     (s \<le> e \<longrightarrow> (\<forall>f \<in> set (take k fs). mm_end f \<le> e))"
  have go: "\<exists>k. ?P (f # fs) i k"
    if "snd (mm_keys_loop (f # fs) s e i) = snd (mm_keys_loop fs s e (i + 1))"
      "s \<le> e \<longrightarrow> mm_end f \<le> e" "\<exists>k. ?P fs (i + 1) k"
  proof -
    from that(3) obtain k where "?P fs (i + 1) k" by blast
    with that(1,2) have "?P (f # fs) i (Suc k)" by (simp del: mm_keys_loop.simps)
    thus ?thesis by blast
  qed
  have stop: "\<exists>k. ?P (f # fs) i k" if "snd (mm_keys_loop (f # fs) s e i) = i"
    using that by (intro exI [of _ 0]) simp
  consider "e \<le> ?off" | "e > ?off" "s \<ge> ?off + ?len" | "e > ?off" "s < ?off + ?len" "e \<ge> ?off + ?len"
    | "e > ?off" "s < ?off + ?len" "e < ?off + ?len" by linarith
  hence "\<exists>k. ?P (f # fs) i k"
  proof cases
    case 2
    with step.IH(1) [OF refl refl] show ?thesis by (intro go) (auto simp: Let_def mm_end_def)
  next
    case 3
    with step.IH(2) [OF refl refl] show ?thesis
      by (intro go) (auto simp: Let_def mm_end_def split: prod.split)
  qed (auto intro!: stop simp: Let_def)
  thus ?case by blast
qed simp

text \<open>
  The index the loop carries is valid for a block that starts at \<open>s\<close>: every item before it has
  ended. The index \<open>-1\<close> (the last item) is valid when all other items have ended.
\<close>

definition mm_index_ok :: "mm_feature list \<Rightarrow> int \<Rightarrow> int \<Rightarrow> bool" where
  "mm_index_ok fs i s \<longleftrightarrow>
     fs = [] \<or> (0 \<le> i \<and> i \<le> int (length fs) \<and> (\<forall>f \<in> set (take (nat i) fs). mm_end f \<le> s)) \<or>
     (i = -1 \<and> (\<forall>f \<in> set (butlast fs). mm_end f \<le> s))"

lemma mm_keys_from_index:
  assumes "mm_sorted fs" "s \<le> e" "k \<le> length fs" "\<forall>f \<in> set (take k fs). mm_end f \<le> s"
  shows "\<exists>j. mm_keys_loop (drop k fs) s e (int k) = (mm_in_block fs s e, j) \<and> mm_index_ok fs j e"
proof -
  have "mm_in_block fs s e = mm_in_block (drop k fs) s e"
    using assms(4) mm_in_block_append [of "take k fs" "drop k fs" s e] by (simp add: mm_in_block_ended)
  moreover have "fst (mm_keys_loop (drop k fs) s e (int k)) = mm_in_block (drop k fs) s e"
    using assms(1) by (intro mm_keys_loop_keys mm_sorted_drop)
  moreover obtain l where l: "l \<le> length (drop k fs)"
    "snd (mm_keys_loop (drop k fs) s e (int k)) = int k + int l"
    "\<forall>f \<in> set (take l (drop k fs)). mm_end f \<le> e"
    using mm_keys_loop_index [of "drop k fs" s e "int k"] assms(2) by blast
  moreover have "mm_index_ok fs (int k + int l) e"
  proof -
    have "take (k + l) fs = take k fs @ take l (drop k fs)" by (simp add: take_add)
    hence "\<forall>f \<in> set (take (k + l) fs). mm_end f \<le> e" using l(3) assms(2,4) by fastforce
    moreover have "int k + int l \<le> int (length fs)" using l(1) assms(3) by simp
    ultimately show ?thesis by (simp add: mm_index_ok_def nat_add_distrib)
  qed
  ultimately show ?thesis by (metis prod.collapse)
qed

lemma mm_sorted_last_end:
  "mm_sorted fs \<Longrightarrow> fs \<noteq> [] \<Longrightarrow> f \<in> set fs \<Longrightarrow> mm_end f \<le> mm_end (last fs)"
proof (induction fs)
  case (Cons g gs)
  show ?case
  proof (cases "f = g \<and> gs \<noteq> []")
    case True
    have l: "last gs \<in> set gs" using True by simp
    hence "mm_end g \<le> mm_start (last gs)" "mm_start (last gs) \<le> mm_end (last gs)"
      using Cons.prems(1) unfolding mm_sorted_Cons by (auto simp: mm_sorted_def)
    thus ?thesis using True by simp
  next
    case False
    thus ?thesis using Cons by (auto simp: mm_sorted_Cons)
  qed
qed simp

lemma gen_mm_keys_correct:
  assumes "mm_sorted (mm_features r)" "s \<le> e" "mm_index_ok (mm_features r) i s"
  shows "\<exists>j. gen_mm_extra_hash_keys r s e i = Inr (mm_in_block (mm_features r) s e, j) \<and>
             mm_index_ok (mm_features r) j e"
proof -
  let ?fs = "mm_features r"
  consider "?fs = []" | "?fs \<noteq> []" "mm_end (last ?fs) \<le> s" | "?fs \<noteq> []" "s < mm_end (last ?fs)"
    by linarith
  thus ?thesis
  proof cases
    case 1
    thus ?thesis by (simp add: gen_mm_extra_hash_keys_def mm_in_block_def mm_index_ok_def)
  next
    case 2
    hence "\<forall>f \<in> set ?fs. mm_end f \<le> s" using mm_sorted_last_end [OF assms(1)] by fastforce
    moreover have "mm_index_ok ?fs i e" using assms(2,3) by (fastforce simp: mm_index_ok_def)
    ultimately show ?thesis using 2
      by (simp add: gen_mm_extra_hash_keys_def mm_in_block_ended mm_end_def Let_def)
  next
    case 3
    define k where "k = (if i < 0 then length ?fs - 1 else nat i)"
    have k: "k \<le> length ?fs" "\<forall>f \<in> set (take k ?fs). mm_end f \<le> s"
      using assms(3) 3(1) by (auto simp: mm_index_ok_def k_def butlast_conv_take)
    have "gen_mm_extra_hash_keys r s e i = Inr (mm_keys_loop (drop k ?fs) s e (int k))"
      using 3 assms(3) by (auto simp: gen_mm_extra_hash_keys_def mm_end_def Let_def k_def mm_index_ok_def
          nat_diff_distrib' of_nat_diff Suc_le_eq)
    with mm_keys_from_index [OF assms(1,2) k] show ?thesis by auto
  qed
qed

lemma gen_embeds_correct:
  assumes "memo_ok eh r"
  shows "\<exists>m. gen_prompt_embeds_extra_hash_keys eh r s e =
           (embeds_in_block eh r s e, r\<lparr>prompt_embeds_hashes := m\<rparr>) \<and>
           memo_ok eh (r\<lparr>prompt_embeds_hashes := m\<rparr>)"
proof (cases "prompt_embeds r")
  case None
  thus ?thesis using assms
    by (intro exI [of _ "prompt_embeds_hashes r"])
       (simp add: gen_prompt_embeds_extra_hash_keys_def embeds_in_block_def)
next
  case (Some rows)
  show ?thesis
  proof (cases "map_of (prompt_embeds_hashes r) (s, e)")
    case None
    let ?m = "AList.update (s, e) (eh (concat (slice s e rows))) (prompt_embeds_hashes r)"
    have "memo_ok eh (r\<lparr>prompt_embeds_hashes := ?m\<rparr>)"
      using assms Some by (auto simp: memo_ok_def update_conv' split: if_splits)
    thus ?thesis using Some None
      by (intro exI [of _ ?m]) (simp add: gen_prompt_embeds_extra_hash_keys_def embeds_in_block_def Let_def)
  next
    case (Some h)
    hence "h = eh (concat (slice s e rows))"
      using assms \<open>prompt_embeds r = Some rows\<close> by (simp add: memo_ok_def)
    thus ?thesis using Some \<open>prompt_embeds r = Some rows\<close> assms
      by (intro exI [of _ "prompt_embeds_hashes r"])
         (simp add: gen_prompt_embeds_extra_hash_keys_def embeds_in_block_def)
  qed
qed

lemma extra_keys_correct:
  assumes "mm_sorted (mm_features r)" "s \<le> e" "mm_index_ok (mm_features r) i s" "memo_ok eh r"
  shows "\<exists>j m. generate_block_hash_extra_keys eh r s e i =
             Inr ((block_extra eh r s e, j), r\<lparr>prompt_embeds_hashes := m\<rparr>) \<and>
           mm_index_ok (mm_features r) j e \<and> memo_ok eh (r\<lparr>prompt_embeds_hashes := m\<rparr>)"
proof -
  obtain j where j: "gen_mm_extra_hash_keys r s e i = Inr (mm_in_block (mm_features r) s e, j)"
    "mm_index_ok (mm_features r) j e"
    using gen_mm_keys_correct [OF assms(1-3)] by blast
  obtain m where m: "gen_prompt_embeds_extra_hash_keys eh r s e =
      (embeds_in_block eh r s e, r\<lparr>prompt_embeds_hashes := m\<rparr>)"
    "memo_ok eh (r\<lparr>prompt_embeds_hashes := m\<rparr>)"
    using gen_embeds_correct [OF assms(4)] by blast
  have "generate_block_hash_extra_keys eh r s e i =
      Inr ((block_extra eh r s e, j), r\<lparr>prompt_embeds_hashes := m\<rparr>)"
    by (simp add: generate_block_hash_extra_keys_def j(1) m(1) block_extra_def Let_def)
  with j(2) m(2) show ?thesis by blast
qed

section \<open>The loop computes the chain\<close>

lemma block_at_memo [simp]: "block_at eh bs (r\<lparr>prompt_embeds_hashes := m\<rparr>) = block_at eh bs r"
  by (rule ext) (simp add: block_at_def block_extra_def gen_lora_extra_hash_keys_def cache_salt_keys_def
      embeds_in_block_def)

lemma chain_append: "chain hf p (xs @ ys) = chain hf p xs @ chain hf (last (p # chain hf p xs)) ys"
  by (induction xs arbitrary: p) (simp_all add: Let_def)

lemma length_chain [simp]: "length (chain hf p cs) = length cs"
  by (induction cs arbitrary: p) (simp_all add: Let_def)

lemma chain_take: "take k (chain hf p cs) = chain hf p (take k cs)"
  by (induction cs arbitrary: p k) (auto simp: Let_def take_Cons' )

lemma hash_block_tokens_parent:
  assumes "prev = None \<and> p = none_hash \<or> prev = Some p \<and> p \<noteq> []"
  shows "hash_block_tokens hf none_hash prev toks ks = hf (H_Block p toks ks)"
  using assms by (auto simp: hash_block_tokens_def)

lemma hasher_loop_correct:
  assumes "0 < bs" "\<And>x. hf x \<noteq> []" "mm_sorted (mm_features r)"
    and "mm_index_ok (mm_features r) i (int k * bs)" "memo_ok eh r"
    and "prev = None \<and> p = none_hash \<or> prev = Some p \<and> p \<noteq> []"
    and "n = num_tokens r"
  shows "\<exists>m. hasher_loop hf none_hash eh bs n r (int k * bs) prev i acc =
           Some (Inr (acc @ chain hf p (map (block_at eh bs r) [k..<num_full bs r]),
                      r\<lparr>prompt_embeds_hashes := m\<rparr>)) \<and>
           memo_ok eh (r\<lparr>prompt_embeds_hashes := m\<rparr>)"
  using assms(3-)
proof (induction "num_full bs r - k" arbitrary: k r i prev p acc)
  case 0
  have "\<not> int k + 1 \<le> n div bs" using 0 by (simp add: num_full_def)
  hence "n < (int k + 1) * bs" using assms(1) by (simp only: le_div_iff not_le)
  hence "hasher_loop hf none_hash eh bs n r (int k * bs) prev i acc = Some (Inr (acc, r))"
    by (subst hasher_loop.simps) (simp add: algebra_simps)
  thus ?case using 0 by (intro exI [of _ "prompt_embeds_hashes r"]) simp
next
  case (Suc d)
  let ?s = "int k * bs"
  have k: "k < num_full bs r" using Suc.hyps(2) by linarith
  hence "int k + 1 \<le> n div bs" using Suc.prems by (simp add: num_full_def)
  hence le: "?s + bs \<le> n"
    using assms(1) by (simp add: le_div_iff algebra_simps)
  obtain j m where gen: "generate_block_hash_extra_keys eh r ?s (?s + bs) i =
      Inr ((block_extra eh r ?s (?s + bs), j), r\<lparr>prompt_embeds_hashes := m\<rparr>)"
    "mm_index_ok (mm_features r) j (?s + bs)" "memo_ok eh (r\<lparr>prompt_embeds_hashes := m\<rparr>)"
    using extra_keys_correct [of r ?s "?s + bs" i eh] Suc.prems assms(1) by auto
  let ?r = "r\<lparr>prompt_embeds_hashes := m\<rparr>" and ?c = "block_at eh bs r k"
  let ?h = "hf (H_Block p (fst ?c) (snd ?c))"
  have step: "hasher_loop hf none_hash eh bs n r ?s prev i acc =
      hasher_loop hf none_hash eh bs n ?r (int (Suc k) * bs) (Some ?h) j (acc @ [?h])"
    using le gen(1) hash_block_tokens_parent [OF Suc.prems(4)]
    by (subst hasher_loop.simps) (simp add: Let_def block_at_def algebra_simps)
  have same: "num_full bs ?r = num_full bs r" "num_tokens ?r = num_tokens r"
    by (simp_all add: num_full_def num_tokens_def)
  have "\<exists>m'. hasher_loop hf none_hash eh bs n ?r (int (Suc k) * bs) (Some ?h) j (acc @ [?h]) =
      Some (Inr ((acc @ [?h]) @ chain hf ?h (map (block_at eh bs ?r) [Suc k..<num_full bs ?r]),
                 ?r\<lparr>prompt_embeds_hashes := m'\<rparr>)) \<and> memo_ok eh (?r\<lparr>prompt_embeds_hashes := m'\<rparr>)"
  proof (rule Suc.hyps(1))
    show "d = num_full bs ?r - Suc k" using Suc.hyps(2) same by linarith
    show "mm_index_ok (mm_features ?r) j (int (Suc k) * bs)" using gen(2) by (simp add: algebra_simps)
  qed (use Suc.prems gen(3) assms(2) same in auto)
  then obtain m' where m': "hasher_loop hf none_hash eh bs n ?r (int (Suc k) * bs) (Some ?h) j (acc @ [?h]) =
      Some (Inr ((acc @ [?h]) @ chain hf ?h (map (block_at eh bs r) [Suc k..<num_full bs r]),
                 r\<lparr>prompt_embeds_hashes := m'\<rparr>))" "memo_ok eh (r\<lparr>prompt_embeds_hashes := m'\<rparr>)"
    using same by auto
  have "[k..<num_full bs r] = k # [Suc k..<num_full bs r]" using k by (simp add: upt_conv_Cons)
  with step m' show ?case by (intro exI [of _ m']) (simp add: Let_def)
qed

section \<open>Hashing a request, at once and incrementally\<close>

text \<open>A request whose stored hashes are exactly the chain of its full blocks.\<close>

definition hashed ::
  "(hash_input \<Rightarrow> bytes) \<Rightarrow> bytes \<Rightarrow> (bytes \<Rightarrow> bytes) \<Rightarrow> int \<Rightarrow> request \<Rightarrow> bool" where
  "hashed hf none_hash eh bs r \<longleftrightarrow>
     block_hashes r = full_chain hf none_hash eh bs r \<and> memo_ok eh r"

lemma length_full_chain [simp]: "length (full_chain hf none_hash eh bs r) = num_full bs r"
  by (simp add: full_chain_def request_blocks_def)

lemma request_blocks_memo [simp]:
  "request_blocks eh bs (r\<lparr>prompt_embeds_hashes := m\<rparr>) = request_blocks eh bs r"
  by (simp add: request_blocks_def num_full_def num_tokens_def)

lemma request_blocks_hashes [simp]:
  "request_blocks eh bs (r\<lparr>block_hashes := hs\<rparr>) = request_blocks eh bs r"
proof -
  have "block_at eh bs (r\<lparr>block_hashes := hs\<rparr>) = block_at eh bs r"
    by (rule ext) (simp add: block_at_def block_extra_def gen_lora_extra_hash_keys_def
        cache_salt_keys_def embeds_in_block_def)
  thus ?thesis by (simp add: request_blocks_def num_full_def num_tokens_def)
qed

lemma full_chain_cong:
  assumes "all_token_ids r = all_token_ids r'" "lora_request r = lora_request r'"
    and "mm_features r = mm_features r'" "cache_salt r = cache_salt r'" "prompt_embeds r = prompt_embeds r'"
  shows "full_chain hf none_hash eh bs r = full_chain hf none_hash eh bs r'"
proof -
  have "block_at eh bs r = block_at eh bs r'"
    using assms by (intro ext) (simp add: block_at_def block_extra_def gen_lora_extra_hash_keys_def
        cache_salt_keys_def embeds_in_block_def)
  thus ?thesis using assms by (simp add: full_chain_def request_blocks_def num_full_def num_tokens_def)
qed

lemma memo_ok_hashes [simp]: "memo_ok eh (r\<lparr>block_hashes := hs\<rparr>) = memo_ok eh r"
  by (simp add: memo_ok_def)

lemma hasher_correct:
  assumes "0 < bs" "\<And>x. hf x \<noteq> []" "mm_sorted (mm_features r)" "memo_ok eh r"
    and k: "k \<le> num_full bs r" "block_hashes r = take k (full_chain hf none_hash eh bs r)"
    and tail: "k = 0 \<or> (\<forall>f \<in> set (butlast (mm_features r)). mm_end f \<le> int k * bs)"
  shows "\<exists>hs m. request_block_hasher hf none_hash eh bs r =
           Some (Inr (hs, r\<lparr>prompt_embeds_hashes := m\<rparr>)) \<and>
           block_hashes r @ hs = full_chain hf none_hash eh bs r \<and>
           memo_ok eh (r\<lparr>prompt_embeds_hashes := m\<rparr>)"
proof -
  let ?cs = "map (block_at eh bs r) [0..<k]" and ?full = "full_chain hf none_hash eh bs r"
  have len: "length (block_hashes r) = k" using k by simp
  have prefix: "block_hashes r = chain hf none_hash ?cs"
    using k by (simp add: full_chain_def chain_take request_blocks_def take_map take_upt)
  show ?thesis
  proof (cases "int k * bs + bs > num_tokens r")
    case True
    hence "\<not> (int k + 1) * bs \<le> num_tokens r" by (simp add: algebra_simps)
    hence "\<not> int k + 1 \<le> num_tokens r div bs" using assms(1) by (simp only: le_div_iff not_False_eq_True)
    hence "k = num_full bs r" using k(1) by (simp add: num_full_def)
    hence "block_hashes r @ [] = ?full" using k(2) by simp
    moreover have "request_block_hasher hf none_hash eh bs r = Some (Inr ([], r))"
      using True len by (simp only: request_block_hasher_def Let_def if_True)
    moreover have "r\<lparr>prompt_embeds_hashes := prompt_embeds_hashes r\<rparr> = r" by simp
    ultimately show ?thesis using assms(4) by metis
  next
    case False
    define prev where "prev = (if block_hashes r \<noteq> [] then Some (last (block_hashes r)) else None)"
    define p where "p = last (none_hash # block_hashes r)"
    define i where "i = (if int k * bs > 0 then -1 else (0::int))"
    have nonempty: "h \<noteq> []" if "h \<in> set (chain hf q cs)" for h q cs
      using that not_sym [OF assms(2)] by (induction cs arbitrary: q) (auto simp: Let_def)
    have pr: "prev = None \<and> p = none_hash \<or> prev = Some p \<and> p \<noteq> []"
    proof (cases "block_hashes r = []")
      case False
      hence "last (block_hashes r) \<in> set (chain hf none_hash ?cs)" using prefix last_in_set by metis
      thus ?thesis using False nonempty by (simp add: prev_def p_def)
    qed (simp add: prev_def p_def)
    have idx: "mm_index_ok (mm_features r) i (int k * bs)"
      using tail assms(1) by (auto simp: mm_index_ok_def i_def)
    obtain m where m: "hasher_loop hf none_hash eh bs (num_tokens r) r (int k * bs) prev i [] =
        Some (Inr ([] @ chain hf p (map (block_at eh bs r) [k..<num_full bs r]),
              r\<lparr>prompt_embeds_hashes := m\<rparr>))" "memo_ok eh (r\<lparr>prompt_embeds_hashes := m\<rparr>)"
      using hasher_loop_correct [where hf = hf and acc = "[]", OF assms(1) assms(2) assms(3) idx assms(4) pr refl]
      by blast
    have "[0..<num_full bs r] = [0..<k] @ [k..<num_full bs r]" using k(1) by (metis le_add_diff_inverse upt_add_eq_append zero_le)
    hence "?full = block_hashes r @ chain hf p (map (block_at eh bs r) [k..<num_full bs r])"
      using prefix by (simp add: full_chain_def request_blocks_def chain_append p_def)
    moreover have "request_block_hasher hf none_hash eh bs r =
        hasher_loop hf none_hash eh bs (num_tokens r) r (int k * bs) prev i []"
      using False len by (simp only: request_block_hasher_def Let_def prev_def i_def if_False)
    ultimately show ?thesis using m by (metis append_Nil)
  qed
qed

lemma update_block_hashes_correct:
  assumes "0 < bs" "\<And>x. hf x \<noteq> []" "mm_sorted (mm_features r)" "memo_ok eh r"
    and "k \<le> num_full bs r" "block_hashes r = take k (full_chain hf none_hash eh bs r)"
    and "k = 0 \<or> (\<forall>f \<in> set (butlast (mm_features r)). mm_end f \<le> int k * bs)"
  shows "\<exists>m. update_block_hashes (Some (request_block_hasher hf none_hash eh bs)) r =
           Some (Inr (r\<lparr>prompt_embeds_hashes := m, block_hashes := full_chain hf none_hash eh bs r\<rparr>)) \<and>
           hashed hf none_hash eh bs
             (r\<lparr>prompt_embeds_hashes := m, block_hashes := full_chain hf none_hash eh bs r\<rparr>)"
proof -
  obtain hs m where h: "request_block_hasher hf none_hash eh bs r =
      Some (Inr (hs, r\<lparr>prompt_embeds_hashes := m\<rparr>))"
    "block_hashes r @ hs = full_chain hf none_hash eh bs r" "memo_ok eh (r\<lparr>prompt_embeds_hashes := m\<rparr>)"
    using hasher_correct [OF assms] by blast
  thus ?thesis
    by (intro exI [of _ m]) (simp add: update_block_hashes_def hashed_def full_chain_def)
qed

lemma block_at_tokens:
  assumes "0 < bs" "k < num_full bs r"
  shows "block_at eh bs (r\<lparr>output_token_ids := out, all_token_ids := all_token_ids r @ toks\<rparr>) k =
         block_at eh bs r k"
proof -
  have "int k + 1 \<le> num_tokens r div bs" using assms(2) by (simp add: num_full_def)
  hence "int k * bs + bs \<le> int (length (all_token_ids r))"
    using assms(1) by (simp add: le_div_iff num_tokens_def algebra_simps)
  moreover have "0 \<le> int k * bs" using assms(1) by simp
  ultimately have "slice (int k * bs) (int k * bs + bs) (all_token_ids r @ toks) =
      slice (int k * bs) (int k * bs + bs) (all_token_ids r)"
    using assms(1) by (simp add: slice_def)
  thus ?thesis
    by (simp add: block_at_def Let_def block_extra_def gen_lora_extra_hash_keys_def cache_salt_keys_def
        embeds_in_block_def)
qed

lemma request_blocks_tokens:
  assumes "0 < bs"
  defines "r' \<equiv> \<lambda>r out toks. r\<lparr>output_token_ids := out, all_token_ids := all_token_ids r @ toks\<rparr>"
  shows "num_full bs r \<le> num_full bs (r' r out toks)"
    and "take (num_full bs r) (request_blocks eh bs (r' r out toks)) = request_blocks eh bs r"
proof -
  show le: "num_full bs r \<le> num_full bs (r' r out toks)"
    using assms(1) by (auto simp: num_full_def num_tokens_def r'_def intro!: nat_mono zdiv_mono1)
  have "take (num_full bs r) (request_blocks eh bs (r' r out toks)) =
      map (block_at eh bs (r' r out toks)) [0..<num_full bs r]"
    using le by (simp add: request_blocks_def take_map take_upt)
  also have "\<dots> = request_blocks eh bs r"
    using block_at_tokens [OF assms(1)] by (simp add: request_blocks_def r'_def)
  finally show "take (num_full bs r) (request_blocks eh bs (r' r out toks)) = request_blocks eh bs r" .
qed

text \<open>
  C23: a new request is hashed completely. For a positive block size, a hash function that never
  returns the empty string, and multi-modal items in order without overlap, the constructor returns
  (the hashing loop ends), and the stored hashes are the chain over all full blocks of the prompt,
  each block keyed with the LoRA name, every multi-modal item that overlaps it, the salt (first block)
  and its embeddings.
\<close>

theorem new_request_hashed:
  assumes "0 < bs" "\<And>x. hf x \<noteq> []" "mm_sorted mms"
    and "request_limits sp pp = Inr (mt, st)"
    and "length_from_prompt_token_ids_or_embeds toks embeds = Inr n"
  shows "\<exists>r. new_request addr rid toks sp pp arrival embeds mms lora salt prio
               (Some (request_block_hasher hf none_hash eh bs)) = Some (Inr r) \<and>
             block_hashes r = full_chain hf none_hash eh bs r \<and>
             int (length (block_hashes r)) = num_tokens r div bs \<and> num_tokens r = n"
proof -
  define r0 :: request where "r0 = \<lparr>obj_id = addr, request_id = rid, priority = prio,
      arrival_time = arrival, req_sampling_params = sp, req_pooling_params = pp, lora_request = lora,
      cache_salt = salt, status = st, stop_reason = None, max_tokens = mt, prompt_embeds = embeds,
      prompt_embeds_hashes = [], num_prompt_tokens = n, output_token_ids = [],
      all_token_ids = (case toks of Some t \<Rightarrow> t | None \<Rightarrow> replicate (nat n) 0),
      spec_token_ids = [], num_computed_tokens = 0, mm_features = mms,
      num_preemptions = 0, block_hashes = [], skip_reading_prefix_cache = False\<rparr>"
  have r0: "mm_sorted (mm_features r0)" "memo_ok eh r0" "block_hashes r0 = []" "num_tokens r0 = n"
    using assms(3,5) by (auto simp: r0_def memo_ok_def num_tokens_def
        length_from_prompt_token_ids_or_embeds_def split: option.splits if_splits)
  obtain m where m: "update_block_hashes (Some (request_block_hasher hf none_hash eh bs)) r0 =
      Some (Inr (r0\<lparr>prompt_embeds_hashes := m, block_hashes := full_chain hf none_hash eh bs r0\<rparr>))"
    using update_block_hashes_correct [where hf = hf and k = 0, OF assms(1) assms(2) r0(1,2)] r0(3)
    by auto
  define r where "r = r0\<lparr>prompt_embeds_hashes := m, block_hashes := full_chain hf none_hash eh bs r0,
      skip_reading_prefix_cache := get_skip_reading_prefix_cache sp pp\<rparr>"
  have "new_request addr rid toks sp pp arrival embeds mms lora salt prio
      (Some (request_block_hasher hf none_hash eh bs)) = Some (Inr r)"
    using m by (simp add: new_request_def assms(4,5) r_def flip: r0_def)
  moreover have chain: "full_chain hf none_hash eh bs r = full_chain hf none_hash eh bs r0"
    by (rule full_chain_cong) (simp_all add: r_def)
  moreover have "num_tokens r = num_tokens r0" by (simp add: num_tokens_def r_def)
  moreover have "0 \<le> num_tokens r div bs"
    using assms(1) by (simp add: num_tokens_def pos_imp_zdiv_nonneg_iff)
  moreover have "block_hashes r = full_chain hf none_hash eh bs r0" by (simp add: r_def)
  ultimately show ?thesis using r0(4) by (intro exI [of _ r]) (simp add: num_full_def)
qed


section \<open>Soundness of the chain as a cache key\<close>

text \<open>
  What the code relies on of \<^verbatim>\<open>caching_hash_fn\<close>: no two inputs collide, and the hash that starts
  a chain is not the hash of any block.
\<close>

definition collision_free :: "(hash_input \<Rightarrow> bytes) \<Rightarrow> bytes \<Rightarrow> bool" where
  "collision_free hf none_hash \<longleftrightarrow> inj hf \<and> (\<forall>p toks ks. hf (H_Block p toks ks) \<noteq> none_hash)"

lemma chain_last_inj:
  assumes "collision_free hf none_hash" "cs \<noteq> []" "ds \<noteq> []"
    and "last (chain hf none_hash cs) = last (chain hf none_hash ds)"
  shows "cs = ds"
  using assms(2-)
proof (induction cs arbitrary: ds rule: rev_induct)
  case (snoc c cs)
  obtain d es where ds: "ds = es @ [d]" using snoc.prems(2) by (metis append_butlast_last_id)
  let ?p = "last (none_hash # chain hf none_hash cs)" and ?q = "last (none_hash # chain hf none_hash es)"
  have "hf (H_Block ?p (fst c) (snd c)) = hf (H_Block ?q (fst d) (snd d))"
    using snoc.prems(3) by (simp add: ds chain_append Let_def)
  hence "H_Block ?p (fst c) (snd c) = H_Block ?q (fst d) (snd d)"
    using assms(1) unfolding collision_free_def by (meson injD)
  hence eq: "?p = ?q" "c = d" by (simp_all only: hash_input.inject prod_eq_iff)
  have not_none: "last (chain hf none_hash xs) \<noteq> none_hash" if "xs \<noteq> []" for xs
  proof -
    have "last (chain hf none_hash (butlast xs @ [last xs])) \<noteq> none_hash"
      using assms(1) by (simp add: chain_append Let_def collision_free_def del: append_butlast_last_id)
    thus ?thesis using that by simp
  qed
  have empty: "chain hf none_hash xs = [] \<longleftrightarrow> xs = []" for xs by (metis length_0_conv length_chain)
  have "cs = es"
  proof (cases "cs = [] \<or> es = []")
    case True
    thus ?thesis using eq(1) not_none [of es] not_none [of cs] empty by (metis last.simps)
  next
    case False
    hence "last (chain hf none_hash cs) = last (chain hf none_hash es)"
      using eq(1) empty by (metis last.simps)
    thus ?thesis using False snoc.IH [of es] by blast
  qed
  thus ?case using eq(2) ds by simp
qed simp

lemma chain_nth_inj:
  assumes "collision_free hf none_hash" "i < length cs" "j < length ds"
    and "chain hf none_hash cs ! i = chain hf none_hash ds ! j"
  shows "i = j \<and> take (Suc i) cs = take (Suc j) ds"
proof -
  have last_nth: "last (chain hf none_hash (take (Suc k) xs)) = chain hf none_hash xs ! k"
    if "k < length xs" for k xs
  proof -
    have "k < length (chain hf none_hash xs)" using that by simp
    hence "take (Suc k) (chain hf none_hash xs) = take k (chain hf none_hash xs) @ [chain hf none_hash xs ! k]"
      by (rule take_Suc_conv_app_nth)
    thus ?thesis by (metis chain_take last_snoc)
  qed
  have "take (Suc i) cs = take (Suc j) ds"
    using assms by (intro chain_last_inj [OF assms(1)]) (auto simp: last_nth)
  thus ?thesis using assms(2,3) by (metis Suc_inject Suc_leI length_take min.absorb2)
qed

lemma concat_request_blocks:
  assumes "0 < bs" "k \<le> num_full bs r"
  shows "concat (map fst (take k (request_blocks eh bs r))) = take (k * nat bs) (all_token_ids r)"
  using assms(2)
proof (induction k)
  case (Suc k)
  have "request_blocks eh bs r ! k = block_at eh bs r k" "k < length (request_blocks eh bs r)"
    using Suc.prems by (simp_all add: request_blocks_def)
  moreover have "fst (block_at eh bs r k) = take (nat bs) (drop (k * nat bs) (all_token_ids r))"
    using assms(1) by (simp add: block_at_def Let_def slice_def nat_mult_distrib nat_add_distrib)
  moreover have "concat (map fst (take k (request_blocks eh bs r))) = take (k * nat bs) (all_token_ids r)"
    using Suc by simp
  ultimately show ?case by (simp add: take_Suc_conv_app_nth add.commute [of "nat bs"] take_add)
qed simp


section \<open>Block sizes\<close>

text \<open>
  C26: block sizes of a hybrid model. With several KV-cache groups of positive block size, a result
  \<open>(s, h)\<close> satisfies: \<open>s\<close> is the least common multiple of the group sizes, \<open>h\<close> divides
  \<open>s\<close>, and unless hashing falls back to \<open>s\<close> itself, \<open>h\<close> divides every group's block size, so
  every group can be keyed by whole hashes.
\<close>

theorem resolve_block_sizes_divide:
  assumes "2 \<le> length groups" "\<forall>g \<in> set groups. 0 < group_block_size g"
    and "resolve_kv_cache_block_sizes groups cfg = Inr (s, h)"
  shows "s = Lcm (set (map group_block_size groups)) \<and> 0 < s \<and> h dvd s \<and>
         (h = s \<or> (\<forall>g \<in> set groups. h dvd group_block_size g))"
proof -
  let ?S = "set (map group_block_size groups)"
  have s: "s = Lcm ?S"
    and h: "h = s \<or> (h \<noteq> 0 \<and> (\<forall>b \<in> ?S. b mod h = 0))"
    using assms(1,3)
    by (auto simp: resolve_kv_cache_block_sizes_def Let_def list_ex_iff split: if_splits option.splits)
  have "Lcm ?S \<noteq> 0" using assms(2) by (auto simp: Lcm_0_iff)
  hence "0 < Lcm ?S" using Lcm_int_greater_eq_0 [of ?S] by linarith
  moreover have "h dvd s"
  proof (cases "h = s")
    case False
    obtain g where "g \<in> set groups" using assms(1) by (cases groups) auto
    hence "h dvd group_block_size g" "group_block_size g dvd s"
      using h False s by (auto simp: mod_eq_0_iff_dvd intro!: dvd_Lcm)
    thus ?thesis by (rule dvd_trans)
  qed simp
  ultimately show ?thesis using s h by (auto simp: dvd_eq_mod_eq_0)
qed


section \<open>Where two different prompts share a hash\<close>

text \<open>
  A request with one hashed block of four tokens, two one-token images in the next block and
  generated tokens that complete that block. The incremental hasher starts at the last item, so the
  first image of the block is not part of the key.
\<close>

definition two_images :: "string \<Rightarrow> bytes \<Rightarrow> request" where
  "two_images img h = demo_request\<lparr>all_token_ids := [1, 2, 3, 4, 9, 9, 5, 6], block_hashes := [h],
     mm_features := [\<lparr>mm_identifier = img, mm_position = \<lparr>mm_offset = 4, mm_length = 1, is_embed = None\<rparr>\<rparr>,
                     \<lparr>mm_identifier = ''last'', mm_position = \<lparr>mm_offset = 5, mm_length = 1, is_embed = None\<rparr>\<rparr>]\<rparr>"

lemma two_images_hashes:
  "request_block_hasher hf none_hash eh 4 (two_images img h) =
     Some (Inr ([hash_block_tokens hf none_hash (Some h) [9, 9, 5, 6] (Some [EK_MM ''last'' 1])],
                two_images img h))"
proof -
  have keys: "generate_block_hash_extra_keys eh (two_images img h) 4 8 (- 1) =
      Inr ((Some [EK_MM ''last'' 1], 2), two_images img h)"
    by (simp add: generate_block_hash_extra_keys_def gen_mm_extra_hash_keys_def two_images_def
        demo_request_def gen_lora_extra_hash_keys_def cache_salt_keys_def
        gen_prompt_embeds_extra_hash_keys_def Let_def)
  have toks: "all_token_ids (two_images img h) = [1, 2, 3, 4, 9, 9, 5, 6]"
    "block_hashes (two_images img h) = [h]" "num_tokens (two_images img h) = 8"
    by (simp_all add: two_images_def num_tokens_def)
  show ?thesis
    by (simp add: request_block_hasher_def toks Let_def, subst hasher_loop.simps,
        simp add: keys Let_def toks slice_def, subst hasher_loop.simps, simp)
qed

lemma tail_block_ignores_image:
  "map_option (map_sum id fst) (request_block_hasher hf none_hash eh 4 (two_images ''cat'' h)) =
     map_option (map_sum id fst) (request_block_hasher hf none_hash eh 4 (two_images ''dog'' h)) \<and>
   mm_in_block (mm_features (two_images ''cat'' h)) 4 8 \<noteq> mm_in_block (mm_features (two_images ''dog'' h)) 4 8"
  by (simp add: two_images_hashes) (simp add: two_images_def mm_in_block_def mm_start_def mm_end_def)

text \<open>The LoRA name and the cache salt are both bare strings, so one can stand for the other.\<close>

lemma lora_salt_same_keys:
  "mm_features r = [] \<Longrightarrow> lora_name l \<noteq> [] \<Longrightarrow>
     block_extra eh (r\<lparr>lora_request := Some l, cache_salt := None\<rparr>) 0 e =
     block_extra eh (r\<lparr>lora_request := None, cache_salt := Some (lora_name l)\<rparr>) 0 e"
  by (simp add: block_extra_def gen_lora_extra_hash_keys_def cache_salt_keys_def mm_in_block_def
      embeds_in_block_def)

section \<open>Concrete instances\<close>

definition demo_hash :: "hash_input \<Rightarrow> bytes" where
  "demo_hash x = replicate (Suc (to_nat x)) 0"

definition demo_none :: bytes where
  "demo_none = demo_hash (H_Seed ''0'')"

definition demo_hashed :: "int list \<Rightarrow> request" where
  "demo_hashed toks = demo_request\<lparr>all_token_ids := toks, block_hashes :=
     full_chain demo_hash demo_none id 2 (demo_request\<lparr>all_token_ids := toks\<rparr>)\<rparr>"

lemma demo_hash_nonempty [simp]: "demo_hash x \<noteq> []"
  by (simp add: demo_hash_def)

lemma demo_hash_inj: "inj demo_hash"
proof (rule injI)
  fix x y assume "demo_hash x = demo_hash y"
  hence "length (demo_hash x) = length (demo_hash y)" by (rule arg_cong)
  thus "x = y" by (simp add: demo_hash_def)
qed

lemma demo_collision_free: "collision_free demo_hash demo_none"
  using demo_hash_inj by (auto simp: collision_free_def demo_none_def dest: injD)

lemma demo_hashed_hashed: "hashed demo_hash demo_none id 2 (demo_hashed toks)"
proof -
  have "full_chain demo_hash demo_none id 2 (demo_hashed toks) =
      full_chain demo_hash demo_none id 2 (demo_request\<lparr>all_token_ids := toks\<rparr>)"
    by (rule full_chain_cong) (simp_all add: demo_hashed_def)
  thus ?thesis by (simp add: hashed_def demo_hashed_def memo_ok_def demo_request_def)
qed

theorem new_request_hashed_witness:
  "\<exists>r. new_request 1 ''a'' (Some [1, 2, 3, 4, 5]) (Some demo_sampling) None 0 None [] None None 0
         (Some (request_block_hasher demo_hash demo_none id 2)) = Some (Inr r) \<and>
       length (block_hashes r) = 2"
  using new_request_hashed [where hf = demo_hash and none_hash = demo_none and eh = id and bs = 2
      and mms = "[]" and sp = "Some demo_sampling" and pp = None and toks = "Some [1, 2, 3, 4, 5]"
      and embeds = None and n = 5 and mt = 8 and st = WAITING and addr = 1 and rid = "''a''"
      and arrival = 0 and lora = None and salt = None and prio = 0]
  by (auto simp: mm_sorted_def request_limits_def demo_sampling_def
      length_from_prompt_token_ids_or_embeds_def)



theorem resolve_block_sizes_divide_witness:
  "resolve_kv_cache_block_sizes
     [\<lparr>group_block_size = 16, is_mamba_group = False\<rparr>, \<lparr>group_block_size = 24, is_mamba_group = False\<rparr>]
     \<lparr>cfg_block_size = 16, dcp_size = 1, pcp_size = 1, enable_prefix_caching = True,
      connector_enabled = False, requested_hash_block_size = None\<rparr> = Inr (48, 8) \<and> (8::int) dvd 48"
proof -
  have "resolve_kv_cache_block_sizes
     [\<lparr>group_block_size = 16, is_mamba_group = False\<rparr>, \<lparr>group_block_size = 24, is_mamba_group = False\<rparr>]
     \<lparr>cfg_block_size = 16, dcp_size = 1, pcp_size = 1, enable_prefix_caching = True,
      connector_enabled = False, requested_hash_block_size = None\<rparr> = Inr (48, 8)"
    by (simp add: resolve_kv_cache_block_sizes_def Let_def) (simp add: lcm_int_def gcd_int_def, code_simp)
  from this resolve_block_sizes_divide [OF _ _ this] show ?thesis by simp
qed


end
