(* ===== verification/Free_Block_Queue.thy ===== *)
theory Free_Block_Queue
  imports Prelude
begin

text \<open>
  The free list of KV-cache blocks: \<^verbatim>\<open>KVCacheBlock\<close> and \<^verbatim>\<open>FreeKVCacheBlockQueue\<close> of
  \<^verbatim>\<open>vllm/v1/core/kv_cache_utils.py\<close>. The Python class threads a doubly linked list through the
  block objects themselves, so the model keeps an explicit store from object references to block
  records: \<open>Fake_Head\<close> and \<open>Fake_Tail\<close> are the two sentinel objects, \<open>Blk i\<close> is
  the \<open>i\<close>-th object of the pool. Every pointer assignment of the source is one store update,
  in the source's order.

  The abstraction relation \<open>queue_rep q xs\<close> says that the pointers of \<open>q\<close> spell the list
  \<open>xs\<close> in both directions. Each operation is proved to refine the list operation it stands
  for, and the interface \<open>block_queue\<close> collects those laws for the block pool.
\<close>

section \<open>Blocks and the store\<close>

datatype bref = Fake_Head | Fake_Tail | Blk nat

record kv_block =
  block_id :: int
  ref_cnt :: int
  block_hash :: "bytes option"
  prev_free_block :: "bref option"
  next_free_block :: "bref option"
  is_null :: bool

type_synonym heap = "bref \<Rightarrow> kv_block"

record free_queue =
  store :: heap
  num_free_blocks :: int

definition new_block :: "int \<Rightarrow> kv_block" where
  "new_block i = \<lparr>block_id = i, ref_cnt = 0, block_hash = None,
     prev_free_block = None, next_free_block = None, is_null = False\<rparr>"

definition set_block_hash :: "bytes \<Rightarrow> kv_block \<Rightarrow> kv_block res" where
  "set_block_hash k b =
     (if block_hash b = None then Inr (b\<lparr>block_hash := Some k\<rparr>) else Inl AssertionError)"

definition reset_hash :: "kv_block \<Rightarrow> kv_block" where
  "reset_hash b = b\<lparr>block_hash := None\<rparr>"

definition set_prev :: "bref \<Rightarrow> bref option \<Rightarrow> heap \<Rightarrow> heap" where
  "set_prev r v h = h(r := (h r)\<lparr>prev_free_block := v\<rparr>)"

definition set_next :: "bref \<Rightarrow> bref option \<Rightarrow> heap \<Rightarrow> heap" where
  "set_next r v h = h(r := (h r)\<lparr>next_free_block := v\<rparr>)"

section \<open>Operations\<close>

text \<open>The body of the linking loop of \<^verbatim>\<open>__init__\<close>, for index \<open>i\<close>.\<close>

definition link_step :: "bref list \<Rightarrow> nat \<Rightarrow> heap \<Rightarrow> heap" where
  "link_step bs i h =
     (let h1 = (if 0 < i then set_prev (bs ! i) (Some (bs ! (i - 1))) h else h)
      in if i < length bs - 1 then set_next (bs ! i) (Some (bs ! (i + 1))) h1 else h1)"

definition free_queue_init :: "heap \<Rightarrow> bref list \<Rightarrow> free_queue" where
  "free_queue_init h bs =
     (let h1 = fold (link_step bs) [0..<length bs] h;
          h2 = h1(Fake_Head := new_block (-1), Fake_Tail := new_block (-1))
      in \<lparr>store =
            (if 0 < length bs
             then set_next (last bs) (Some Fake_Tail)
                   (set_prev Fake_Tail (Some (last bs))
                     (set_prev (hd bs) (Some Fake_Head)
                       (set_next Fake_Head (Some (hd bs)) h2)))
             else set_prev Fake_Tail (Some Fake_Head)
                   (set_next Fake_Head (Some Fake_Tail) h2)),
          num_free_blocks = int (length bs)\<rparr>)"

definition popleft :: "free_queue \<Rightarrow> (bref \<times> free_queue) res" where
  "popleft q =
     (let empty = (if num_free_blocks q = 0 then Inl ValueError else Inl AssertionError)
      in case next_free_block (store q Fake_Head) of
           None \<Rightarrow> empty
         | Some first \<Rightarrow>
             if first = Fake_Tail then empty
             else (case next_free_block (store q first) of
                None \<Rightarrow> Inl RuntimeError
              | Some nxt \<Rightarrow>
                  let h1 = set_prev nxt (Some Fake_Head)
                             (set_next Fake_Head (Some nxt) (store q));
                      h2 = set_next first None (set_prev first None h1)
                  in Inr (first, q\<lparr>store := h2, num_free_blocks := num_free_blocks q - 1\<rparr>)))"

text \<open>The loop of \<^verbatim>\<open>popleft_n\<close>: \<open>cur\<close> is \<^verbatim>\<open>curr_block\<close>, the list is \<^verbatim>\<open>ret\<close>.\<close>

fun popleft_n_loop ::
  "nat \<Rightarrow> heap \<Rightarrow> bref option \<Rightarrow> bref list \<Rightarrow> (bref list \<times> heap \<times> bref option) res" where
  "popleft_n_loop 0 h cur ret = Inr (ret, h, cur)"
| "popleft_n_loop (Suc n) h cur ret =
     (case cur of
        None \<Rightarrow> Inl AssertionError
      | Some c \<Rightarrow>
          popleft_n_loop n (set_next c None (set_prev c None h))
            (next_free_block (h c)) (ret @ [c]))"

definition popleft_n :: "int \<Rightarrow> free_queue \<Rightarrow> (bref list \<times> free_queue) res" where
  "popleft_n n q =
     (if n = 0 then Inr ([], q)
      else if num_free_blocks q < n then Inl AssertionError
      else bindE (popleft_n_loop (nat n) (store q) (next_free_block (store q Fake_Head)) [])
        (\<lambda>(ret, h, cur).
           Inr (ret, q\<lparr>num_free_blocks := num_free_blocks q - n,
                      store := (case cur of
                          None \<Rightarrow> h
                        | Some c \<Rightarrow> set_prev c (Some Fake_Head) (set_next Fake_Head (Some c) h))\<rparr>)))"

definition remove_block :: "bref \<Rightarrow> free_queue \<Rightarrow> free_queue res" where
  "remove_block b q =
     (case (prev_free_block (store q b), next_free_block (store q b)) of
        (Some p, Some n) \<Rightarrow>
          (let h1 = set_prev n (Some p) (set_next p (Some n) (store q));
               h2 = set_next b None (set_prev b None h1)
           in Inr (q\<lparr>store := h2, num_free_blocks := num_free_blocks q - 1\<rparr>))
      | _ \<Rightarrow> Inl RuntimeError)"

definition append_block :: "bref \<Rightarrow> free_queue \<Rightarrow> free_queue res" where
  "append_block b q =
     (case prev_free_block (store q Fake_Tail) of
        None \<Rightarrow> Inl RuntimeError
      | Some l \<Rightarrow>
          (let h1 = set_prev b (Some l) (set_next l (Some b) (store q));
               h2 = set_prev Fake_Tail (Some b) (set_next b (Some Fake_Tail) h1)
           in Inr (q\<lparr>store := h2, num_free_blocks := num_free_blocks q + 1\<rparr>)))"

text \<open>The linking loop that \<^verbatim>\<open>prepend_n\<close> and \<^verbatim>\<open>append_n\<close> share.\<close>

fun link_chain :: "bref list \<Rightarrow> bref \<Rightarrow> heap \<Rightarrow> bref \<times> heap" where
  "link_chain [] l h = (l, h)"
| "link_chain (b # bs) l h = link_chain bs b (set_next l (Some b) (set_prev b (Some l) h))"

definition prepend_n :: "bref list \<Rightarrow> free_queue \<Rightarrow> free_queue res" where
  "prepend_n bs q =
     (if length bs = 0 then Inr q
      else case next_free_block (store q Fake_Head) of
        None \<Rightarrow> Inl AssertionError
      | Some first \<Rightarrow>
          (let (l, h) = link_chain bs Fake_Head (store q);
               h' = set_prev first (Some l) (set_next l (Some first) h)
           in Inr (q\<lparr>store := h', num_free_blocks := num_free_blocks q + int (length bs)\<rparr>)))"

definition append_n :: "bref list \<Rightarrow> free_queue \<Rightarrow> free_queue res" where
  "append_n bs q =
     (if length bs = 0 then Inr q
      else case prev_free_block (store q Fake_Tail) of
        None \<Rightarrow> Inl AssertionError
      | Some last_block \<Rightarrow>
          (let (l, h) = link_chain bs last_block (store q);
               h' = set_prev Fake_Tail (Some l) (set_next l (Some Fake_Tail) h)
           in Inr (q\<lparr>store := h', num_free_blocks := num_free_blocks q + int (length bs)\<rparr>)))"

text \<open>
  The traversal loop of \<^verbatim>\<open>get_all_free_blocks\<close> follows \<^verbatim>\<open>next_free_block\<close> until it is
  \<^verbatim>\<open>None\<close>; on a cyclic list it would not return, which is the value \<open>None\<close>.
\<close>

partial_function (option) collect_free :: "heap \<Rightarrow> bref \<Rightarrow> bref list \<Rightarrow> bref list option" where
  "collect_free h cur ret =
     (case next_free_block (h cur) of
        None \<Rightarrow> Some ret
      | Some n \<Rightarrow> collect_free h n (ret @ [cur]))"

definition get_all_free_blocks :: "free_queue \<Rightarrow> bref list res option" where
  "get_all_free_blocks q =
     (case next_free_block (store q Fake_Head) of
        None \<Rightarrow> Some (Inl RuntimeError)
      | Some c \<Rightarrow> map_option Inr (collect_free (store q) c []))"

section \<open>The list a queue spells\<close>

fun dseg :: "heap \<Rightarrow> bref \<Rightarrow> bref list \<Rightarrow> bref \<Rightarrow> bool" where
  "dseg h a [] b \<longleftrightarrow> next_free_block (h a) = Some b \<and> prev_free_block (h b) = Some a"
| "dseg h a (x # xs) b \<longleftrightarrow>
     next_free_block (h a) = Some x \<and> prev_free_block (h x) = Some a \<and> dseg h x xs b"

definition queue_rep :: "free_queue \<Rightarrow> bref list \<Rightarrow> bool" where
  "queue_rep q xs \<longleftrightarrow>
     dseg (store q) Fake_Head xs Fake_Tail \<and>
     next_free_block (store q Fake_Tail) = None \<and>
     distinct xs \<and> set xs \<subseteq> range Blk \<and>
     (\<forall>i. Blk i \<notin> set xs \<longrightarrow>
        prev_free_block (store q (Blk i)) = None \<and> next_free_block (store q (Blk i)) = None) \<and>
     num_free_blocks q = int (length xs)"

text \<open>What the queue operations leave alone: a block without its two link fields.\<close>

definition block_meta :: "kv_block \<Rightarrow> kv_block" where
  "block_meta b = b\<lparr>prev_free_block := None, next_free_block := None\<rparr>"

definition qmeta :: "free_queue \<Rightarrow> bref \<Rightarrow> kv_block" where
  "qmeta q r = block_meta (store q r)"

subsection \<open>Store updates\<close>

lemma next_set_next [simp]:
  "next_free_block (set_next r v h s) = (if s = r then v else next_free_block (h s))"
  by (simp add: set_next_def)

lemma next_set_prev [simp]: "next_free_block (set_prev r v h s) = next_free_block (h s)"
  by (simp add: set_prev_def)

lemma prev_set_prev [simp]:
  "prev_free_block (set_prev r v h s) = (if s = r then v else prev_free_block (h s))"
  by (simp add: set_prev_def)

lemma prev_set_next [simp]: "prev_free_block (set_next r v h s) = prev_free_block (h s)"
  by (simp add: set_next_def)

lemma meta_set_next [simp]: "block_meta (set_next r v h s) = block_meta (h s)"
  by (simp add: set_next_def block_meta_def)

lemma meta_set_prev [simp]: "block_meta (set_prev r v h s) = block_meta (h s)"
  by (simp add: set_prev_def block_meta_def)

subsection \<open>Segments\<close>

lemma dseg_append: "dseg h a (xs @ y # ys) b \<longleftrightarrow> dseg h a xs y \<and> dseg h y ys b"
  by (induction xs arbitrary: a) auto

lemma dseg_cong:
  assumes "\<And>r. r \<in> insert a (set xs) \<Longrightarrow> next_free_block (h' r) = next_free_block (h r)"
    and "\<And>r. r \<in> insert b (set xs) \<Longrightarrow> prev_free_block (h' r) = prev_free_block (h r)"
  shows "dseg h' a xs b \<longleftrightarrow> dseg h a xs b"
  using assms by (induction xs arbitrary: a) auto

lemma dseg_first: "dseg h a xs b \<Longrightarrow> next_free_block (h a) = Some (hd (xs @ [b]))"
  by (cases xs) auto

lemma dseg_last: "dseg h a xs b \<Longrightarrow> prev_free_block (h b) = Some (last (a # xs))"
  by (induction xs arbitrary: a) auto

lemma dseg_retarget:
  assumes "dseg h a xs b" and "distinct (a # xs)" and "c \<notin> set xs"
  shows "dseg (set_prev c (Some (last (a # xs))) (set_next (last (a # xs)) (Some c) h)) a xs c"
  using assms
proof (induction xs arbitrary: a)
  case Nil
  then show ?case by simp
next
  case (Cons x xs)
  let ?l = "last (x # xs)"
  have "dseg (set_prev c (Some ?l) (set_next ?l (Some c) h)) x xs c"
    using Cons.prems by (intro Cons.IH) auto
  moreover have "a \<noteq> ?l" using Cons.prems(2) last_in_set [of "x # xs"] by auto
  ultimately show ?case using Cons.prems by auto
qed

lemma dseg_rehead:
  assumes "dseg h a xs b" and "b \<notin> set xs" and "distinct xs" and "c \<notin> set xs"
  shows "dseg (set_prev (hd (xs @ [b])) (Some c) (set_next c (Some (hd (xs @ [b]))) h)) c xs b"
proof (cases xs)
  case Nil
  then show ?thesis by simp
next
  case (Cons y ys)
  have "dseg (set_prev y (Some c) (set_next c (Some y) h)) y ys b \<longleftrightarrow> dseg h y ys b"
    using assms Cons by (intro dseg_cong) auto
  with assms(1) Cons show ?thesis by simp
qed

lemma dseg_link_chain:
  assumes "link_chain bs l h = (l', h')" and "distinct (l # bs)" and "t \<notin> set (l # bs)"
  defines "h'' \<equiv> set_prev t (Some l') (set_next l' (Some t) h')"
  shows "dseg h'' l bs t"
    and "r \<notin> set (l # bs) \<Longrightarrow> next_free_block (h'' r) = next_free_block (h r)"
    and "r \<notin> insert t (set bs) \<Longrightarrow> prev_free_block (h'' r) = prev_free_block (h r)"
    and "block_meta (h'' r) = block_meta (h r)"
proof -
  have "dseg h'' l bs t
    \<and> (\<forall>r. r \<notin> set (l # bs) \<longrightarrow> next_free_block (h'' r) = next_free_block (h r))
    \<and> (\<forall>r. r \<notin> insert t (set bs) \<longrightarrow> prev_free_block (h'' r) = prev_free_block (h r))
    \<and> (\<forall>r. block_meta (h'' r) = block_meta (h r))"
    using assms(1-3) unfolding h''_def
  proof (induction bs arbitrary: l h)
    case Nil
    then show ?case by auto
  next
    case (Cons b bs)
    let ?h1 = "set_next l (Some b) (set_prev b (Some l) h)"
    have "link_chain bs b ?h1 = (l', h')" "distinct (b # bs)" "t \<notin> set (b # bs)"
      using Cons.prems by auto
    note IH = Cons.IH [OF this]
    show ?case using IH Cons.prems(2,3) by auto
  qed
  then show "dseg h'' l bs t"
    and "r \<notin> set (l # bs) \<Longrightarrow> next_free_block (h'' r) = next_free_block (h r)"
    and "r \<notin> insert t (set bs) \<Longrightarrow> prev_free_block (h'' r) = prev_free_block (h r)"
    and "block_meta (h'' r) = block_meta (h r)"
    by auto
qed

section \<open>Each operation refines its list operation\<close>

lemma queue_rep_not_fake:
  "queue_rep q xs \<Longrightarrow> Fake_Head \<notin> set xs \<and> Fake_Tail \<notin> set xs"
  by (auto simp: queue_rep_def)

lemma queue_rep_length: "queue_rep q xs \<Longrightarrow> num_free_blocks q = int (length xs)"
  by (simp add: queue_rep_def)

subsection \<open>Taking from the front\<close>

definition clear_links :: "bref list \<Rightarrow> heap \<Rightarrow> heap" where
  "clear_links xs h = (\<lambda>r. if r \<in> set xs then block_meta (h r) else h r)"

lemma meta_clear_links [simp]: "block_meta (clear_links xs h r) = block_meta (h r)"
  by (simp add: clear_links_def block_meta_def)

lemma popleft_n_loop_segment:
  assumes "dseg h a (xs @ ys) b" and "distinct xs"
  shows "popleft_n_loop (length xs) h (Some (hd (xs @ ys @ [b]))) ret
       = Inr (ret @ xs, clear_links xs h, Some (hd (ys @ [b])))"
proof -
  have step: "next_free_block (g x) = Some (hd (xs' @ ys @ [b]))"
    if "dseg h a (p @ x # xs' @ ys) b" "xs = p @ x # xs'"
      "g = clear_links p h" for g x p xs'
  proof -
    from that(1) have "dseg h x (xs' @ ys) b" by (simp add: dseg_append)
    then have "next_free_block (h x) = Some (hd (xs' @ ys @ [b]))" by (auto dest: dseg_first)
    moreover have "x \<notin> set p" using that(2) assms(2) by auto
    ultimately show ?thesis using that(3) by (simp add: clear_links_def)
  qed
  have loop: "popleft_n_loop (length zs) (clear_links p h) (Some (hd (zs @ ys @ [b]))) (ret @ p)
      = Inr (ret @ p @ zs, clear_links (p @ zs) h, Some (hd (ys @ [b])))"
    if "xs = p @ zs" for p zs
    using that
  proof (induction zs arbitrary: p)
    case Nil
    then show ?case by simp
  next
    case (Cons z zs)
    have "next_free_block (clear_links p h z) = Some (hd (zs @ ys @ [b]))"
      using assms(1) Cons.prems by (intro step [OF _ Cons.prems]) auto
    moreover have "set_next z None (set_prev z None (clear_links p h)) = clear_links (p @ [z]) h"
      by (rule ext) (auto simp: clear_links_def set_next_def set_prev_def block_meta_def)
    ultimately show ?case using Cons.IH [of "p @ [z]"] Cons.prems by simp
  qed
  from loop [of "[]" xs] show ?thesis by (simp add: clear_links_def)
qed

lemma rep_pop_segment:
  assumes rep: "queue_rep q (xs @ ys)"
    and h: "h = clear_links xs (store q)" and c: "c = hd (ys @ [Fake_Tail])"
  shows "queue_rep (q\<lparr>store := set_prev c (Some Fake_Head) (set_next Fake_Head (Some c) h),
      num_free_blocks := num_free_blocks q - int (length xs)\<rparr>) ys"
proof -
  note [simp] = queue_rep_not_fake [OF rep]
  obtain a where a: "a \<notin> set ys" "dseg (store q) a ys Fake_Tail"
  proof (cases xs rule: rev_cases)
    case Nil
    with rep that [of Fake_Head] show thesis by (auto simp: queue_rep_def)
  next
    case (snoc zs z)
    with rep that [of z] show thesis by (auto simp: queue_rep_def dseg_append)
  qed
  have nin: "r \<notin> set xs" if "r \<in> insert Fake_Tail (set ys)" for r
    using that rep by (auto simp: queue_rep_def)
  let ?g = "set_prev c (Some Fake_Head) (set_next Fake_Head (Some c) (store q))"
  let ?g' = "set_prev c (Some Fake_Head) (set_next Fake_Head (Some c) h)"
  have "dseg ?g Fake_Head ys Fake_Tail"
    unfolding c using a rep by (intro dseg_rehead) (auto simp: queue_rep_def)
  moreover have "dseg ?g' Fake_Head ys Fake_Tail = dseg ?g Fake_Head ys Fake_Tail"
    using nin by (intro dseg_cong) (auto simp: h clear_links_def)
  moreover have "c \<notin> range Blk \<or> c \<in> set ys"
    unfolding c by (cases ys) auto
  ultimately show ?thesis
    using rep nin by (auto simp: queue_rep_def h clear_links_def block_meta_def)
qed

lemma popleft_n_refines:
  assumes rep: "queue_rep q (xs @ ys)" and n: "n = int (length xs)"
  shows "\<exists>q'. popleft_n n q = Inr (xs, q') \<and> queue_rep q' ys \<and> qmeta q' = qmeta q"
proof (cases "xs = []")
  case True
  with assms show ?thesis by (auto simp: popleft_n_def)
next
  case False
  let ?c = "hd (ys @ [Fake_Tail])" and ?h = "clear_links xs (store q)"
  have first: "next_free_block (store q Fake_Head) = Some (hd xs)"
    using rep False by (auto simp: queue_rep_def dest: dseg_first)
  have loop: "popleft_n_loop (length xs) (store q) (Some (hd xs)) [] = Inr (xs, ?h, Some ?c)"
    using popleft_n_loop_segment [of "store q" Fake_Head xs ys Fake_Tail "[]"] rep False
    by (simp add: queue_rep_def)
  have q': "popleft_n n q = Inr (xs, q\<lparr>store := set_prev ?c (Some Fake_Head)
        (set_next Fake_Head (Some ?c) ?h), num_free_blocks := num_free_blocks q - int (length xs)\<rparr>)"
    using False rep n by (simp add: popleft_n_def first loop queue_rep_def)
  show ?thesis
    using q' rep_pop_segment [OF rep refl refl] by (auto simp: qmeta_def)
qed

lemma popleft_n_short: "queue_rep q xs \<Longrightarrow> int (length xs) < n \<Longrightarrow> popleft_n n q = Inl AssertionError"
  by (auto simp: popleft_n_def queue_rep_def)

lemma popleft_refines:
  assumes rep: "queue_rep q (x # xs)"
  shows "\<exists>q'. popleft q = Inr (x, q') \<and> queue_rep q' xs \<and> qmeta q' = qmeta q"
proof -
  let ?c = "hd (xs @ [Fake_Tail])"
  have x: "x \<noteq> Fake_Tail" "x \<noteq> Fake_Head" using queue_rep_not_fake [OF rep] by auto
  have links: "next_free_block (store q Fake_Head) = Some x"
    "next_free_block (store q x) = Some ?c"
    using rep by (auto simp: queue_rep_def dest: dseg_first)
  have cx: "?c \<noteq> x" using rep x by (cases xs) (auto simp: queue_rep_def)
  have "set_next x None (set_prev x None (set_prev ?c (Some Fake_Head)
          (set_next Fake_Head (Some ?c) (store q))))
      = set_prev ?c (Some Fake_Head) (set_next Fake_Head (Some ?c) (clear_links [x] (store q)))"
    using x cx by (auto simp: clear_links_def set_next_def set_prev_def block_meta_def fun_eq_iff)
  then have "popleft q = Inr (x, q\<lparr>store := set_prev ?c (Some Fake_Head)
       (set_next Fake_Head (Some ?c) (clear_links [x] (store q))),
       num_free_blocks := num_free_blocks q - int (length [x])\<rparr>)"
    using x by (simp add: popleft_def links Let_def)
  moreover have "queue_rep q ([x] @ xs)" using rep by simp
  ultimately show ?thesis
    using rep_pop_segment [of q "[x]" xs, OF _ refl refl] by (auto simp: qmeta_def)
qed

lemma popleft_empty: "queue_rep q [] \<Longrightarrow> popleft q = Inl ValueError"
  by (simp add: popleft_def queue_rep_def)

subsection \<open>Removing from the middle\<close>

lemma remove_refines:
  assumes rep: "queue_rep q (xs @ b # ys)"
  shows "\<exists>q'. remove_block b q = Inr q' \<and> queue_rep q' (xs @ ys) \<and> qmeta q' = qmeta q"
proof -
  let ?h = "store q"
  define p where "p = last (Fake_Head # xs)"
  define n where "n = hd (ys @ [Fake_Tail])"
  have seg: "dseg ?h Fake_Head xs b" "dseg ?h b ys Fake_Tail"
    using rep by (auto simp: queue_rep_def dseg_append)
  have links: "prev_free_block (?h b) = Some p" "next_free_block (?h b) = Some n"
    using dseg_last [OF seg(1)] dseg_first [OF seg(2)] by (simp_all only: p_def n_def)
  have ends: "p \<in> insert Fake_Head (set xs)" "n \<in> insert Fake_Tail (set ys)"
    by (simp_all add: p_def n_def hd_append)
  have fake: "Fake_Head \<notin> insert b (set xs \<union> set ys)" "Fake_Tail \<notin> insert b (set xs \<union> set ys)"
    and apart: "distinct xs" "distinct ys" "b \<notin> set xs" "b \<notin> set ys" "set xs \<inter> set ys = {}"
    using rep queue_rep_not_fake [OF rep] by (simp_all add: queue_rep_def)
  have dist: "p \<noteq> b" "n \<noteq> b" "n \<notin> set xs" "n \<noteq> Fake_Head" "p \<notin> set ys" "p \<noteq> Fake_Tail"
    using ends fake apart by blast+
  let ?g = "set_prev n (Some p) (set_next p (Some n) ?h)"
  let ?h' = "set_next b None (set_prev b None ?g)"
  have left: "dseg ?h' Fake_Head xs n"
  proof -
    have "dseg ?g Fake_Head xs n"
      using seg(1) fake apart dist(3) unfolding p_def by (intro dseg_retarget) simp_all
    moreover have "dseg ?h' Fake_Head xs n = dseg ?g Fake_Head xs n"
      using fake apart dist by (intro dseg_cong) auto
    ultimately show ?thesis by simp
  qed
  have "dseg ?h' Fake_Head (xs @ ys) Fake_Tail"
  proof (cases ys)
    case Nil
    with left show ?thesis by (simp add: n_def)
  next
    case (Cons z zs)
    have "dseg ?h' z zs Fake_Tail = dseg ?h z zs Fake_Tail"
      using fake apart dist Cons by (intro dseg_cong) (auto simp: n_def)
    with seg(2) left Cons show ?thesis by (simp add: dseg_append n_def)
  qed
  moreover have "prev_free_block (?h' (Blk i)) = None \<and> next_free_block (?h' (Blk i)) = None"
    if "Blk i \<notin> set (xs @ ys)" for i
  proof (cases "Blk i = b")
    case False
    moreover have "Blk i \<noteq> p" "Blk i \<noteq> n" using that ends by auto
    ultimately show ?thesis using rep that by (simp add: queue_rep_def)
  qed simp
  ultimately have "queue_rep (q\<lparr>store := ?h', num_free_blocks := num_free_blocks q - 1\<rparr>) (xs @ ys)"
    using rep dist fake by (simp add: queue_rep_def)
  moreover have "remove_block b q = Inr (q\<lparr>store := ?h', num_free_blocks := num_free_blocks q - 1\<rparr>)"
    using links by (simp add: remove_block_def Let_def)
  ultimately show ?thesis by (auto simp: qmeta_def fun_eq_iff)
qed

lemma remove_not_queued:
  "queue_rep q xs \<Longrightarrow> Blk i \<notin> set xs \<Longrightarrow> remove_block (Blk i) q = Inl RuntimeError"
  by (simp add: remove_block_def queue_rep_def)

subsection \<open>Putting back\<close>

lemma rep_splice:
  assumes rep: "queue_rep q (xs @ ys)" and bs: "distinct bs" "set bs \<subseteq> range Blk"
      "set bs \<inter> set (xs @ ys) = {}"
    and l: "l = last (Fake_Head # xs)" and t: "t = hd (ys @ [Fake_Tail])"
    and chain: "link_chain bs l (store q) = (l', h)"
  shows "queue_rep (q\<lparr>store := set_prev t (Some l') (set_next l' (Some t) h),
      num_free_blocks := num_free_blocks q + int (length bs)\<rparr>) (xs @ bs @ ys)" (is "queue_rep ?q _")
    and "qmeta (q\<lparr>store := set_prev t (Some l') (set_next l' (Some t) h),
      num_free_blocks := num_free_blocks q + int (length bs)\<rparr>) = qmeta q"
proof -
  let ?h = "set_prev t (Some l') (set_next l' (Some t) h)"
  have fake: "Fake_Head \<notin> set xs \<union> set ys \<union> set bs" "Fake_Tail \<notin> set xs \<union> set ys \<union> set bs"
    and apart: "distinct xs" "distinct ys" "set xs \<inter> set ys = {}"
    using rep bs queue_rep_not_fake [OF rep] by (auto simp: queue_rep_def)
  have ends: "l \<in> insert Fake_Head (set xs)" "t \<in> insert Fake_Tail (set ys)"
    by (simp_all add: l t hd_append)
  have nin: "distinct (l # bs)" "t \<notin> set (l # bs)"
    using ends fake apart bs by auto
  note link = dseg_link_chain [OF chain nin]
  have seg: "dseg (store q) Fake_Head (xs @ ys) Fake_Tail" using rep by (simp add: queue_rep_def)
  have left: "dseg ?h Fake_Head (xs @ bs) t"
  proof (cases xs rule: rev_cases)
    case Nil
    with link(1) l show ?thesis by simp
  next
    case (snoc zs z)
    have "dseg ?h Fake_Head zs z = dseg (store q) Fake_Head zs z"
      using snoc l fake apart bs ends nin by (intro dseg_cong link(2,3)) auto
    moreover have "dseg (store q) Fake_Head zs z"
      using seg snoc by (simp add: dseg_append)
    ultimately show ?thesis using link(1) snoc l by (simp add: dseg_append)
  qed
  have "dseg ?h Fake_Head (xs @ bs @ ys) Fake_Tail"
  proof (cases ys)
    case Nil
    with left t show ?thesis by simp
  next
    case (Cons z zs)
    have "dseg ?h z zs Fake_Tail = dseg (store q) z zs Fake_Tail"
      using Cons t fake apart bs ends nin by (intro dseg_cong link(2,3)) auto
    moreover have "dseg (store q) z zs Fake_Tail"
      using seg Cons by (simp add: dseg_append)
    ultimately show ?thesis using left Cons t dseg_append [of ?h Fake_Head "xs @ bs" z zs Fake_Tail]
      by simp
  qed
  moreover have "prev_free_block (?h (Blk i)) = None \<and> next_free_block (?h (Blk i)) = None"
    if "Blk i \<notin> set (xs @ bs @ ys)" for i
  proof -
    have "Blk i \<notin> set (l # bs)" "Blk i \<notin> insert t (set bs)" using that ends by auto
    then show ?thesis using link(2,3) [of "Blk i"] rep that by (simp add: queue_rep_def)
  qed
  moreover have "Fake_Tail \<notin> set (l # bs)" using ends fake by auto
  ultimately show "queue_rep ?q (xs @ bs @ ys)"
    using rep link(2) [of Fake_Tail] bs by (auto simp: queue_rep_def)
  show "qmeta ?q = qmeta q" using link(4) by (simp add: qmeta_def fun_eq_iff)
qed

lemma append_n_refines:
  assumes rep: "queue_rep q xs" and bs: "distinct bs" "set bs \<subseteq> range Blk" "set bs \<inter> set xs = {}"
  shows "\<exists>q'. append_n bs q = Inr q' \<and> queue_rep q' (xs @ bs) \<and> qmeta q' = qmeta q"
proof (cases "bs = []")
  case True
  with rep show ?thesis by (simp add: append_n_def)
next
  case False
  obtain l' h where chain: "link_chain bs (last (Fake_Head # xs)) (store q) = (l', h)" by fastforce
  have "prev_free_block (store q Fake_Tail) = Some (last (Fake_Head # xs))"
    using rep by (auto simp: queue_rep_def dest: dseg_last simp del: last.simps)
  then have "append_n bs q = Inr (q\<lparr>store := set_prev Fake_Tail (Some l') (set_next l' (Some Fake_Tail) h),
      num_free_blocks := num_free_blocks q + int (length bs)\<rparr>)"
    using False chain by (simp add: append_n_def Let_def del: last.simps)
  with rep_splice [of q xs "[]" bs, OF _ bs(1,2) _ refl _ chain] rep bs(3) show ?thesis by simp
qed

lemma append_refines:
  assumes "queue_rep q xs" and "Blk i \<notin> set xs"
  shows "\<exists>q'. append_block (Blk i) q = Inr q' \<and> queue_rep q' (xs @ [Blk i]) \<and> qmeta q' = qmeta q"
proof -
  obtain l where l: "prev_free_block (store q Fake_Tail) = Some l" "l \<noteq> Blk i"
  proof
    show "prev_free_block (store q Fake_Tail) = Some (last (Fake_Head # xs))"
      using assms(1) dseg_last [of "store q" Fake_Head xs Fake_Tail] by (simp only: queue_rep_def)
    show "last (Fake_Head # xs) \<noteq> Blk i"
      using assms(2) by (cases "xs = []") (auto dest: last_in_set)
  qed
  have "set_prev (Blk i) (Some l) (set_next l (Some (Blk i)) (store q))
      = set_next l (Some (Blk i)) (set_prev (Blk i) (Some l) (store q))"
    using l by (auto simp: set_prev_def set_next_def fun_eq_iff)
  then have "append_block (Blk i) q = append_n [Blk i] q"
    using l by (simp add: append_block_def append_n_def Let_def)
  with append_n_refines [of q xs "[Blk i]"] assms show ?thesis by simp
qed

lemma prepend_n_refines:
  assumes rep: "queue_rep q xs" and bs: "distinct bs" "set bs \<subseteq> range Blk" "set bs \<inter> set xs = {}"
  shows "\<exists>q'. prepend_n bs q = Inr q' \<and> queue_rep q' (bs @ xs) \<and> qmeta q' = qmeta q"
proof (cases "bs = []")
  case True
  with rep show ?thesis by (simp add: prepend_n_def)
next
  case False
  obtain l' h where chain: "link_chain bs Fake_Head (store q) = (l', h)" by fastforce
  have "next_free_block (store q Fake_Head) = Some (hd (xs @ [Fake_Tail]))"
    using rep by (auto simp: queue_rep_def dest: dseg_first)
  then have "prepend_n bs q = Inr (q\<lparr>store := set_prev (hd (xs @ [Fake_Tail])) (Some l')
        (set_next l' (Some (hd (xs @ [Fake_Tail]))) h),
      num_free_blocks := num_free_blocks q + int (length bs)\<rparr>)"
    using False chain by (simp add: prepend_n_def Let_def)
  with rep_splice [of q "[]" xs bs, OF _ bs(1,2) _ _ refl] chain rep bs(3) show ?thesis by simp
qed

subsection \<open>Reading the whole list, and building it\<close>

lemma collect_free_segment:
  "dseg h a xs b \<Longrightarrow> next_free_block (h b) = None \<Longrightarrow>
     collect_free h (hd (xs @ [b])) ret = Some (ret @ xs)"
proof (induction xs arbitrary: a ret)
  case Nil
  then show ?case by (simp add: collect_free.simps)
next
  case (Cons x xs)
  have "next_free_block (h x) = Some (hd (xs @ [b]))"
    using Cons.prems(1) by (auto dest: dseg_first)
  then show ?case
    using Cons.IH [of x "ret @ [x]"] Cons.prems by (simp add: collect_free.simps [of h x])
qed

lemma get_all_free_blocks_rep:
  "queue_rep q xs \<Longrightarrow> get_all_free_blocks q = Some (Inr xs)"
  using collect_free_segment [of "store q" Fake_Head xs Fake_Tail "[]"]
    dseg_first [of "store q" Fake_Head xs Fake_Tail]
  by (simp add: queue_rep_def get_all_free_blocks_def)

lemma link_step_next:
  assumes "distinct bs" and "m < length bs" and "i < length bs"
  shows "next_free_block (link_step bs m g (bs ! i)) =
      (if i = m \<and> m < length bs - 1 then Some (bs ! (m + 1)) else next_free_block (g (bs ! i)))"
proof -
  have "bs ! i = bs ! m \<longleftrightarrow> i = m" using assms by (simp add: nth_eq_iff_index_eq)
  then show ?thesis unfolding link_step_def Let_def by (simp split: if_split)
qed

lemma link_step_prev:
  assumes "distinct bs" and "m < length bs" and "i < length bs"
  shows "prev_free_block (link_step bs m g (bs ! i)) =
      (if i = m \<and> 0 < m then Some (bs ! (m - 1)) else prev_free_block (g (bs ! i)))"
proof -
  have "bs ! i = bs ! m \<longleftrightarrow> i = m" using assms by (simp add: nth_eq_iff_index_eq)
  then show ?thesis unfolding link_step_def Let_def by (simp split: if_split)
qed

lemma link_step_other: "m < length bs \<Longrightarrow> r \<notin> set bs \<Longrightarrow> link_step bs m g r = g r"
proof -
  assume "m < length bs" "r \<notin> set bs"
  then have "r \<noteq> bs ! m" using nth_mem by blast
  then show ?thesis by (simp add: link_step_def Let_def set_next_def set_prev_def)
qed

lemma link_step_meta [simp]: "block_meta (link_step bs m g r) = block_meta (g r)"
  by (simp add: link_step_def Let_def)

lemma link_loop_next:
  "distinct bs \<Longrightarrow> m \<le> length bs \<Longrightarrow> i < length bs \<Longrightarrow>
     next_free_block (fold (link_step bs) [0..<m] h (bs ! i)) =
      (if i < m \<and> i < length bs - 1 then Some (bs ! (i + 1)) else next_free_block (h (bs ! i)))"
  by (induction m) (auto simp: link_step_next less_Suc_eq)

lemma link_loop_prev:
  "distinct bs \<Longrightarrow> m \<le> length bs \<Longrightarrow> i < length bs \<Longrightarrow>
     prev_free_block (fold (link_step bs) [0..<m] h (bs ! i)) =
      (if 0 < i \<and> i < m then Some (bs ! (i - 1)) else prev_free_block (h (bs ! i)))"
  by (induction m) (auto simp: link_step_prev less_Suc_eq)

lemma link_loop_other:
  "m \<le> length bs \<Longrightarrow> r \<notin> set bs \<Longrightarrow> fold (link_step bs) [0..<m] h r = h r"
  by (induction m) (auto simp: link_step_other)

lemma link_loop_meta: "block_meta (fold (link_step bs) [0..<m] h r) = block_meta (h r)"
  by (induction m) auto

lemma dseg_nth:
  assumes "\<And>i. i \<le> length xs \<Longrightarrow>
      next_free_block (h ((a # xs @ [b]) ! i)) = Some ((a # xs @ [b]) ! Suc i) \<and>
      prev_free_block (h ((a # xs @ [b]) ! Suc i)) = Some ((a # xs @ [b]) ! i)"
  shows "dseg h a xs b"
  using assms
proof (induction xs arbitrary: a)
  case Nil
  then show ?case using Nil [of 0] by simp
next
  case (Cons x xs)
  have "dseg h x xs b" using Cons.prems [of "Suc i" for i] by (intro Cons.IH) fastforce
  with Cons.prems [of 0] show ?case by simp
qed

lemma free_queue_init_rep:
  assumes bs: "distinct bs" "set bs \<subseteq> range Blk"
    and fresh: "\<And>i. Blk i \<notin> set bs \<Longrightarrow>
      prev_free_block (h (Blk i)) = None \<and> next_free_block (h (Blk i)) = None"
  shows "queue_rep (free_queue_init h bs) bs"
    and "qmeta (free_queue_init h bs) (Blk i) = block_meta (h (Blk i))"
proof -
  let ?q = "free_queue_init h bs" and ?n = "length bs"
  note loop = link_loop_next [OF bs(1) order_refl] link_loop_prev [OF bs(1) order_refl]
    link_loop_other [OF order_refl] link_loop_meta
  have fake: "Fake_Head \<notin> set bs" "Fake_Tail \<notin> set bs" using bs(2) by auto
  have nf: "bs ! i \<noteq> Fake_Head" "bs ! i \<noteq> Fake_Tail" if "i < ?n" for i
    using that fake nth_mem by force+
  have eq: "i < ?n \<Longrightarrow> j < ?n \<Longrightarrow> bs ! i = bs ! j \<longleftrightarrow> i = j" for i j
    using bs(1) by (simp add: nth_eq_iff_index_eq)
  have nxt: "next_free_block (store ?q (bs ! i)) = Some ((bs @ [Fake_Tail]) ! Suc i)" if "i < ?n" for i
    using that loop(1) [of i] nf eq [of i "?n - 1"]
    by (auto simp: free_queue_init_def Let_def last_conv_nth nth_append)
  have prv: "prev_free_block (store ?q (bs ! i)) = Some ((Fake_Head # bs) ! i)" if "i < ?n" for i
    using that loop(2) [of i] nf eq [of i 0]
    by (auto simp: free_queue_init_def Let_def hd_conv_nth nth_Cons')
  have ends: "next_free_block (store ?q Fake_Head) = Some ((bs @ [Fake_Tail]) ! 0)"
    "prev_free_block (store ?q Fake_Tail) = Some ((Fake_Head # bs) ! ?n)"
    "next_free_block (store ?q Fake_Tail) = None"
    using fake nf [of "?n - 1"] nf [of 0]
    by (cases "bs = []"; simp add: free_queue_init_def Let_def new_block_def hd_conv_nth
        last_conv_nth nth_append nth_Cons')+
  have "dseg (store ?q) Fake_Head bs Fake_Tail"
  proof (rule dseg_nth)
    fix i assume i: "i \<le> ?n"
    show "next_free_block (store ?q ((Fake_Head # bs @ [Fake_Tail]) ! i))
          = Some ((Fake_Head # bs @ [Fake_Tail]) ! Suc i) \<and>
        prev_free_block (store ?q ((Fake_Head # bs @ [Fake_Tail]) ! Suc i))
          = Some ((Fake_Head # bs @ [Fake_Tail]) ! i)"
      using i nxt [of "i - 1"] prv [of i] ends
      by (cases i) (auto simp: nth_append nth_Cons' dest: sym [of "Suc _" "length bs"])
  qed
  moreover have "store ?q (Blk i) = h (Blk i)" if "Blk i \<notin> set bs" for i
  proof -
    have "bs \<noteq> [] \<Longrightarrow> Blk i \<noteq> hd bs \<and> Blk i \<noteq> last bs" using that by (auto dest: hd_in_set last_in_set)
    then show ?thesis using loop(3) [OF that]
      by (auto simp: free_queue_init_def Let_def set_next_def set_prev_def)
  qed
  moreover have "num_free_blocks ?q = int ?n" by (simp add: free_queue_init_def Let_def)
  ultimately show "queue_rep ?q bs" using bs fresh ends(3) by (auto simp: queue_rep_def)
  show "qmeta ?q (Blk i) = block_meta (h (Blk i))"
    using link_loop_meta [of bs ?n h "Blk i"] by (simp add: qmeta_def free_queue_init_def Let_def)
qed

section \<open>The interface of the free list\<close>

text \<open>
  What the block pool relies on. \<open>rep\<close> is the list a queue holds, \<open>meta\<close> the part of
  each block the queue never writes.
\<close>

locale block_queue =
  fixes rep :: "'q \<Rightarrow> bref list \<Rightarrow> bool"
    and meta :: "'q \<Rightarrow> bref \<Rightarrow> 'm"
    and size :: "'q \<Rightarrow> int"
    and pop_n :: "int \<Rightarrow> 'q \<Rightarrow> (bref list \<times> 'q) res"
    and remove :: "bref \<Rightarrow> 'q \<Rightarrow> 'q res"
    and push_back :: "bref list \<Rightarrow> 'q \<Rightarrow> 'q res"
    and push_front :: "bref list \<Rightarrow> 'q \<Rightarrow> 'q res"
  assumes rep_distinct: "rep q xs \<Longrightarrow> distinct xs"
    and rep_blocks: "rep q xs \<Longrightarrow> set xs \<subseteq> range Blk"
    and rep_size: "rep q xs \<Longrightarrow> size q = int (length xs)"
    and pop_law: "rep q (xs @ ys) \<Longrightarrow>
      \<exists>q'. pop_n (int (length xs)) q = Inr (xs, q') \<and> rep q' ys \<and> meta q' = meta q"
    and pop_short: "rep q xs \<Longrightarrow> int (length xs) < n \<Longrightarrow> pop_n n q = Inl AssertionError"
    and remove_law: "rep q (xs @ b # ys) \<Longrightarrow>
      \<exists>q'. remove b q = Inr q' \<and> rep q' (xs @ ys) \<and> meta q' = meta q"
    and back_law: "rep q xs \<Longrightarrow> distinct bs \<Longrightarrow> set bs \<subseteq> range Blk \<Longrightarrow> set bs \<inter> set xs = {} \<Longrightarrow>
      \<exists>q'. push_back bs q = Inr q' \<and> rep q' (xs @ bs) \<and> meta q' = meta q"
    and front_law: "rep q xs \<Longrightarrow> distinct bs \<Longrightarrow> set bs \<subseteq> range Blk \<Longrightarrow> set bs \<inter> set xs = {} \<Longrightarrow>
      \<exists>q'. push_front bs q = Inr q' \<and> rep q' (bs @ xs) \<and> meta q' = meta q"
begin

lemma pop_take:
  assumes "rep q xs" and "0 \<le> n" and "n \<le> size q"
  shows "\<exists>q'. pop_n n q = Inr (take (nat n) xs, q') \<and> rep q' (drop (nat n) xs) \<and> meta q' = meta q"
proof -
  have n: "n = int (length (take (nat n) xs))" using assms rep_size [of q xs] by simp
  have "rep q (take (nat n) xs @ drop (nat n) xs)" using assms(1) by simp
  from pop_law [OF this] n show ?thesis by simp
qed

lemma remove_member:
  assumes "rep q xs" and "b \<in> set xs"
  shows "\<exists>q'. remove b q = Inr q' \<and> rep q' (remove1 b xs) \<and> meta q' = meta q"
proof -
  obtain ys zs where xs: "xs = ys @ b # zs" "b \<notin> set ys"
    using assms(2) by (metis split_list_first)
  then have "remove1 b xs = ys @ zs" by (simp add: remove1_append)
  with remove_law [of q ys b zs] assms(1) xs show ?thesis by simp
qed

text \<open>Blocks come back out in the order they went in: the free list is a FIFO.\<close>

lemma push_back_pop:
  assumes "rep q xs" and "distinct bs" and "set bs \<subseteq> range Blk" and "set bs \<inter> set xs = {}"
  shows "\<exists>q1 q2. push_back bs q = Inr q1 \<and> pop_n (size q) q1 = Inr (xs, q2) \<and> rep q2 bs"
proof -
  from back_law [OF assms] obtain q1 where q1: "push_back bs q = Inr q1" "rep q1 (xs @ bs)" by blast
  from pop_law [OF q1(2)] rep_size [OF assms(1)] q1 show ?thesis by auto
qed

end

interpretation fq: block_queue queue_rep qmeta num_free_blocks popleft_n remove_block append_n prepend_n
proof (unfold_locales, goal_cases)
  case (4 q xs ys)
  then show ?case by (rule popleft_n_refines) simp
next
  case (5 q xs n)
  then show ?case by (rule popleft_n_short)
next
  case (6 q xs b ys)
  then show ?case by (rule remove_refines)
next
  case (7 q xs bs)
  then show ?case by (rule append_n_refines)
next
  case (8 q xs bs)
  then show ?case by (rule prepend_n_refines)
qed (auto simp: queue_rep_def)

section \<open>Sequences of operations\<close>

text \<open>
  The abstract specification is a plain list of blocks. \<open>abs_step\<close> gives the list after one
  operation, \<open>None\<close> where the operation's contract is not met: taking more than there is, removing
  a block that is not queued, putting back a block twice.
\<close>

datatype queue_op =
    Op_Popleft
  | Op_Popleft_n int
  | Op_Remove bref
  | Op_Append bref
  | Op_Append_n "bref list"
  | Op_Prepend_n "bref list"

definition returnable :: "bref list \<Rightarrow> bref list \<Rightarrow> bool" where
  "returnable bs xs \<longleftrightarrow>
     distinct bs \<and> list_all (\<lambda>b. b \<noteq> Fake_Head \<and> b \<noteq> Fake_Tail \<and> b \<notin> set xs) bs"

fun abs_step :: "queue_op \<Rightarrow> bref list \<Rightarrow> bref list option" where
  "abs_step Op_Popleft xs = (if xs = [] then None else Some (tl xs))"
| "abs_step (Op_Popleft_n n) xs =
     (if 0 \<le> n \<and> n \<le> int (length xs) then Some (drop (nat n) xs) else None)"
| "abs_step (Op_Remove b) xs = (if b \<in> set xs then Some (remove1 b xs) else None)"
| "abs_step (Op_Append b) xs = (if returnable [b] xs then Some (xs @ [b]) else None)"
| "abs_step (Op_Append_n bs) xs = (if returnable bs xs then Some (xs @ bs) else None)"
| "abs_step (Op_Prepend_n bs) xs = (if returnable bs xs then Some (bs @ xs) else None)"

fun queue_step :: "queue_op \<Rightarrow> free_queue \<Rightarrow> free_queue res" where
  "queue_step Op_Popleft q = bindE (popleft q) (\<lambda>(_, q'). Inr q')"
| "queue_step (Op_Popleft_n n) q = bindE (popleft_n n q) (\<lambda>(_, q'). Inr q')"
| "queue_step (Op_Remove b) q = remove_block b q"
| "queue_step (Op_Append b) q = append_block b q"
| "queue_step (Op_Append_n bs) q = append_n bs q"
| "queue_step (Op_Prepend_n bs) q = prepend_n bs q"

fun abs_run :: "queue_op list \<Rightarrow> bref list \<Rightarrow> bref list option" where
  "abs_run [] xs = Some xs"
| "abs_run (op # ops) xs = Option.bind (abs_step op xs) (abs_run ops)"

lemma returnable_blocks:
  "returnable bs xs \<Longrightarrow> distinct bs \<and> set bs \<subseteq> range Blk \<and> set bs \<inter> set xs = {}"
  unfolding returnable_def list_all_iff by (auto, metis bref.exhaust rangeI)

lemma queue_step_refines:
  assumes rep: "queue_rep q xs" and step: "abs_step op xs = Some ys"
  shows "\<exists>q'. queue_step op q = Inr q' \<and> queue_rep q' ys \<and> qmeta q' = qmeta q"
proof (cases op)
  case Op_Popleft
  with step obtain x where "xs = x # ys" by (cases xs) auto
  with popleft_refines [of q x ys] rep Op_Popleft show ?thesis by auto
next
  case (Op_Popleft_n n)
  with step fq.pop_take [OF rep, of n] queue_rep_length [OF rep] show ?thesis
    by (auto split: if_splits)
next
  case (Op_Remove b)
  with step fq.remove_member [OF rep, of b] show ?thesis by (auto split: if_splits)
next
  case (Op_Append b)
  with step have ret: "returnable [b] xs" "ys = xs @ [b]" by (auto split: if_splits)
  then obtain i where "b = Blk i" "Blk i \<notin> set xs" using returnable_blocks [of "[b]" xs] by auto
  with append_refines [OF rep, of i] Op_Append ret show ?thesis by auto
next
  case (Op_Append_n bs)
  with step fq.back_law [OF rep, of bs] show ?thesis
    by (auto dest: returnable_blocks split: if_splits)
next
  case (Op_Prepend_n bs)
  with step fq.front_law [OF rep, of bs] show ?thesis
    by (auto dest: returnable_blocks split: if_splits)
qed

lemma queue_run_refines:
  assumes "queue_rep q xs" "abs_run ops xs = Some ys"
  shows "\<exists>q'. foldE queue_step ops q = Inr q' \<and> queue_rep q' ys \<and> qmeta q' = qmeta q"
  using assms
proof (induction ops arbitrary: q xs)
  case (Cons op ops)
  then obtain zs where zs: "abs_step op xs = Some zs" "abs_run ops zs = Some ys"
    by (auto simp: bind_eq_Some_conv)
  obtain q1 where q1: "queue_step op q = Inr q1" "queue_rep q1 zs" "qmeta q1 = qmeta q"
    using queue_step_refines [OF Cons.prems(1) zs(1)] by blast
  with Cons.IH [OF q1(2) zs(2)] show ?case by auto
qed simp

text \<open>
  C12: the intrusive doubly linked free list implements a list. Build the queue over any distinct
  blocks, then run any sequence of pops, removals from the middle, appends and prepends that is legal on
  the plain list: no operation raises, a traversal of the resulting pointers returns (it does not run
  around a cycle) exactly the list the specification computes, the counter is its length, and no
  field of any block other than its two links has changed.
\<close>

theorem free_queue_refines_list:
  assumes "distinct bs" "set bs \<subseteq> range Blk"
    and "\<And>i. Blk i \<notin> set bs \<Longrightarrow>
      prev_free_block (h (Blk i)) = None \<and> next_free_block (h (Blk i)) = None"
    and "abs_run ops bs = Some ys"
  shows "\<exists>q. foldE queue_step ops (free_queue_init h bs) = Inr q \<and>
           get_all_free_blocks q = Some (Inr ys) \<and> num_free_blocks q = int (length ys) \<and>
           (\<forall>i. block_meta (store q (Blk i)) = block_meta (h (Blk i)))"
proof -
  note init = free_queue_init_rep [where h = h and bs = bs, OF assms(1,2) assms(3)]
  obtain q where q: "foldE queue_step ops (free_queue_init h bs) = Inr q" "queue_rep q ys"
    "qmeta q = qmeta (free_queue_init h bs)"
    using queue_run_refines [OF init(1) assms(4)] by blast
  moreover have "block_meta (store q (Blk i)) = block_meta (h (Blk i))" for i
    using init(2) [of i] q(3) by (metis qmeta_def)
  ultimately show ?thesis by (auto simp: get_all_free_blocks_rep queue_rep_length)
qed

theorem free_queue_refines_list_witness:
  "\<exists>q. foldE queue_step [Op_Popleft_n 2, Op_Remove (Blk 3), Op_Append_n [Blk 0], Op_Prepend_n [Blk 1]]
         (free_queue_init (\<lambda>_. new_block 0) [Blk 0, Blk 1, Blk 2, Blk 3, Blk 4]) = Inr q \<and>
       get_all_free_blocks q = Some (Inr [Blk 1, Blk 2, Blk 4, Blk 0])"
  using free_queue_refines_list
    [of "[Blk 0, Blk 1, Blk 2, Blk 3, Blk 4]" "\<lambda>_. new_block 0"
        "[Op_Popleft_n 2, Op_Remove (Blk 3), Op_Append_n [Blk 0], Op_Prepend_n [Blk 1]]"
        "[Blk 1, Blk 2, Blk 4, Blk 0]"]
  by (auto simp: new_block_def returnable_def numeral_eq_Suc)

text \<open>
  C19: misuse is rejected. On a well-formed queue, asking for more blocks than there are, popping an
  empty queue, or removing a block that is not queued raises, instead of corrupting the links.
\<close>

theorem free_queue_misuse_raises:
  assumes "queue_rep q xs"
  shows "(int (length xs) < n \<longrightarrow> popleft_n n q = Inl AssertionError) \<and>
         (xs = [] \<longrightarrow> popleft q = Inl ValueError) \<and>
         (Blk i \<notin> set xs \<longrightarrow> remove_block (Blk i) q = Inl RuntimeError)"
  using assms popleft_n_short popleft_empty remove_not_queued by blast

theorem free_queue_misuse_raises_witness:
  "popleft_n 3 (free_queue_init (\<lambda>_. new_block 0) [Blk 0, Blk 1]) = Inl AssertionError"
  using free_queue_misuse_raises [of "free_queue_init (\<lambda>_. new_block 0) [Blk 0, Blk 1]"
      "[Blk 0, Blk 1]" 3 0] free_queue_init_rep(1) [of "[Blk 0, Blk 1]" "\<lambda>_. new_block 0"]
  by (simp add: new_block_def)

end
