(* ===== verification/Block_Pool.thy ===== *)
theory Block_Pool
  imports Free_Block_Queue Block_Hash
begin

text \<open>
  The pool of KV-cache blocks: \<^verbatim>\<open>BlockHashToBlockMap\<close> and \<^verbatim>\<open>BlockPool\<close> of
  \<^verbatim>\<open>vllm/v1/core/block_pool.py\<close>, operation by operation. Block objects live in the store of the
  free queue; a block list of the source is a list of references. Calls to the optional metrics
  collector are kept as a log, and the environment flag that selects integer hashes in events is a
  field of the pool. The set of ids given to \<^verbatim>\<open>evict_blocks\<close> is a list, in iteration order.
\<close>

section \<open>The map from hash keys to blocks\<close>

datatype cached_blocks = Single bref | Multi "(int \<times> bref) list"

type_synonym block_map = "(bytes \<times> cached_blocks) list"

definition get_one_block :: "block_map \<Rightarrow> bytes \<Rightarrow> bref option res" where
  "get_one_block m key =
     (case map_of m key of
        None \<Rightarrow> Inr None
      | Some (Single b) \<Rightarrow> Inr (Some b)
      | Some (Multi []) \<Rightarrow> Inl StopIteration
      | Some (Multi ((_, b) # _)) \<Rightarrow> Inr (Some b))"

definition map_insert :: "heap \<Rightarrow> bytes \<Rightarrow> bref \<Rightarrow> block_map \<Rightarrow> block_map" where
  "map_insert h key b m =
     (case map_of m key of
        None \<Rightarrow> AList.update key (Single b) m
      | Some (Single c) \<Rightarrow>
          AList.update key (Multi (AList.update (block_id (h b)) b [(block_id (h c), c)])) m
      | Some (Multi d) \<Rightarrow> AList.update key (Multi (AList.update (block_id (h b)) b d)) m)"

definition map_pop :: "heap \<Rightarrow> bytes \<Rightarrow> int \<Rightarrow> block_map \<Rightarrow> bref option \<times> block_map" where
  "map_pop h key bid m =
     (let m' = AList.delete key m
      in case map_of m key of
           None \<Rightarrow> (None, m')
         | Some (Single c) \<Rightarrow>
             if block_id (h c) = bid then (Some c, m') else (None, AList.update key (Single c) m')
         | Some (Multi d) \<Rightarrow>
             let d' = AList.delete bid d
             in (map_of d bid, if length d' > 0 then AList.update key (Multi d') m' else m'))"

section \<open>The pool\<close>

datatype kv_event =
    Block_Stored "external_hash list" "external_hash option" "int list" int "int option"
      "string option" "extra_key list option list option" int
  | Block_Removed "external_hash list" int
  | All_Blocks_Cleared

datatype metrics_call = On_Allocated bref | On_Accessed bref | On_Evicted bref | On_Reset

record block_pool =
  num_gpu_blocks :: int
  enable_caching :: bool
  hash_block_size :: int
  pool_blocks :: "bref list"
  free_block_queue :: free_queue
  cached_block_hash_to_block :: block_map
  null_block :: bref
  enable_kv_cache_events :: bool
  use_int_hashes :: bool
  kv_event_queue :: "kv_event list"
  metrics_collector :: "metrics_call list option"

definition pheap :: "block_pool \<Rightarrow> heap" where
  "pheap p = store (free_block_queue p)"

text \<open>An assignment to a field of a block object.\<close>

definition upd_block :: "bref \<Rightarrow> (kv_block \<Rightarrow> kv_block) \<Rightarrow> block_pool \<Rightarrow> block_pool" where
  "upd_block b f p =
     p\<lparr>free_block_queue :=
        (free_block_queue p)\<lparr>store := (pheap p)(b := f (pheap p b))\<rparr>\<rparr>"

definition add_ref :: "int \<Rightarrow> kv_block \<Rightarrow> kv_block" where
  "add_ref d b = b\<lparr>ref_cnt := ref_cnt b + d\<rparr>"

definition metrics_log :: "metrics_call \<Rightarrow> block_pool \<Rightarrow> block_pool" where
  "metrics_log c p = p\<lparr>metrics_collector := map_option (\<lambda>l. l @ [c]) (metrics_collector p)\<rparr>"

definition pool_init ::
  "int \<Rightarrow> bool \<Rightarrow> int \<Rightarrow> bool \<Rightarrow> bool \<Rightarrow> metrics_call list option \<Rightarrow> block_pool res" where
  "pool_init n caching hbs events use_int metrics =
     (if \<not> 0 < n then Inl AssertionError
      else let bs = map Blk [0..<nat n];
               h = (\<lambda>r. case r of Blk i \<Rightarrow> new_block (int i) | _ \<Rightarrow> new_block (-1));
               q = free_queue_init h bs
      in bindE (popleft q) (\<lambda>(nb, q').
           Inr (upd_block nb (\<lambda>b. b\<lparr>is_null := True\<rparr>)
             \<lparr>num_gpu_blocks = n, enable_caching = caching, hash_block_size = hbs,
              pool_blocks = bs, free_block_queue = q', cached_block_hash_to_block = [],
              null_block = nb, enable_kv_cache_events = events, use_int_hashes = use_int,
              kv_event_queue = [], metrics_collector = metrics\<rparr>)))"

definition get_num_free_blocks :: "block_pool \<Rightarrow> int" where
  "get_num_free_blocks p = num_free_blocks (free_block_queue p)"

fun get_cached_block :: "block_pool \<Rightarrow> bytes \<Rightarrow> int list \<Rightarrow> bref list option res" where
  "get_cached_block p bh [] = Inr (Some [])"
| "get_cached_block p bh (g # gs) =
     bindE (make_block_hash_with_group_id bh g) (\<lambda>key.
       bindE (get_one_block (cached_block_hash_to_block p) key) (\<lambda>ob.
         case ob of
           None \<Rightarrow> Inr None
         | Some b \<Rightarrow> bindE (get_cached_block p bh gs) (\<lambda>r. Inr (map_option (\<lambda>bs. b # bs) r))))"

subsection \<open>Caching full blocks\<close>

text \<open>The hashes at the group's block size: the request's own list or the coarser view.\<close>

datatype hash_list = Plain "bytes list" | View hash_view

definition hashes_from :: "nat \<Rightarrow> hash_list \<Rightarrow> bytes list res" where
  "hashes_from n hl =
     (case hl of
        Plain hs \<Rightarrow> Inr (drop n hs)
      | View v \<Rightarrow> bindE (hash_view_list v) (\<lambda>hs. Inr (drop n hs)))"

definition hash_at :: "nat \<Rightarrow> hash_list \<Rightarrow> bytes res" where
  "hash_at n hl = (case hl of Plain hs \<Rightarrow> py_index hs (int n) | View v \<Rightarrow> Inr (hash_view_at v (int n)))"

definition hashes_at_size :: "block_pool \<Rightarrow> bytes list \<Rightarrow> int \<Rightarrow> hash_list res" where
  "hashes_at_size p hs bs =
     (if bs = hash_block_size p then Inr (Plain hs)
      else bindE (make_hash_view hs (hash_block_size p) bs) (\<lambda>v. Inr (View v)))"

definition masked_out :: "bool list option \<Rightarrow> nat \<Rightarrow> bool" where
  "masked_out msk i = (case msk of None \<Rightarrow> False | Some l \<Rightarrow> \<not> l ! i)"

definition cache_one_block ::
  "bytes list \<Rightarrow> int \<Rightarrow> bool list option \<Rightarrow> nat \<times> bref \<Rightarrow> block_pool \<times> external_hash list \<Rightarrow>
   (block_pool \<times> external_hash list) res" where
  "cache_one_block hs gid msk ib s =
     (let (i, b) = ib; (p, new_hashes) = s
      in if is_null (pheap p b) \<or> masked_out msk i then Inr s
         else bindE (guardE (block_hash (pheap p b) = None) AssertionError) (\<lambda>_.
           bindE (py_index hs (int i)) (\<lambda>bh.
           bindE (make_block_hash_with_group_id bh gid) (\<lambda>key.
           bindE (set_block_hash key (pheap p b)) (\<lambda>blk.
             let p1 = upd_block b (\<lambda>_. blk) p;
                 p2 = p1\<lparr>cached_block_hash_to_block :=
                        map_insert (pheap p1) key b (cached_block_hash_to_block p1)\<rparr>
             in Inr (p2, if enable_kv_cache_events p2
                         then new_hashes @ [maybe_convert_block_hash (use_int_hashes p2) bh]
                         else new_hashes))))))"

text \<open>The extra keys of the cached blocks, for the event.\<close>

fun event_extra_keys ::
  "(bytes \<Rightarrow> bytes) \<Rightarrow> heap \<Rightarrow> bref list \<Rightarrow> bool list option \<Rightarrow> nat \<Rightarrow> int \<Rightarrow> nat list \<Rightarrow> int \<Rightarrow> request \<Rightarrow>
   (extra_key list option list \<times> request) res" where
  "event_extra_keys eh h blocks msk n0 bs [] mm r = Inr ([], r)"
| "event_extra_keys eh h blocks msk n0 bs (i # js) mm r =
     bindE (py_index blocks (int i)) (\<lambda>b.
       if is_null (h b) \<or> masked_out msk (i - n0) then event_extra_keys eh h blocks msk n0 bs js mm r
       else bindE (generate_block_hash_extra_keys eh r (int i * bs) (int i * bs + bs) mm)
         (\<lambda>((ks, mm'), r').
            bindE (event_extra_keys eh h blocks msk n0 bs js mm' r') (\<lambda>(rest, r''). Inr (ks # rest, r''))))"

definition cache_full_blocks ::
  "(bytes \<Rightarrow> bytes) \<Rightarrow> request \<Rightarrow> bref list \<Rightarrow> nat \<Rightarrow> nat \<Rightarrow> int \<Rightarrow> int \<Rightarrow> bool list option \<Rightarrow> block_pool \<Rightarrow>
   (block_pool \<times> request) res" where
  "cache_full_blocks eh r blocks num_cached num_full bs gid msk p =
     (if num_cached \<ge> num_full then Inr (p, r)
      else let new_full = take (num_full - num_cached) (drop num_cached blocks)
      in bindE (guardE (length (block_hashes r) \<ge> num_full) AssertionError) (\<lambda>_.
         bindE (guardE (case msk of None \<Rightarrow> True | Some l \<Rightarrow> length l = length new_full) AssertionError) (\<lambda>_.
         bindE (hashes_at_size p (block_hashes r) bs) (\<lambda>hl.
         bindE (hashes_from num_cached hl) (\<lambda>hs.
         bindE (foldE (cache_one_block hs gid msk) (enumerate 0 new_full) (p, [])) (\<lambda>(p1, new_hashes).
           if \<not> enable_kv_cache_events p1 then Inr (p1, r)
           else bindE (if num_cached = 0 then Inr None
                       else bindE (hash_at (num_cached - 1) hl)
                         (\<lambda>bh. Inr (Some (maybe_convert_block_hash (use_int_hashes p1) bh)))) (\<lambda>parent.
             bindE (event_extra_keys eh (pheap p1) blocks msk num_cached bs [num_cached..<num_full] 0 r)
               (\<lambda>(keys, r').
                 Inr (p1\<lparr>kv_event_queue := kv_event_queue p1 @
                      [Block_Stored new_hashes parent
                         (slice (int num_cached * bs) (int num_full * bs) (all_token_ids r'))
                         bs (map_option adapter_id (lora_request r'))
                         (map_option lora_name (lora_request r'))
                         (if keys \<noteq> [] then Some keys else None) gid]\<rparr>, r')))))))))"

subsection \<open>Allocation, eviction, reference counts\<close>

definition maybe_evict_cached_block :: "bref \<Rightarrow> block_pool \<Rightarrow> bool \<times> block_pool" where
  "maybe_evict_cached_block b p =
     (let p0 = metrics_log (On_Evicted b) p
      in case block_hash (pheap p0 b) of
           None \<Rightarrow> (False, p0)
         | Some key \<Rightarrow>
             (case map_pop (pheap p0) key (block_id (pheap p0 b)) (cached_block_hash_to_block p0) of
                (None, m) \<Rightarrow> (False, p0\<lparr>cached_block_hash_to_block := m\<rparr>)
              | (Some _, m) \<Rightarrow>
                  let p1 = upd_block b reset_hash (p0\<lparr>cached_block_hash_to_block := m\<rparr>)
                  in (True, if enable_kv_cache_events p1
                            then p1\<lparr>kv_event_queue := kv_event_queue p1 @
                                   [Block_Removed [maybe_convert_block_hash (use_int_hashes p1)
                                      (get_block_hash key)] (get_group_id key)]\<rparr>
                            else p1)))"

definition alloc_one :: "bref \<Rightarrow> block_pool \<Rightarrow> block_pool res" where
  "alloc_one b p =
     (let p1 = (if enable_caching p then snd (maybe_evict_cached_block b p) else p)
      in bindE (guardE (ref_cnt (pheap p1 b) = 0) AssertionError)
           (\<lambda>_. Inr (metrics_log (On_Allocated b) (upd_block b (add_ref 1) p1))))"

definition get_new_blocks :: "int \<Rightarrow> block_pool \<Rightarrow> (bref list \<times> block_pool) res" where
  "get_new_blocks n p =
     (if n > get_num_free_blocks p then Inl ValueError
      else bindE (popleft_n n (free_block_queue p)) (\<lambda>(ret, q).
        bindE (foldE alloc_one ret (p\<lparr>free_block_queue := q\<rparr>)) (\<lambda>p'. Inr (ret, p'))))"

definition touch_one :: "bref \<Rightarrow> block_pool \<Rightarrow> block_pool res" where
  "touch_one b p =
     bindE (if ref_cnt (pheap p b) = 0 \<and> \<not> is_null (pheap p b)
            then bindE (remove_block b (free_block_queue p)) (\<lambda>q. Inr (p\<lparr>free_block_queue := q\<rparr>))
            else Inr p)
       (\<lambda>p1. Inr (metrics_log (On_Accessed b) (upd_block b (add_ref 1) p1)))"

definition touch :: "bref list \<Rightarrow> block_pool \<Rightarrow> block_pool res" where
  "touch bs p = foldE touch_one bs p"

definition free_blocks :: "bref list \<Rightarrow> bool \<Rightarrow> block_pool \<Rightarrow> block_pool res" where
  "free_blocks bs prepend p =
     (let p1 = fold (\<lambda>b. upd_block b (add_ref (-1))) bs p;
          freed = filter (\<lambda>b. ref_cnt (pheap p1 b) = 0 \<and> \<not> is_null (pheap p1 b)) bs
      in bindE (if prepend then prepend_n freed (free_block_queue p1)
                else append_n freed (free_block_queue p1))
           (\<lambda>q. Inr (p1\<lparr>free_block_queue := q\<rparr>)))"

definition evict_one :: "int \<Rightarrow> block_pool \<Rightarrow> block_pool res" where
  "evict_one i p =
     bindE (guardE (i < int (length (pool_blocks p))) AssertionError) (\<lambda>_.
       bindE (py_index (pool_blocks p) i) (\<lambda>b. Inr (snd (maybe_evict_cached_block b p))))"

definition evict_blocks :: "int list \<Rightarrow> block_pool \<Rightarrow> block_pool res" where
  "evict_blocks ids p = foldE evict_one ids p"

definition reset_prefix_cache :: "block_pool \<Rightarrow> bool \<times> block_pool" where
  "reset_prefix_cache p =
     (let num_used = num_gpu_blocks p - get_num_free_blocks p
      in if num_used \<noteq> 1 then (False, p)
         else let p1 = fold (\<lambda>b. upd_block b reset_hash) (pool_blocks p)
                         (p\<lparr>cached_block_hash_to_block := []\<rparr>);
                  p2 = metrics_log On_Reset p1
         in (True, if enable_kv_cache_events p2
                   then p2\<lparr>kv_event_queue := kv_event_queue p2 @ [All_Blocks_Cleared]\<rparr> else p2))"

definition get_usage :: "block_pool \<Rightarrow> real" where
  "get_usage p =
     (let total = num_gpu_blocks p - 1
      in if total = 0 then 0 else 1 - real_of_int (get_num_free_blocks p) / real_of_int total)"

definition take_events :: "block_pool \<Rightarrow> kv_event list \<times> block_pool" where
  "take_events p =
     (if \<not> enable_kv_cache_events p then ([], p) else (kv_event_queue p, p\<lparr>kv_event_queue := []\<rparr>))"

end
