(* ===== verification/Hash_Index.thy ===== *)
theory Hash_Index
  imports Block_Pool
begin

text \<open>
  The index of cached blocks (\<^verbatim>\<open>BlockHashToBlockMap\<close>) as a relation between keys and blocks:
  what insertion, removal and lookup do to \<open>has_entry\<close>, and the interface \<open>hash_index\<close> through which
  the pool uses it.
\<close>

section \<open>The hash index\<close>

fun entry_blocks :: "cached_blocks \<Rightarrow> bref list" where
  "entry_blocks (Single b) = [b]"
| "entry_blocks (Multi d) = map snd d"

fun entry_wf :: "heap \<Rightarrow> cached_blocks \<Rightarrow> bool" where
  "entry_wf h (Single b) \<longleftrightarrow> True"
| "entry_wf h (Multi d) \<longleftrightarrow>
     d \<noteq> [] \<and> distinct (map fst d) \<and> (\<forall>(i, b) \<in> set d. block_id (h b) = i)"

definition map_wf :: "heap \<Rightarrow> block_map \<Rightarrow> bool" where
  "map_wf h m \<longleftrightarrow> distinct (map fst m) \<and> (\<forall>k c. map_of m k = Some c \<longrightarrow> entry_wf h c)"

definition has_entry :: "block_map \<Rightarrow> bytes \<Rightarrow> bref \<Rightarrow> bool" where
  "has_entry m k b \<longleftrightarrow> (\<exists>c. map_of m k = Some c \<and> b \<in> set (entry_blocks c))"

lemma map_wf_cong:
  assumes "\<And>b. block_id (h' b) = block_id (h b)"
  shows "map_wf h' m = map_wf h m"
proof -
  have "entry_wf h' c = entry_wf h c" for c using assms by (cases c) auto
  thus ?thesis by (simp add: map_wf_def)
qed

lemma map_wf_Nil [simp]: "map_wf h []"
  by (simp add: map_wf_def)

lemma has_entry_Nil [simp]: "\<not> has_entry [] k b"
  by (simp add: has_entry_def)

lemma map_wf_update:
  "map_wf h m \<Longrightarrow> entry_wf h c \<Longrightarrow> map_wf h (AList.update k c m)"
  by (auto simp: map_wf_def update_conv' distinct_update split: if_splits)

lemma has_entry_update:
  "has_entry (AList.update k c m) k' b \<longleftrightarrow> (if k' = k then b \<in> set (entry_blocks c) else has_entry m k' b)"
  by (auto simp: has_entry_def update_conv')

lemma map_wf_delete: "map_wf h m \<Longrightarrow> map_wf h (AList.delete k m)"
  by (auto simp: map_wf_def delete_conv' distinct_delete split: if_splits)

lemma has_entry_delete: "has_entry (AList.delete k m) k' b \<longleftrightarrow> k' \<noteq> k \<and> has_entry m k' b"
  by (auto simp: has_entry_def delete_conv')

lemma multi_update_wf:
  assumes "entry_wf h (Multi d)"
  shows "entry_wf h (Multi (AList.update (block_id (h b)) b d))"
proof -
  let ?d = "AList.update (block_id (h b)) b d"
  have dist: "distinct (map fst ?d)" using assms by (simp add: distinct_update)
  have "block_id (h c) = i" if "(i, c) \<in> set ?d" for i c
  proof -
    have "map_of ?d i = Some c" using that dist by simp
    thus ?thesis using assms by (auto simp: update_conv' split: if_splits dest: map_of_SomeD)
  qed
  moreover have "?d \<noteq> []" by (cases d) auto
  ultimately show ?thesis using dist by auto
qed

lemma multi_update_blocks:
  assumes "entry_wf h (Multi d)" "\<And>c. c \<in> set (map snd d) \<Longrightarrow> block_id (h c) = block_id (h b) \<Longrightarrow> c = b"
  shows "set (map snd (AList.update (block_id (h b)) b d)) = insert b (set (map snd d))"
proof -
  let ?k = "block_id (h b)" and ?d = "AList.update (block_id (h b)) b d"
  have dist: "distinct (map fst ?d)" "distinct (map fst d)" using assms(1) by (auto simp: distinct_update)
  have "set (map snd ?d) = ran (map_of ?d)" using dist(1) by (simp add: ran_distinct)
  also have "\<dots> = ran ((map_of d)(?k \<mapsto> b))" by (simp add: update_conv')
  also have "\<dots> = insert b (ran (map_of d))"
  proof (cases "map_of d ?k")
    case (Some c)
    hence "(?k, c) \<in> set d" by (rule map_of_SomeD)
    hence "block_id (h c) = ?k" "c \<in> set (map snd d)" using assms(1) by (auto intro: rev_image_eqI)
    hence "c = b" using assms(2) by blast
    hence "(map_of d)(?k \<mapsto> b) = map_of d" "b \<in> ran (map_of d)" using Some by (auto intro: ranI)
    thus ?thesis by (simp add: insert_absorb)
  qed simp
  also have "\<dots> = insert b (set (map snd d))" using dist(2) by (simp add: ran_distinct)
  finally show ?thesis .
qed

lemma map_insert_law:
  assumes "map_wf h m"
    and "\<And>c. has_entry m k c \<Longrightarrow> block_id (h c) = block_id (h b) \<Longrightarrow> c = b"
  shows "map_wf h (map_insert h k b m)"
    and "has_entry (map_insert h k b m) k' c \<longleftrightarrow> has_entry m k' c \<or> (k' = k \<and> c = b)"
proof -
  have "map_wf h (map_insert h k b m) \<and>
    (\<forall>k' c. has_entry (map_insert h k b m) k' c \<longleftrightarrow> has_entry m k' c \<or> (k' = k \<and> c = b))"
  proof (cases "map_of m k")
    case None
    thus ?thesis using assms(1)
      by (auto simp: map_insert_def map_wf_update has_entry_update) (simp add: has_entry_def)
  next
    case (Some e)
    have wf: "entry_wf h e" using assms(1) Some by (simp add: map_wf_def)
    have inj: "\<And>c. c \<in> set (entry_blocks e) \<Longrightarrow> block_id (h c) = block_id (h b) \<Longrightarrow> c = b"
      using assms(2) Some by (auto simp: has_entry_def)
    obtain d where d: "map_insert h k b m = AList.update k (Multi (AList.update (block_id (h b)) b d)) m"
      "entry_wf h (Multi d)" "set (map snd d) = set (entry_blocks e)"
    proof (cases e)
      case (Single c)
      thus ?thesis using Some by (intro that [of "[(block_id (h c), c)]"]) (simp_all add: map_insert_def)
    next
      case (Multi d)
      thus ?thesis using Some wf by (intro that [of d]) (simp_all add: map_insert_def)
    qed
    have "set (map snd (AList.update (block_id (h b)) b d)) = insert b (set (entry_blocks e))"
      using multi_update_blocks [OF d(2)] inj d(3) by auto
    thus ?thesis using assms(1) d(1) multi_update_wf [OF d(2)] Some
      by (auto simp: map_wf_update has_entry_update) (auto simp: has_entry_def)
  qed
  thus "map_wf h (map_insert h k b m)"
    and "has_entry (map_insert h k b m) k' c \<longleftrightarrow> has_entry m k' c \<or> (k' = k \<and> c = b)" by blast+
qed

lemma map_pop_law:
  assumes "map_wf h m" "has_entry m k b"
    and "\<And>c. has_entry m k c \<Longrightarrow> block_id (h c) = block_id (h b) \<Longrightarrow> c = b"
  shows "\<exists>m'. map_pop h k (block_id (h b)) m = (Some b, m') \<and> map_wf h m' \<and>
           (\<forall>k' c. has_entry m' k' c \<longleftrightarrow> has_entry m k' c \<and> \<not> (k' = k \<and> c = b))"
proof -
  obtain e where e: "map_of m k = Some e" "b \<in> set (entry_blocks e)"
    using assms(2) by (auto simp: has_entry_def)
  show ?thesis
  proof (cases e)
    case (Single c)
    thus ?thesis using e assms(1)
      by (auto simp: map_pop_def map_wf_delete has_entry_delete) (auto simp: has_entry_def)
  next
    case (Multi d)
    let ?i = "block_id (h b)"
    have wf: "entry_wf h (Multi d)" using assms(1) e(1) Multi unfolding map_wf_def by blast
    have dist: "distinct (map fst d)" using wf by simp
    have b: "map_of d ?i = Some b"
      using e(2) Multi wf dist by (auto intro!: map_of_is_SomeI)
    have set_del: "set (AList.delete ?i d) = {x \<in> set d. fst x \<noteq> ?i}" by (auto simp: AList.delete_eq)
    have "entry_wf h (Multi (AList.delete ?i d))" if "AList.delete ?i d \<noteq> []"
      using wf that distinct_delete [OF dist, of ?i] by (auto simp: set_del)
    moreover have blocks: "set (map snd (AList.delete ?i d)) = set (map snd d) - {b}"
    proof -
      have "fst x = ?i \<longleftrightarrow> snd x = b" if x: "x \<in> set d" for x
      proof
        assume "fst x = ?i"
        hence "(?i, snd x) \<in> set d" using x by (cases x) simp
        hence "map_of d ?i = Some (snd x)" by (rule map_of_is_SomeI [OF dist])
        thus "snd x = b" using b by simp
      next
        assume "snd x = b"
        thus "fst x = ?i" using x wf by (cases x) auto
      qed
      thus ?thesis by (auto simp: set_del image_iff)
    qed
    ultimately show ?thesis using e Multi b assms(1) blocks
      by (auto simp: map_pop_def Let_def map_wf_update map_wf_delete has_entry_update has_entry_delete)
         (auto simp: has_entry_def intro: rev_image_eqI)
  qed
qed

lemma get_one_block_law:
  assumes "map_wf h m"
  shows "\<exists>ob. get_one_block m k = Inr ob \<and>
           (case ob of None \<Rightarrow> \<forall>b. \<not> has_entry m k b | Some b \<Rightarrow> has_entry m k b)"
proof (cases "map_of m k")
  case None
  thus ?thesis by (simp add: get_one_block_def has_entry_def)
next
  case (Some e)
  hence "entry_wf h e" using assms by (simp add: map_wf_def)
  with Some show ?thesis
    by (cases e) (auto simp: get_one_block_def has_entry_def split: list.splits)
qed

section \<open>The interface of the hash index\<close>

text \<open>What the pool relies on: a well-formed index is a relation between keys and blocks.\<close>

locale hash_index =
  fixes wf :: "heap \<Rightarrow> 'm \<Rightarrow> bool"
    and has :: "'m \<Rightarrow> bytes \<Rightarrow> bref \<Rightarrow> bool"
    and get :: "'m \<Rightarrow> bytes \<Rightarrow> bref option res"
    and ins :: "heap \<Rightarrow> bytes \<Rightarrow> bref \<Rightarrow> 'm \<Rightarrow> 'm"
    and del :: "heap \<Rightarrow> bytes \<Rightarrow> int \<Rightarrow> 'm \<Rightarrow> bref option \<times> 'm"
  assumes get_law: "wf h m \<Longrightarrow>
      \<exists>ob. get m k = Inr ob \<and> (case ob of None \<Rightarrow> \<forall>b. \<not> has m k b | Some b \<Rightarrow> has m k b)"
    and ins_wf: "wf h m \<Longrightarrow>
      (\<And>c. has m k c \<Longrightarrow> block_id (h c) = block_id (h b) \<Longrightarrow> c = b) \<Longrightarrow> wf h (ins h k b m)"
    and ins_has: "wf h m \<Longrightarrow>
      (\<And>c. has m k c \<Longrightarrow> block_id (h c) = block_id (h b) \<Longrightarrow> c = b) \<Longrightarrow>
      has (ins h k b m) k' c \<longleftrightarrow> has m k' c \<or> (k' = k \<and> c = b)"
    and del_law: "wf h m \<Longrightarrow> has m k b \<Longrightarrow>
      (\<And>c. has m k c \<Longrightarrow> block_id (h c) = block_id (h b) \<Longrightarrow> c = b) \<Longrightarrow>
      \<exists>m'. del h k (block_id (h b)) m = (Some b, m') \<and> wf h m' \<and>
           (\<forall>k' c. has m' k' c \<longleftrightarrow> has m k' c \<and> \<not> (k' = k \<and> c = b))"
begin

lemma lookup_after_insert:
  assumes "wf h m" "\<And>c. has m k c \<Longrightarrow> block_id (h c) = block_id (h b) \<Longrightarrow> c = b"
  shows "\<exists>c. get (ins h k b m) k = Inr (Some c) \<and> (c = b \<or> has m k c)"
proof -
  obtain ob where "get (ins h k b m) k = Inr ob"
    "case ob of None \<Rightarrow> \<forall>c. \<not> has (ins h k b m) k c | Some c \<Rightarrow> has (ins h k b m) k c"
    using get_law [OF ins_wf [OF assms]] by blast
  thus ?thesis using ins_has [OF assms] by (auto split: option.splits)
qed

lemma delete_after_insert:
  assumes "wf h m" "\<And>c. \<not> has m k c"
  shows "\<exists>m'. del h k (block_id (h b)) (ins h k b m) = (Some b, m') \<and> wf h m' \<and> has m' = has m"
proof -
  have wf': "wf h (ins h k b m)" using assms by (intro ins_wf) auto
  have has': "has (ins h k b m) k' c \<longleftrightarrow> has m k' c \<or> (k' = k \<and> c = b)" for k' c
    using assms by (intro ins_has) auto
  have "\<exists>m'. del h k (block_id (h b)) (ins h k b m) = (Some b, m') \<and> wf h m' \<and>
      (\<forall>k' c. has m' k' c \<longleftrightarrow> has (ins h k b m) k' c \<and> \<not> (k' = k \<and> c = b))"
    using has' assms(2) by (intro del_law [OF wf']) auto
  thus ?thesis using has' assms(2) by (auto simp: fun_eq_iff)
qed

end

interpretation hidx: hash_index map_wf has_entry get_one_block map_insert map_pop
  using get_one_block_law map_insert_law map_pop_law by unfold_locales blast+

end
