(* ===== verification/Pool_Invariant.thy ===== *)
theory Pool_Invariant
  imports Hash_Index
begin

text \<open>
  The invariant of the block pool and its preservation by every operation of
  \<^verbatim>\<open>BlockPool\<close>. Four parts: the linked free list is well formed; the block objects are numbered
  and block 0 is the only null block; a usable block is in the free list exactly when its reference
  count is zero; the hash index holds a block under a key exactly when that is the block's own hash.
\<close>

section \<open>The invariant\<close>

definition usable :: "block_pool \<Rightarrow> bref set" where
  "usable p = Blk ` {1..<nat (num_gpu_blocks p)}"

abbreviation refc :: "block_pool \<Rightarrow> bref \<Rightarrow> int" where
  "refc p b \<equiv> ref_cnt (pheap p b)"

abbreviation bhash :: "block_pool \<Rightarrow> bref \<Rightarrow> bytes option" where
  "bhash p b \<equiv> block_hash (pheap p b)"

definition shape_ok :: "block_pool \<Rightarrow> bool" where
  "shape_ok p \<longleftrightarrow>
     0 < num_gpu_blocks p \<and> pool_blocks p = map Blk [0..<nat (num_gpu_blocks p)] \<and>
     null_block p = Blk 0 \<and>
     (\<forall>i < nat (num_gpu_blocks p).
        block_id (pheap p (Blk i)) = int i \<and> (is_null (pheap p (Blk i)) \<longleftrightarrow> i = 0))"

definition counts_ok :: "block_pool \<Rightarrow> bref list \<Rightarrow> bool" where
  "counts_ok p fl \<longleftrightarrow>
     set fl \<subseteq> usable p \<and> (\<forall>b \<in> usable p. 0 \<le> refc p b \<and> (b \<in> set fl \<longleftrightarrow> refc p b = 0))"

definition index_ok :: "block_pool \<Rightarrow> bool" where
  "index_ok p \<longleftrightarrow>
     map_wf (pheap p) (cached_block_hash_to_block p) \<and>
     (\<forall>k b. has_entry (cached_block_hash_to_block p) k b \<longleftrightarrow> b \<in> usable p \<and> bhash p b = Some k) \<and>
     bhash p (Blk 0) = None"

definition pool_inv :: "block_pool \<Rightarrow> bref list \<Rightarrow> bool" where
  "pool_inv p fl \<longleftrightarrow>
     queue_rep (free_block_queue p) fl \<and> shape_ok p \<and> counts_ok p fl \<and> index_ok p"

text \<open>The configuration of a pool, which no operation changes.\<close>

definition same_config :: "block_pool \<Rightarrow> block_pool \<Rightarrow> bool" where
  "same_config p p' \<longleftrightarrow>
     num_gpu_blocks p' = num_gpu_blocks p \<and> enable_caching p' = enable_caching p \<and>
     hash_block_size p' = hash_block_size p \<and> pool_blocks p' = pool_blocks p \<and>
     null_block p' = null_block p \<and> enable_kv_cache_events p' = enable_kv_cache_events p \<and>
     use_int_hashes p' = use_int_hashes p \<and>
     (\<forall>b. block_id (pheap p' b) = block_id (pheap p b) \<and> is_null (pheap p' b) = is_null (pheap p b))"

lemma same_config_refl [simp]: "same_config p p"
  by (simp add: same_config_def)

lemma same_config_trans [trans]: "same_config p q \<Longrightarrow> same_config q r \<Longrightarrow> same_config p r"
  by (auto simp: same_config_def)

lemma same_config_usable: "same_config p p' \<Longrightarrow> usable p' = usable p"
  by (simp add: same_config_def usable_def)

lemma same_config_shape: "same_config p p' \<Longrightarrow> shape_ok p' = shape_ok p"
  by (simp add: same_config_def shape_ok_def)

lemma usable_null: "shape_ok p \<Longrightarrow> b \<in> usable p \<Longrightarrow> \<not> is_null (pheap p b)"
  by (auto simp: shape_ok_def usable_def)

lemma usable_Blk: "usable p \<subseteq> range Blk"
  by (auto simp: usable_def)

lemma usable_neq_0 [simp]: "Blk 0 \<notin> usable p"
  by (auto simp: usable_def)

lemma null_is_null: "shape_ok p \<Longrightarrow> is_null (pheap p (null_block p))"
  by (auto simp: shape_ok_def)

lemma usable_id_inj:
  "shape_ok p \<Longrightarrow> b \<in> usable p \<Longrightarrow> c \<in> usable p \<Longrightarrow> block_id (pheap p c) = block_id (pheap p b) \<Longrightarrow> c = b"
  by (auto simp: shape_ok_def usable_def)

section \<open>Updates of block fields\<close>

lemma pheap_upd_block: "pheap (upd_block b f p) c = (if c = b then f (pheap p b) else pheap p c)"
  by (simp add: pheap_def upd_block_def)

lemma upd_block_fields [simp]:
  "num_gpu_blocks (upd_block b f p) = num_gpu_blocks p"
  "enable_caching (upd_block b f p) = enable_caching p"
  "hash_block_size (upd_block b f p) = hash_block_size p"
  "pool_blocks (upd_block b f p) = pool_blocks p"
  "cached_block_hash_to_block (upd_block b f p) = cached_block_hash_to_block p"
  "null_block (upd_block b f p) = null_block p"
  "enable_kv_cache_events (upd_block b f p) = enable_kv_cache_events p"
  "use_int_hashes (upd_block b f p) = use_int_hashes p"
  "kv_event_queue (upd_block b f p) = kv_event_queue p"
  "metrics_collector (upd_block b f p) = metrics_collector p"
  by (simp_all add: upd_block_def)

lemma metrics_log_fields [simp]:
  "num_gpu_blocks (metrics_log c p) = num_gpu_blocks p"
  "enable_caching (metrics_log c p) = enable_caching p"
  "hash_block_size (metrics_log c p) = hash_block_size p"
  "pool_blocks (metrics_log c p) = pool_blocks p"
  "free_block_queue (metrics_log c p) = free_block_queue p"
  "cached_block_hash_to_block (metrics_log c p) = cached_block_hash_to_block p"
  "null_block (metrics_log c p) = null_block p"
  "enable_kv_cache_events (metrics_log c p) = enable_kv_cache_events p"
  "use_int_hashes (metrics_log c p) = use_int_hashes p"
  "kv_event_queue (metrics_log c p) = kv_event_queue p"
  by (simp_all add: metrics_log_def)

lemma pheap_metrics_log [simp]: "pheap (metrics_log c p) = pheap p"
  by (simp add: pheap_def)

lemma pheap_other [simp]:
  "pheap (p\<lparr>cached_block_hash_to_block := m\<rparr>) = pheap p"
  "pheap (p\<lparr>kv_event_queue := es\<rparr>) = pheap p"
  "pheap (p\<lparr>free_block_queue := q\<rparr>) = store q"
  by (simp_all add: pheap_def)

text \<open>An update that leaves the two links alone does not disturb the free list.\<close>

definition keeps_links :: "(kv_block \<Rightarrow> kv_block) \<Rightarrow> bool" where
  "keeps_links f \<longleftrightarrow>
     (\<forall>x. prev_free_block (f x) = prev_free_block x \<and> next_free_block (f x) = next_free_block x)"

lemma keeps_links_simps [simp]:
  "keeps_links (add_ref d)" "keeps_links reset_hash" "keeps_links (\<lambda>b. b\<lparr>is_null := n\<rparr>)"
  by (simp_all add: keeps_links_def add_ref_def reset_hash_def)

lemma queue_rep_store_cong:
  assumes "\<And>r. prev_free_block (h r) = prev_free_block (store q r) \<and>
                next_free_block (h r) = next_free_block (store q r)"
  shows "queue_rep (q\<lparr>store := h\<rparr>) xs = queue_rep q xs"
proof -
  have "dseg h Fake_Head xs Fake_Tail = dseg (store q) Fake_Head xs Fake_Tail"
    using assms by (intro dseg_cong) auto
  thus ?thesis using assms by (simp add: queue_rep_def)
qed

lemma queue_rep_upd_block:
  assumes "prev_free_block (f (pheap p b)) = prev_free_block (pheap p b)"
    and "next_free_block (f (pheap p b)) = next_free_block (pheap p b)"
  shows "queue_rep (free_block_queue (upd_block b f p)) xs = queue_rep (free_block_queue p) xs"
  unfolding upd_block_def using assms by (simp add: queue_rep_store_cong pheap_def)

lemma qmeta_fields:
  assumes "qmeta q' = qmeta q"
  shows "ref_cnt (store q' b) = ref_cnt (store q b)" "block_hash (store q' b) = block_hash (store q b)"
    "block_id (store q' b) = block_id (store q b)" "is_null (store q' b) = is_null (store q b)"
proof -
  have "block_meta (store q' b) = block_meta (store q b)" using assms by (metis qmeta_def)
  thus "ref_cnt (store q' b) = ref_cnt (store q b)" "block_hash (store q' b) = block_hash (store q b)"
    "block_id (store q' b) = block_id (store q b)" "is_null (store q' b) = is_null (store q b)"
    unfolding block_meta_def by (metis kv_block.select_convs kv_block.surjective kv_block.update_convs(4,5))+
qed

text \<open>The index part depends only on hashes, ids and the index itself.\<close>

lemma index_ok_cong:
  assumes "same_config p p'" "\<And>b. b \<in> insert (Blk 0) (usable p) \<Longrightarrow> bhash p' b = bhash p b"
    and "cached_block_hash_to_block p' = cached_block_hash_to_block p"
  shows "index_ok p' = index_ok p"
proof -
  have "map_wf (pheap p') m = map_wf (pheap p) m" for m
    using assms(1) by (intro map_wf_cong) (simp add: same_config_def)
  thus ?thesis using assms same_config_usable [OF assms(1)] by (auto simp: index_ok_def)
qed

section \<open>Allocation\<close>

text \<open>Steps that change neither the configuration nor the order of the free list.\<close>

definition quiet :: "block_pool \<Rightarrow> block_pool \<Rightarrow> bool" where
  "quiet p p' \<longleftrightarrow> same_config p p' \<and>
     (\<forall>xs. queue_rep (free_block_queue p') xs = queue_rep (free_block_queue p) xs)"

lemma quiet_refl [simp]: "quiet p p"
  by (simp add: quiet_def)

lemma quiet_trans: "quiet p q \<Longrightarrow> quiet q r \<Longrightarrow> quiet p r"
  by (auto simp: quiet_def intro: same_config_trans)

lemma quiet_same_config: "quiet p p' \<Longrightarrow> same_config p p'"
  by (simp add: quiet_def)

lemma quiet_add_ref [simp]: "quiet p (upd_block b (add_ref d) p)"
  unfolding quiet_def same_config_def
  by (simp add: queue_rep_upd_block pheap_upd_block add_ref_def)

lemma quiet_metrics_log [simp]: "quiet p (metrics_log c p)"
  by (simp add: quiet_def same_config_def)

lemma refc_add_ref [simp]: "refc (upd_block b (add_ref d) p) c = refc p c + (if c = b then d else 0)"
  by (simp add: pheap_upd_block add_ref_def)

lemma bhash_add_ref [simp]: "bhash (upd_block b (add_ref d) p) c = bhash p c"
  by (simp add: pheap_upd_block add_ref_def)

lemma index_ok_add_ref [simp]: "index_ok (upd_block b (add_ref d) p) = index_ok p"
  using quiet_same_config [OF quiet_add_ref] by (intro index_ok_cong) auto

lemma index_ok_metrics_log [simp]: "index_ok (metrics_log c p) = index_ok p"
  using quiet_same_config [OF quiet_metrics_log] by (intro index_ok_cong) auto

lemma reset_hash_index:
  assumes "shape_ok p" "index_ok p" "b \<in> usable p" "bhash p b = Some k"
    and "\<And>k' c. has_entry m k' c \<longleftrightarrow>
           has_entry (cached_block_hash_to_block p) k' c \<and> \<not> (k' = k \<and> c = b)"
    and "map_wf (pheap p) m"
  defines "p' \<equiv> upd_block b reset_hash (p\<lparr>cached_block_hash_to_block := m\<rparr>)"
  shows "index_ok p'" "quiet p p'"
proof -
  have heap: "pheap p' c = (if c = b then reset_hash (pheap p b) else pheap p c)" for c
    by (simp add: p'_def pheap_upd_block)
  have "queue_rep (free_block_queue p') xs = queue_rep (free_block_queue p) xs" for xs
    unfolding p'_def by (subst queue_rep_upd_block) (simp_all add: reset_hash_def)
  moreover have cfg: "same_config p p'"
    unfolding same_config_def by (simp add: heap) (simp add: p'_def reset_hash_def)
  ultimately show "quiet p p'" by (simp add: quiet_def)
  have "map_wf (pheap p') m = map_wf (pheap p) m"
    using cfg by (intro map_wf_cong) (simp add: same_config_def)
  moreover have "usable p' = usable p" using cfg by (rule same_config_usable)
  moreover have "b \<noteq> Blk 0" using assms(3) by auto
  ultimately show "index_ok p'"
    using assms(2-6) by (auto simp: index_ok_def pheap_upd_block reset_hash_def p'_def split: if_splits)
qed

lemma evict_law:
  assumes "shape_ok p" "index_ok p" "b \<in> usable p"
  shows "\<exists>p'. maybe_evict_cached_block b p = (bhash p b \<noteq> None, p') \<and> quiet p p' \<and> index_ok p' \<and>
           (\<forall>c. refc p' c = refc p c) \<and> (\<forall>c. bhash p' c = (if c = b then None else bhash p c))"
proof (cases "bhash p b")
  case None
  thus ?thesis using assms(2)
    by (intro exI [of _ "metrics_log (On_Evicted b) p"]) (simp add: maybe_evict_cached_block_def)
next
  case (Some k)
  let ?p0 = "metrics_log (On_Evicted b) p" and ?m = "cached_block_hash_to_block p"
  have wf: "map_wf (pheap p) ?m" and has: "has_entry ?m k b"
    and inj: "\<And>c. has_entry ?m k c \<Longrightarrow> block_id (pheap p c) = block_id (pheap p b) \<Longrightarrow> c = b"
    using assms Some by (auto simp: index_ok_def dest: usable_id_inj)
  obtain m' where m': "map_pop (pheap p) k (block_id (pheap p b)) ?m = (Some b, m')" "map_wf (pheap p) m'"
    "\<And>k' c. has_entry m' k' c \<longleftrightarrow> has_entry ?m k' c \<and> \<not> (k' = k \<and> c = b)"
    using hidx.del_law [OF wf has inj] by blast
  let ?p1 = "upd_block b reset_hash (?p0\<lparr>cached_block_hash_to_block := m'\<rparr>)"
  have idx: "index_ok ?p1" "quiet ?p0 ?p1"
    using reset_hash_index [of ?p0 b k m'] assms Some m' by (auto simp: shape_ok_def usable_def)
  define p2 where "p2 = snd (maybe_evict_cached_block b p)"
  have p2: "maybe_evict_cached_block b p = (True, p2)" "p2 = (if enable_kv_cache_events p
      then ?p1\<lparr>kv_event_queue := kv_event_queue p @
             [Block_Removed [maybe_convert_block_hash (use_int_hashes p) (get_block_hash k)] (get_group_id k)]\<rparr>
      else ?p1)"
    using Some m'(1) by (simp_all add: maybe_evict_cached_block_def Let_def p2_def)
  have heap: "pheap p2 c = (if c = b then reset_hash (pheap p b) else pheap p c)" for c
    by (simp add: p2(2) pheap_upd_block)
  have "quiet ?p1 p2" by (simp add: p2(2) quiet_def same_config_def)
  hence "quiet p p2" using idx(2) quiet_trans quiet_metrics_log by blast
  moreover have "index_ok p2"
    using idx(1) by (subst index_ok_cong [of ?p1]) (simp_all add: p2(2) same_config_def)
  ultimately show ?thesis using p2(1) Some by (auto simp: heap reset_hash_def)
qed

lemma alloc_one_law:
  assumes "shape_ok p" "index_ok p" "b \<in> usable p" "refc p b = 0"
  shows "\<exists>p'. alloc_one b p = Inr p' \<and> quiet p p' \<and> index_ok p' \<and>
           (\<forall>c. refc p' c = (if c = b then 1 else refc p c)) \<and>
           (\<forall>c. bhash p' c = (if c = b \<and> enable_caching p then None else bhash p c))"
proof -
  define p1 where "p1 = (if enable_caching p then snd (maybe_evict_cached_block b p) else p)"
  have p1: "quiet p p1" "index_ok p1" "\<And>c. refc p1 c = refc p c"
    "\<And>c. bhash p1 c = (if c = b \<and> enable_caching p then None else bhash p c)"
    using evict_law [OF assms(1-3)] assms(2) by (auto simp: p1_def)
  let ?p2 = "metrics_log (On_Allocated b) (upd_block b (add_ref 1) p1)"
  have "alloc_one b p = Inr ?p2"
    using p1(3) assms(4) by (simp add: alloc_one_def Let_def flip: p1_def)
  moreover have "quiet p ?p2" using p1(1) quiet_add_ref quiet_metrics_log quiet_trans by metis
  ultimately show ?thesis using p1 assms(4) by (intro exI [of _ ?p2]) auto
qed

lemma alloc_all_law:
  assumes "shape_ok p" "index_ok p" "set bs \<subseteq> usable p" "distinct bs" "\<forall>b \<in> set bs. refc p b = 0"
  shows "\<exists>p'. foldE alloc_one bs p = Inr p' \<and> quiet p p' \<and> index_ok p' \<and>
           (\<forall>c. refc p' c = (if c \<in> set bs then 1 else refc p c)) \<and>
           (\<forall>c. bhash p' c = (if c \<in> set bs \<and> enable_caching p then None else bhash p c))"
  using assms
proof (induction bs arbitrary: p)
  case (Cons b bs)
  obtain p1 where p1: "alloc_one b p = Inr p1" "quiet p p1" "index_ok p1"
    "\<forall>c. refc p1 c = (if c = b then 1 else refc p c)"
    "\<forall>c. bhash p1 c = (if c = b \<and> enable_caching p then None else bhash p c)"
    using alloc_one_law [of p b] Cons.prems by auto
  have cfg: "same_config p p1" using p1(2) by (rule quiet_same_config)
  have "\<exists>p2. foldE alloc_one bs p1 = Inr p2 \<and> quiet p1 p2 \<and> index_ok p2 \<and>
           (\<forall>c. refc p2 c = (if c \<in> set bs then 1 else refc p1 c)) \<and>
           (\<forall>c. bhash p2 c = (if c \<in> set bs \<and> enable_caching p1 then None else bhash p1 c))"
    using Cons.prems p1 same_config_shape [OF cfg] same_config_usable [OF cfg] by (intro Cons.IH) auto
  then obtain p2 where p2: "foldE alloc_one bs p1 = Inr p2" "quiet p1 p2" "index_ok p2"
    "\<forall>c. refc p2 c = (if c \<in> set bs then 1 else refc p1 c)"
    "\<forall>c. bhash p2 c = (if c \<in> set bs \<and> enable_caching p1 then None else bhash p1 c)" by blast
  have "enable_caching p1 = enable_caching p" using cfg by (simp add: same_config_def)
  thus ?case using p1 p2 quiet_trans [OF p1(2) p2(2)] by (intro exI [of _ p2]) auto
qed simp

lemma get_new_blocks_law:
  assumes "pool_inv p fl" "0 \<le> n" "n \<le> int (length fl)"
  shows "\<exists>p'. get_new_blocks n p = Inr (take (nat n) fl, p') \<and> pool_inv p' (drop (nat n) fl) \<and>
           same_config p p' \<and>
           (\<forall>c. refc p' c = (if c \<in> set (take (nat n) fl) then 1 else refc p c)) \<and>
           (\<forall>c. bhash p' c = (if c \<in> set (take (nat n) fl) \<and> enable_caching p then None else bhash p c))"
proof -
  let ?q = "free_block_queue p" and ?bs = "take (nat n) fl"
  have inv: "queue_rep ?q fl" "shape_ok p" "counts_ok p fl" "index_ok p"
    using assms(1) by (simp_all add: pool_inv_def)
  have len: "num_free_blocks ?q = int (length fl)" using inv(1) by (rule queue_rep_length)
  obtain q where q: "popleft_n n ?q = Inr (?bs, q)" "queue_rep q (drop (nat n) fl)" "qmeta q = qmeta ?q"
    using fq.pop_take [OF inv(1) assms(2)] assms(3) len by auto
  let ?p1 = "p\<lparr>free_block_queue := q\<rparr>"
  have fields: "refc ?p1 c = refc p c" "bhash ?p1 c = bhash p c" for c
    using qmeta_fields [OF q(3)] by (simp_all add: pheap_def)
  have cfg: "same_config p ?p1"
    using qmeta_fields [OF q(3)] by (simp add: same_config_def) (simp add: pheap_def)
  have dist: "distinct fl" using inv(1) by (simp add: queue_rep_def)
  have bs: "set ?bs \<subseteq> usable p" "\<forall>b \<in> set ?bs. refc p b = 0"
    using inv(3) by (auto simp: counts_ok_def dest!: in_set_takeD)
  have "index_ok ?p1" using inv(4) index_ok_cong [OF cfg] fields by simp
  then obtain p2 where p2: "foldE alloc_one ?bs ?p1 = Inr p2" "quiet ?p1 p2" "index_ok p2"
    "\<forall>c. refc p2 c = (if c \<in> set ?bs then 1 else refc ?p1 c)"
    "\<forall>c. bhash p2 c = (if c \<in> set ?bs \<and> enable_caching ?p1 then None else bhash ?p1 c)"
    using alloc_all_law [of ?p1 ?bs] inv(2) bs dist fields same_config_shape [OF cfg]
      same_config_usable [OF cfg] by (auto simp del: pheap_other)
  have cfg2: "same_config p p2" using cfg quiet_same_config [OF p2(2)] by (rule same_config_trans)
  have "queue_rep (free_block_queue p2) (drop (nat n) fl)" using p2(2) q(2) by (simp add: quiet_def)
  moreover have "counts_ok p2 (drop (nat n) fl)"
  proof -
    have split: "set fl = set ?bs \<union> set (drop (nat n) fl)" "set ?bs \<inter> set (drop (nat n) fl) = {}"
      using dist by (metis append_take_drop_id set_append) (simp add: set_take_disj_set_drop_if_distinct dist)
    show ?thesis unfolding counts_ok_def same_config_usable [OF cfg2]
      using inv(3) p2(4) fields split by (auto simp: counts_ok_def)
  qed
  ultimately have "pool_inv p2 (drop (nat n) fl)"
    using p2(3) same_config_shape [OF cfg2] inv(2) by (simp add: pool_inv_def)
  moreover have "get_new_blocks n p = Inr (?bs, p2)"
    using q(1) p2(1) assms(3) len by (simp add: get_new_blocks_def get_num_free_blocks_def)
  ultimately show ?thesis using cfg2 p2(4,5) fields by auto
qed

lemma get_new_blocks_short:
  assumes "pool_inv p fl" "int (length fl) < n"
  shows "get_new_blocks n p = Inl ValueError"
  using assms by (auto simp: get_new_blocks_def get_num_free_blocks_def pool_inv_def dest: queue_rep_length)

section \<open>Reference counts\<close>

lemma touch_one_law:
  assumes "pool_inv p fl" "b \<in> usable p \<or> is_null (pheap p b)" "b \<in> range Blk"
  shows "\<exists>p'. touch_one b p = Inr p' \<and> pool_inv p' (removeAll b fl) \<and> same_config p p' \<and>
           (\<forall>c. refc p' c = refc p c + (if c = b then 1 else 0)) \<and> (\<forall>c. bhash p' c = bhash p c)"
proof -
  have inv: "queue_rep (free_block_queue p) fl" "shape_ok p" "counts_ok p fl" "index_ok p"
    using assms(1) by (simp_all add: pool_inv_def)
  have dist: "distinct fl" using inv(1) by (simp add: queue_rep_def)
  have queued: "refc p b = 0 \<and> \<not> is_null (pheap p b) \<longleftrightarrow> b \<in> set fl"
    using assms(2) inv(2,3) usable_null by (auto simp: counts_ok_def)
  obtain p1 where p1: "(if refc p b = 0 \<and> \<not> is_null (pheap p b)
      then bindE (remove_block b (free_block_queue p)) (\<lambda>q. Inr (p\<lparr>free_block_queue := q\<rparr>))
      else Inr p) = Inr p1" "queue_rep (free_block_queue p1) (removeAll b fl)" "same_config p p1"
    "\<forall>c. refc p1 c = refc p c" "\<forall>c. bhash p1 c = bhash p c"
    "cached_block_hash_to_block p1 = cached_block_hash_to_block p"
  proof (cases "b \<in> set fl")
    case True
    obtain q where q: "remove_block b (free_block_queue p) = Inr q" "queue_rep q (remove1 b fl)"
      "qmeta q = qmeta (free_block_queue p)"
      using fq.remove_member [OF inv(1) True] by blast
    let ?p1 = "p\<lparr>free_block_queue := q\<rparr>"
    show ?thesis
    proof (rule that [of ?p1])
      show "queue_rep (free_block_queue ?p1) (removeAll b fl)"
        using q(2) dist by (simp add: distinct_remove1_removeAll)
      show "same_config p ?p1"
        using qmeta_fields [OF q(3)] by (simp add: same_config_def) (simp add: pheap_def)
    qed (use True queued q(1) qmeta_fields [OF q(3)] in \<open>simp_all add: pheap_def\<close>)
  next
    case False
    show ?thesis by (rule that [of p]) (use False queued inv(1) in \<open>auto simp: removeAll_id\<close>)
  qed
  let ?p2 = "metrics_log (On_Accessed b) (upd_block b (add_ref 1) p1)"
  have "quiet p1 ?p2" using quiet_add_ref quiet_metrics_log quiet_trans by metis
  hence cfg: "same_config p ?p2" and rep: "queue_rep (free_block_queue ?p2) (removeAll b fl)"
    using p1(2,3) same_config_trans by (auto simp: quiet_def)
  have "index_ok ?p2" using inv(4) p1 index_ok_cong [of p p1] by simp
  moreover have "counts_ok ?p2 (removeAll b fl)"
    unfolding counts_ok_def same_config_usable [OF cfg] using inv(3) p1(4) by (auto simp: counts_ok_def)
  ultimately have "pool_inv ?p2 (removeAll b fl)"
    using rep inv(2) same_config_shape [OF cfg] by (simp add: pool_inv_def)
  moreover have "touch_one b p = Inr ?p2" using p1(1) by (simp add: touch_one_def)
  ultimately show ?thesis using cfg p1(4,5) by auto
qed

text \<open>The blocks a request may hold: usable ones and the null block.\<close>

definition valid_block :: "block_pool \<Rightarrow> bref \<Rightarrow> bool" where
  "valid_block p b \<longleftrightarrow> b \<in> usable p \<or> b = Blk 0"

lemma valid_block_cases:
  assumes "shape_ok p" "valid_block p b"
  shows "is_null (pheap p b) \<longleftrightarrow> b = Blk 0" "b \<in> usable p \<longleftrightarrow> b \<noteq> Blk 0" "b \<in> range Blk"
proof -
  have "is_null (pheap p (Blk 0))" using assms(1) by (simp add: shape_ok_def)
  thus "is_null (pheap p b) \<longleftrightarrow> b = Blk 0"
    using assms usable_null [OF assms(1)] unfolding valid_block_def by (cases "b = Blk 0") simp_all
  show "b \<in> usable p \<longleftrightarrow> b \<noteq> Blk 0" using assms(2) unfolding valid_block_def by (cases "b = Blk 0") simp_all
  show "b \<in> range Blk" using assms(2) usable_Blk unfolding valid_block_def by blast
qed

lemma valid_block_config: "same_config p p' \<Longrightarrow> valid_block p' = valid_block p"
  by (auto simp: valid_block_def same_config_usable)

lemma touch_law:
  assumes "pool_inv p fl" "\<forall>b \<in> set bs. valid_block p b"
  shows "\<exists>p'. touch bs p = Inr p' \<and> pool_inv p' (filter (\<lambda>b. b \<notin> set bs) fl) \<and> same_config p p' \<and>
           (\<forall>c. refc p' c = refc p c + int (count_list bs c)) \<and> (\<forall>c. bhash p' c = bhash p c)"
  unfolding touch_def using assms
proof (induction bs arbitrary: p fl)
  case (Cons b bs)
  have shape: "shape_ok p" using Cons.prems(1) by (simp add: pool_inv_def)
  obtain p1 where p1: "touch_one b p = Inr p1" "pool_inv p1 (removeAll b fl)" "same_config p p1"
    "\<forall>c. refc p1 c = refc p c + (if c = b then 1 else 0)" "\<forall>c. bhash p1 c = bhash p c"
    using touch_one_law [OF Cons.prems(1), of b] valid_block_cases [OF shape, of b] Cons.prems(2) by auto
  obtain p2 where p2: "foldE touch_one bs p1 = Inr p2"
    "pool_inv p2 (filter (\<lambda>b. b \<notin> set bs) (removeAll b fl))" "same_config p1 p2"
    "\<forall>c. refc p2 c = refc p1 c + int (count_list bs c)" "\<forall>c. bhash p2 c = bhash p1 c"
    using Cons.IH [OF p1(2)] Cons.prems(2) valid_block_config [OF p1(3)] by auto
  have "filter (\<lambda>b. b \<notin> set bs) (removeAll b fl) = filter (\<lambda>c. c \<notin> set (b # bs)) fl"
    by (induction fl) auto
  thus ?case using p1 p2 same_config_trans [OF p1(3) p2(3)] by (intro exI [of _ p2]) auto
qed simp

lemma fold_add_ref:
  defines "g \<equiv> \<lambda>d bs p. fold (\<lambda>b. upd_block b (add_ref d)) bs p"
  shows "quiet p (g d bs p)" "refc (g d bs p) c = refc p c + d * int (count_list bs c)"
    "bhash (g d bs p) c = bhash p c" "index_ok (g d bs p) = index_ok p"
    "is_null (pheap (g d bs p) c) = is_null (pheap p c)"
    "cached_block_hash_to_block (g d bs p) = cached_block_hash_to_block p"
  unfolding g_def
proof -
  show "quiet p (fold (\<lambda>b. upd_block b (add_ref d)) bs p)"
    by (induction bs arbitrary: p) (auto intro: quiet_trans [OF quiet_add_ref])
  show "refc (fold (\<lambda>b. upd_block b (add_ref d)) bs p) c = refc p c + d * int (count_list bs c)"
    by (induction bs arbitrary: p) (auto simp: algebra_simps)
  show "bhash (fold (\<lambda>b. upd_block b (add_ref d)) bs p) c = bhash p c"
    by (induction bs arbitrary: p) auto
  show "index_ok (fold (\<lambda>b. upd_block b (add_ref d)) bs p) = index_ok p"
    by (induction bs arbitrary: p) auto
  show "cached_block_hash_to_block (fold (\<lambda>b. upd_block b (add_ref d)) bs p) = cached_block_hash_to_block p"
    by (induction bs arbitrary: p) auto
  show "is_null (pheap (fold (\<lambda>b. upd_block b (add_ref d)) bs p) c) = is_null (pheap p c)"
    by (induction bs arbitrary: p) (auto simp: pheap_upd_block add_ref_def)
qed

lemma distinct_count_list: "distinct (filter P xs) \<Longrightarrow> P c \<Longrightarrow> count_list xs c = of_bool (c \<in> set xs)"
  by (induction xs) (auto split: if_splits)

lemma free_blocks_law:
  assumes "pool_inv p fl" "\<forall>b \<in> set bs. valid_block p b"
    and "distinct (filter (\<lambda>b. b \<noteq> Blk 0) bs)" "\<forall>b \<in> set bs. b \<noteq> Blk 0 \<longrightarrow> 1 \<le> refc p b"
  defines "freed \<equiv> filter (\<lambda>b. b \<noteq> Blk 0 \<and> refc p b = 1) bs"
  shows "\<exists>p'. free_blocks bs prepend p = Inr p' \<and>
           pool_inv p' (if prepend then freed @ fl else fl @ freed) \<and> same_config p p' \<and>
           (\<forall>c. refc p' c = refc p c - int (count_list bs c)) \<and> (\<forall>c. bhash p' c = bhash p c)"
proof -
  define p1 where "p1 = fold (\<lambda>b. upd_block b (add_ref (-1))) bs p"
  note f = fold_add_ref [where p = p and d = "-1" and bs = bs, folded p1_def]
  have inv: "queue_rep (free_block_queue p) fl" "shape_ok p" "counts_ok p fl" "index_ok p"
    using assms(1) by (simp_all add: pool_inv_def)
  have ref1: "refc p1 c = refc p c - int (count_list bs c)" for c using f(2) by simp
  have cnt: "count_list bs c = of_bool (c \<in> set bs)" if "c \<noteq> Blk 0" for c
    using assms(3) that by (rule distinct_count_list)
  have freed: "filter (\<lambda>b. refc p1 b = 0 \<and> \<not> is_null (pheap p1 b)) bs = freed"
    unfolding freed_def
  proof (rule filter_cong [OF refl])
    fix b assume "b \<in> set bs"
    thus "(refc p1 b = 0 \<and> \<not> is_null (pheap p1 b)) = (b \<noteq> Blk 0 \<and> refc p b = 1)"
      using valid_block_cases(1) [OF inv(2)] assms(2) cnt [of b] by (auto simp: ref1 f(5))
  qed
  have sub: "set freed \<subseteq> usable p" "\<forall>b \<in> set freed. refc p b = 1"
    using assms(2) valid_block_cases(2) [OF inv(2)] by (auto simp: freed_def)
  have ok: "distinct freed" "set freed \<subseteq> range Blk" "set freed \<inter> set fl = {}"
  proof -
    have "freed = filter (\<lambda>b. refc p b = 1) (filter (\<lambda>b. b \<noteq> Blk 0) bs)"
      by (simp add: freed_def conj_commute)
    thus "distinct freed" using distinct_filter [OF assms(3)] by metis
    show "set freed \<subseteq> range Blk" using sub(1) usable_Blk by blast
    show "set freed \<inter> set fl = {}" using sub inv(3) by (auto simp: counts_ok_def)
  qed
  have rep1: "queue_rep (free_block_queue p1) fl" using f(1) inv(1) by (simp add: quiet_def)
  obtain q where q: "(if prepend then prepend_n freed (free_block_queue p1)
      else append_n freed (free_block_queue p1)) = Inr q"
    "queue_rep q (if prepend then freed @ fl else fl @ freed)" "qmeta q = qmeta (free_block_queue p1)"
    using fq.front_law [OF rep1 ok] fq.back_law [OF rep1 ok] by (cases prepend) auto
  let ?p2 = "p1\<lparr>free_block_queue := q\<rparr>" and ?fl = "if prepend then freed @ fl else fl @ freed"
  have fields: "refc ?p2 c = refc p1 c" "bhash ?p2 c = bhash p1 c" for c
    using qmeta_fields [OF q(3)] by (simp_all add: pheap_def)
  have cfg: "same_config p ?p2"
  proof (rule same_config_trans [OF quiet_same_config [OF f(1)]])
    show "same_config p1 ?p2" using qmeta_fields [OF q(3)] by (simp add: same_config_def) (simp add: pheap_def)
  qed
  have "index_ok ?p2"
    using inv(4) index_ok_cong [OF cfg] fields(2) f(3,6) by (simp del: pheap_other)
  moreover have "counts_ok ?p2 ?fl"
    unfolding counts_ok_def same_config_usable [OF cfg]
  proof (intro conjI ballI)
    show "set ?fl \<subseteq> usable p" using sub(1) inv(3) by (auto simp: counts_ok_def)
    fix b assume b: "b \<in> usable p"
    hence b0: "b \<noteq> Blk 0" by auto
    have eq: "refc ?p2 b = refc p b - of_bool (b \<in> set bs)" by (simp only: fields ref1 cnt [OF b0] of_nat_of_bool)
    show "0 \<le> refc ?p2 b"
      unfolding eq using b inv(3) assms(4) b0 by (cases "b \<in> set bs") (auto simp: counts_ok_def)
    show "(b \<in> set ?fl) = (refc ?p2 b = 0)"
      unfolding eq using b inv(3) assms(4) b0
      by (cases "b \<in> set bs") (auto simp: counts_ok_def freed_def)
  qed
  ultimately have "pool_inv ?p2 ?fl"
    using q(2) inv(2) same_config_shape [OF cfg] by (simp add: pool_inv_def)
  moreover have "free_blocks bs prepend p = Inr ?p2"
    using q(1) by (cases prepend) (simp_all add: free_blocks_def Let_def freed flip: p1_def)
  ultimately show ?thesis using cfg ref1 fields f(3) by (auto simp del: pheap_other)
qed

section \<open>Caching full blocks\<close>

definition key_of :: "bytes \<Rightarrow> int \<Rightarrow> bytes" where
  "key_of h g = (case make_block_hash_with_group_id h g of Inr k \<Rightarrow> k | Inl _ \<Rightarrow> [])"

lemma make_key_of:
  "0 \<le> g \<Longrightarrow> g < 2 ^ 32 \<Longrightarrow> make_block_hash_with_group_id h g = Inr (key_of h g)"
  using make_key_total [of g h] by (auto simp: key_of_def)

lemma set_hash_index:
  fixes k :: bytes
  assumes "shape_ok p" "index_ok p" "b \<in> usable p" "bhash p b = None"
  defines "p1 \<equiv> upd_block b (\<lambda>_. (pheap p b)\<lparr>block_hash := Some k\<rparr>) p"
  defines "p2 \<equiv> p1\<lparr>cached_block_hash_to_block := map_insert (pheap p1) k b (cached_block_hash_to_block p1)\<rparr>"
  shows "quiet p p2" "index_ok p2" "refc p2 c = refc p c" "bhash p2 c = (if c = b then Some k else bhash p c)"
proof -
  have heap: "pheap p1 c = (if c = b then (pheap p b)\<lparr>block_hash := Some k\<rparr> else pheap p c)" for c
    by (simp add: p1_def pheap_upd_block)
  have heap2: "pheap p2 = pheap p1" by (simp add: p2_def)
  have "queue_rep (free_block_queue p1) xs = queue_rep (free_block_queue p) xs" for xs
    unfolding p1_def by (rule queue_rep_upd_block) simp_all
  moreover have cfg: "same_config p p2"
    unfolding same_config_def heap2 by (simp add: heap) (simp add: p1_def p2_def)
  ultimately show "quiet p p2" by (simp add: quiet_def p2_def)
  show "refc p2 c = refc p c" "bhash p2 c = (if c = b then Some k else bhash p c)"
    by (simp_all add: heap2 heap)
  let ?m = "cached_block_hash_to_block p"
  have ids: "block_id (pheap p1 c) = block_id (pheap p c)" for c by (simp add: heap)
  have wf: "map_wf (pheap p1) ?m"
    using assms(2) map_wf_cong [of "pheap p1" "pheap p", OF ids] by (simp add: index_ok_def)
  have inj: "\<And>c. has_entry ?m k c \<Longrightarrow> block_id (pheap p1 c) = block_id (pheap p1 b) \<Longrightarrow> c = b"
    using assms(2,3) usable_id_inj [OF assms(1)] by (auto simp: index_ok_def ids)
  have "cached_block_hash_to_block p2 = map_insert (pheap p1) k b ?m" by (simp add: p2_def p1_def)
  moreover have "b \<noteq> Blk 0" using assms(3) by auto
  ultimately show "index_ok p2"
    using hidx.ins_wf [OF wf inj] hidx.ins_has [OF wf inj] assms(2-4) same_config_usable [OF cfg]
    by (auto simp: index_ok_def heap2 heap)
qed

lemma cache_one_law:
  assumes "shape_ok p" "index_ok p" "valid_block p b" "0 \<le> g" "g < 2 ^ 32"
    and "b \<noteq> Blk 0 \<Longrightarrow> \<not> masked_out msk i \<Longrightarrow> bhash p b = None \<and> i < length hs"
  shows "\<exists>p' nh'. cache_one_block hs g msk (i, b) (p, nh) = Inr (p', nh') \<and> quiet p p' \<and> index_ok p' \<and>
           (\<forall>c. refc p' c = refc p c) \<and>
           (\<forall>c. bhash p' c = (if c = b \<and> b \<noteq> Blk 0 \<and> \<not> masked_out msk i
                             then Some (key_of (hs ! i) g) else bhash p c))"
proof (cases "b = Blk 0 \<or> masked_out msk i")
  case True
  thus ?thesis using assms(2) valid_block_cases(1) [OF assms(1,3)]
    by (intro exI [of _ p] exI [of _ nh]) (auto simp: cache_one_block_def)
next
  case False
  hence b: "b \<in> usable p" "\<not> is_null (pheap p b)" "bhash p b = None" "i < length hs"
    using valid_block_cases [OF assms(1,3)] assms(6) by auto
  note st = set_hash_index [OF assms(1,2) b(1,3), of "key_of (hs ! i) g"]
  let ?p1 = "upd_block b (\<lambda>_. (pheap p b)\<lparr>block_hash := Some (key_of (hs ! i) g)\<rparr>) p"
  let ?p2 = "?p1\<lparr>cached_block_hash_to_block :=
      map_insert (pheap ?p1) (key_of (hs ! i) g) b (cached_block_hash_to_block ?p1)\<rparr>"
  obtain nh' where "cache_one_block hs g msk (i, b) (p, nh) = Inr (?p2, nh')"
    using b False make_key_of [OF assms(4,5)]
    by (simp add: cache_one_block_def set_block_hash_def Let_def)
  with st False show ?thesis by (intro exI [of _ ?p2] exI [of _ nh']) auto
qed

definition to_cache :: "bool list option \<Rightarrow> (nat \<times> bref) list \<Rightarrow> (nat \<times> bref) list" where
  "to_cache msk ibs = filter (\<lambda>(i, b). b \<noteq> Blk 0 \<and> \<not> masked_out msk i) ibs"

lemma cache_loop_law:
  assumes "shape_ok p" "index_ok p" "0 \<le> g" "g < 2 ^ 32" "\<forall>(i, b) \<in> set ibs. valid_block p b"
    and "distinct (map snd (to_cache msk ibs))"
    and "\<forall>(i, b) \<in> set (to_cache msk ibs). bhash p b = None \<and> i < length hs"
  shows "\<exists>p' nh'. foldE (cache_one_block hs g msk) ibs (p, nh) = Inr (p', nh') \<and> quiet p p' \<and> index_ok p' \<and>
           (\<forall>c. refc p' c = refc p c) \<and>
           (\<forall>(i, b) \<in> set (to_cache msk ibs). bhash p' b = Some (key_of (hs ! i) g)) \<and>
           (\<forall>c. c \<notin> snd ` set (to_cache msk ibs) \<longrightarrow> bhash p' c = bhash p c)"
  using assms
proof (induction ibs arbitrary: p nh)
  case (Cons ib ibs)
  obtain i b where ib: "ib = (i, b)" by force
  have here: "b \<noteq> Blk 0 \<Longrightarrow> \<not> masked_out msk i \<Longrightarrow> bhash p b = None \<and> i < length hs"
    using Cons.prems(7) by (auto simp: ib to_cache_def)
  have valid: "valid_block p b" using Cons.prems(5) by (simp add: ib)
  obtain p1 nh1 where p1: "cache_one_block hs g msk (i, b) (p, nh) = Inr (p1, nh1)" "quiet p p1" "index_ok p1"
    "\<forall>c. refc p1 c = refc p c"
    "\<forall>c. bhash p1 c = (if c = b \<and> b \<noteq> Blk 0 \<and> \<not> masked_out msk i then Some (key_of (hs ! i) g) else bhash p c)"
    using cache_one_law [where i = i and nh = nh and hs = hs and msk = msk,
        OF Cons.prems(1,2) valid Cons.prems(3,4) here] by blast
  have cfg: "same_config p p1" using p1(2) by (rule quiet_same_config)
  have fresh: "b \<notin> snd ` set (to_cache msk ibs)" if "b \<noteq> Blk 0" "\<not> masked_out msk i"
    using Cons.prems(6) that by (auto simp: ib to_cache_def)
  have rest: "bhash p1 c = None \<and> j < length hs" if jc: "(j, c) \<in> set (to_cache msk ibs)" for j c
  proof -
    have "(j, c) \<in> set (to_cache msk (ib # ibs))" using jc by (simp add: to_cache_def)
    hence "bhash p c = None \<and> j < length hs" using Cons.prems(7) by blast
    moreover have "c \<in> snd ` set (to_cache msk ibs)" using jc by (rule rev_image_eqI) simp
    hence "c \<noteq> b" if "b \<noteq> Blk 0" "\<not> masked_out msk i" using fresh that by blast
    ultimately show ?thesis using p1(5) by auto
  qed
  obtain p2 nh2 where p2: "foldE (cache_one_block hs g msk) ibs (p1, nh1) = Inr (p2, nh2)" "quiet p1 p2"
    "index_ok p2" "\<forall>c. refc p2 c = refc p1 c"
    "\<forall>(i, b) \<in> set (to_cache msk ibs). bhash p2 b = Some (key_of (hs ! i) g)"
    "\<forall>c. c \<notin> snd ` set (to_cache msk ibs) \<longrightarrow> bhash p2 c = bhash p1 c"
  proof -
    have "shape_ok p1" "\<forall>(i, b) \<in> set ibs. valid_block p1 b"
      using Cons.prems(1,5) same_config_shape [OF cfg] valid_block_config [OF cfg] by simp_all
    moreover have "distinct (map snd (to_cache msk ibs))"
      using Cons.prems(6) by (auto simp: to_cache_def split: if_splits)
    moreover have "\<forall>(i, b) \<in> set (to_cache msk ibs). bhash p1 b = None \<and> i < length hs" using rest by blast
    ultimately show ?thesis using Cons.IH [of p1 nh1] p1(3) Cons.prems(3,4) that by blast
  qed
  have "foldE (cache_one_block hs g msk) (ib # ibs) (p, nh) = Inr (p2, nh2)"
    using p1(1) p2(1) by (simp add: ib)
  moreover have "bhash p2 b = Some (key_of (hs ! i) g)" if "b \<noteq> Blk 0" "\<not> masked_out msk i"
    using fresh [OF that] p2(6) p1(5) that by simp
  ultimately show ?case
    using p1(4,5) p2(4-6) quiet_trans [OF p1(2) p2(2)] p2(3)
    by (intro exI [of _ p2] exI [of _ nh2]) (auto simp: ib to_cache_def)
qed (simp add: to_cache_def)

lemma gen_mm_keys_total:
  assumes "0 \<le> mm"
  shows "\<exists>ks j. gen_mm_extra_hash_keys r s e mm = Inr (ks, j) \<and> 0 \<le> j"
proof -
  have loop: "i0 \<le> snd (mm_keys_loop fs s e i0)" for fs i0
  proof (induction fs arbitrary: i0)
    case (Cons f fs)
    from Cons.IH [of "i0 + 1"] show ?case by (auto simp: Let_def split: prod.split)
  qed simp
  obtain ks j where kj: "mm_keys_loop (drop (nat mm) (mm_features r)) s e mm = (ks, j)" by force
  moreover have "0 \<le> j" using assms loop [of mm "drop (nat mm) (mm_features r)"] kj by simp
  ultimately show ?thesis using assms by (simp add: gen_mm_extra_hash_keys_def Let_def)
qed

lemma event_extra_keys_total:
  assumes "\<forall>i \<in> set js. i < length blocks" "0 \<le> mm"
  shows "\<exists>ks r'. event_extra_keys eh h blocks msk n0 bs js mm r = Inr (ks, r')"
  using assms
proof (induction js arbitrary: mm r)
  case (Cons i js)
  have idx: "py_index blocks (int i) = Inr (blocks ! i)" using Cons.prems by simp
  obtain ks j where kj: "gen_mm_extra_hash_keys r (int i * bs) (int i * bs + bs) mm = Inr (ks, j)" "0 \<le> j"
    using gen_mm_keys_total [OF Cons.prems(2)] by blast
  obtain k r1 where gen: "generate_block_hash_extra_keys eh r (int i * bs) (int i * bs + bs) mm =
      Inr ((k, j), r1)"
  proof -
    have "\<exists>k r1. generate_block_hash_extra_keys eh r (int i * bs) (int i * bs + bs) mm = Inr ((k, j), r1)"
      by (simp add: generate_block_hash_extra_keys_def kj(1) Let_def split: prod.split)
    thus ?thesis using that by blast
  qed
  obtain ks1 r2 where "event_extra_keys eh h blocks msk n0 bs js j r1 = Inr (ks1, r2)"
    using Cons.IH [of j r1] Cons.prems(1) kj(2) by auto
  moreover obtain ks2 r3 where "event_extra_keys eh h blocks msk n0 bs js mm r = Inr (ks2, r3)"
    using Cons.IH [of mm r] Cons.prems by auto
  ultimately show ?case by (simp add: idx gen)
qed simp

lemma cache_full_blocks_law:
  assumes "pool_inv p fl" "0 \<le> g" "g < 2 ^ 32" "\<forall>b \<in> set blocks. valid_block p b"
    and "nf \<le> length blocks" "nf \<le> length (block_hashes r)"
    and "case msk of None \<Rightarrow> True | Some l \<Rightarrow> length l = nf - nc"
    and "hashes_at_size p (block_hashes r) bs = Inr hl" "hashes_from nc hl = Inr hs"
    and "0 < nc \<Longrightarrow> \<exists>x. hash_at (nc - 1) hl = Inr x"
  defines "sel \<equiv> to_cache msk (enumerate 0 (take (nf - nc) (drop nc blocks)))"
  assumes "distinct (map snd sel)" "\<forall>(i, b) \<in> set sel. bhash p b = None \<and> i < length hs"
  shows "\<exists>p' r'. cache_full_blocks eh r blocks nc nf bs g msk p = Inr (p', r') \<and>
           pool_inv p' fl \<and> same_config p p' \<and> (\<forall>c. refc p' c = refc p c) \<and>
           (\<forall>(i, b) \<in> set sel. bhash p' b = Some (key_of (hs ! i) g)) \<and>
           (\<forall>c. c \<notin> snd ` set sel \<longrightarrow> bhash p' c = bhash p c)"
proof (cases "nc \<ge> nf")
  case True
  thus ?thesis using assms(1) by (simp add: cache_full_blocks_def sel_def to_cache_def)
next
  case False
  have inv: "queue_rep (free_block_queue p) fl" "shape_ok p" "counts_ok p fl" "index_ok p"
    using assms(1) by (simp_all add: pool_inv_def)
  let ?new = "take (nf - nc) (drop nc blocks)"
  have valid: "\<forall>(i, b) \<in> set (enumerate 0 ?new). valid_block p b"
    using assms(4) by (auto simp: in_set_enumerate_eq dest!: in_set_takeD in_set_dropD nth_mem)
  obtain p1 nh where p1: "foldE (cache_one_block hs g msk) (enumerate 0 ?new) (p, []) = Inr (p1, nh)"
    "quiet p p1" "index_ok p1" "\<forall>c. refc p1 c = refc p c"
    "\<forall>(i, b) \<in> set sel. bhash p1 b = Some (key_of (hs ! i) g)"
    "\<forall>c. c \<notin> snd ` set sel \<longrightarrow> bhash p1 c = bhash p c"
    using cache_loop_law [OF inv(2,4) assms(2,3) valid] assms(12,13) unfolding sel_def by blast
  have cfg: "same_config p p1" using p1(2) by (rule quiet_same_config)
  have inv1: "pool_inv p1 fl"
    using inv p1 same_config_shape [OF cfg] same_config_usable [OF cfg]
    by (simp add: pool_inv_def counts_ok_def quiet_def)
  obtain parent where parent: "(if nc = 0 then Inr None else bindE (hash_at (nc - 1) hl)
      (\<lambda>bh. Inr (Some (maybe_convert_block_hash (use_int_hashes p1) bh)))) = Inr parent"
    using assms(10) by (cases "nc = 0") auto
  obtain ks r' where ks: "event_extra_keys eh (pheap p1) blocks msk nc bs [nc..<nf] 0 r = Inr (ks, r')"
    using event_extra_keys_total [where js = "[nc..<nf]" and mm = 0 and blocks = blocks and h = "pheap p1"
        and eh = eh and msk = msk and bs = bs and r = r and ?n0.0 = nc] assms(5) by auto
  define p2 where "p2 = (if enable_kv_cache_events p1 then p1\<lparr>kv_event_queue := kv_event_queue p1 @
      [Block_Stored nh parent (slice (int nc * bs) (int nf * bs) (all_token_ids r')) bs
        (map_option adapter_id (lora_request r')) (map_option lora_name (lora_request r'))
        (if ks \<noteq> [] then Some ks else None) g]\<rparr> else p1)"
  have "cache_full_blocks eh r blocks nc nf bs g msk p =
      Inr (p2, if enable_kv_cache_events p1 then r' else r)"
    using False assms(5-9) p1(1) parent ks
    by (simp add: cache_full_blocks_def Let_def p2_def split: option.splits)
  moreover have "pool_inv p2 fl" "same_config p p2" "pheap p2 = pheap p1"
  proof -
    show "pheap p2 = pheap p1" by (simp add: p2_def)
    show "same_config p p2" using cfg by (simp add: p2_def same_config_def)
    have "same_config p1 p2" by (simp add: p2_def same_config_def)
    note c12 = this
    have "index_ok p2" using p1(3) by (subst index_ok_cong [OF c12]) (simp_all add: p2_def)
    thus "pool_inv p2 fl"
      using inv1 same_config_shape [OF c12] same_config_usable [OF c12]
      by (simp add: pool_inv_def counts_ok_def) (simp add: p2_def)
  qed
  ultimately show ?thesis using p1(4-6) by auto
qed

section \<open>Eviction from the index, reset, lookup, construction\<close>

lemma evict_pool_law:
  assumes "pool_inv p fl" "b \<in> usable p"
  shows "\<exists>p'. maybe_evict_cached_block b p = (bhash p b \<noteq> None, p') \<and> pool_inv p' fl \<and> same_config p p' \<and>
           (\<forall>c. refc p' c = refc p c) \<and> (\<forall>c. bhash p' c = (if c = b then None else bhash p c))"
proof -
  have inv: "shape_ok p" "index_ok p" using assms(1) by (simp_all add: pool_inv_def)
  obtain p' where p': "maybe_evict_cached_block b p = (bhash p b \<noteq> None, p')" "quiet p p'" "index_ok p'"
    "\<forall>c. refc p' c = refc p c" "\<forall>c. bhash p' c = (if c = b then None else bhash p c)"
    using evict_law [OF inv assms(2)] by blast
  have cfg: "same_config p p'" using p'(2) by (rule quiet_same_config)
  have "pool_inv p' fl"
    using assms(1) p' same_config_shape [OF cfg] same_config_usable [OF cfg]
    by (simp add: pool_inv_def counts_ok_def quiet_def)
  with p' cfg show ?thesis by blast
qed

lemma evict_null:
  assumes "pool_inv p fl"
  shows "maybe_evict_cached_block (Blk 0) p = (False, metrics_log (On_Evicted (Blk 0)) p)"
    and "pool_inv (metrics_log (On_Evicted (Blk 0)) p) fl"
proof -
  show "maybe_evict_cached_block (Blk 0) p = (False, metrics_log (On_Evicted (Blk 0)) p)"
    using assms by (simp add: pool_inv_def index_ok_def maybe_evict_cached_block_def)
  have cfg: "same_config p (metrics_log (On_Evicted (Blk 0)) p)"
    using quiet_same_config [OF quiet_metrics_log] .
  show "pool_inv (metrics_log (On_Evicted (Blk 0)) p) fl"
    using assms same_config_shape [OF cfg] same_config_usable [OF cfg]
    by (simp add: pool_inv_def counts_ok_def)
qed

lemma evict_blocks_law:
  assumes "pool_inv p fl" "\<forall>i \<in> set ids. 0 \<le> i \<and> i < num_gpu_blocks p"
  shows "\<exists>p'. evict_blocks ids p = Inr p' \<and> pool_inv p' fl \<and> same_config p p' \<and>
           (\<forall>c. refc p' c = refc p c) \<and>
           (\<forall>c. bhash p' c = (if c \<in> (\<lambda>i. Blk (nat i)) ` set ids then None else bhash p c))"
  unfolding evict_blocks_def using assms
proof (induction ids arbitrary: p)
  case (Cons i ids)
  let ?b = "Blk (nat i)"
  have i: "0 \<le> i" "i < num_gpu_blocks p" using Cons.prems(2) by auto
  have shape: "shape_ok p" using Cons.prems(1) by (simp add: pool_inv_def)
  hence one: "evict_one i p = Inr (snd (maybe_evict_cached_block ?b p))"
    using i by (auto simp: evict_one_def shape_ok_def py_index_def)
  obtain p1 where p1: "evict_one i p = Inr p1" "pool_inv p1 fl" "same_config p p1"
    "\<forall>c. refc p1 c = refc p c" "\<forall>c. bhash p1 c = (if c = ?b then None else bhash p c)"
  proof (cases "nat i = 0")
    case True
    have n: "bhash p (Blk 0) = None" using Cons.prems(1) by (simp add: pool_inv_def index_ok_def)
    show ?thesis
      using one evict_null [OF Cons.prems(1)] n True quiet_same_config [OF quiet_metrics_log]
      by (intro that [of "metrics_log (On_Evicted (Blk 0)) p"]) auto
  next
    case False
    hence "?b \<in> usable p" using i by (auto simp: usable_def)
    then obtain p1 where "maybe_evict_cached_block ?b p = (bhash p ?b \<noteq> None, p1)" "pool_inv p1 fl"
      "same_config p p1" "\<forall>c. refc p1 c = refc p c" "\<forall>c. bhash p1 c = (if c = ?b then None else bhash p c)"
      using evict_pool_law [OF Cons.prems(1)] by blast
    thus ?thesis using one by (intro that [of p1]) simp_all
  qed
  have "\<forall>i \<in> set ids. 0 \<le> i \<and> i < num_gpu_blocks p1" using Cons.prems(2) p1(3) by (simp add: same_config_def)
  then obtain p2 where p2: "foldE evict_one ids p1 = Inr p2" "pool_inv p2 fl" "same_config p1 p2"
    "\<forall>c. refc p2 c = refc p1 c"
    "\<forall>c. bhash p2 c = (if c \<in> (\<lambda>i. Blk (nat i)) ` set ids then None else bhash p1 c)"
    using Cons.IH [OF p1(2)] by blast
  show ?case using p1 p2 same_config_trans [OF p1(3) p2(3)] by (intro exI [of _ p2]) auto
qed simp

lemma free_list_count:
  assumes "pool_inv p fl"
  shows "get_num_free_blocks p = int (length fl)" "get_num_free_blocks p \<le> num_gpu_blocks p - 1"
proof -
  have rep: "queue_rep (free_block_queue p) fl" using assms by (simp add: pool_inv_def)
  thus len: "get_num_free_blocks p = int (length fl)"
    by (simp add: get_num_free_blocks_def queue_rep_length)
  have "length fl = card (set fl)" using rep by (simp add: queue_rep_def distinct_card)
  also have "\<dots> \<le> card (usable p)"
    using assms by (intro card_mono) (auto simp: pool_inv_def counts_ok_def usable_def)
  also have "\<dots> = nat (num_gpu_blocks p) - 1" by (simp add: usable_def card_image inj_on_def)
  finally show "get_num_free_blocks p \<le> num_gpu_blocks p - 1"
    using len assms by (auto simp: pool_inv_def shape_ok_def)
qed

lemma all_free_iff:
  assumes "pool_inv p fl"
  shows "num_gpu_blocks p - get_num_free_blocks p = 1 \<longleftrightarrow> (\<forall>b \<in> usable p. refc p b = 0)"
proof -
  have rep: "distinct fl" "set fl \<subseteq> usable p" "0 < num_gpu_blocks p"
    and cnt: "\<forall>b \<in> usable p. b \<in> set fl \<longleftrightarrow> refc p b = 0"
    using assms by (auto simp: pool_inv_def queue_rep_def counts_ok_def shape_ok_def)
  have fin: "finite (usable p)" by (simp add: usable_def)
  have card: "card (usable p) = nat (num_gpu_blocks p) - 1"
    by (simp add: usable_def card_image inj_on_def)
  have "num_gpu_blocks p - get_num_free_blocks p = 1 \<longleftrightarrow> card (set fl) = card (usable p)"
    using free_list_count [OF assms] rep(1,3) by (auto simp: distinct_card card)
  also have "\<dots> \<longleftrightarrow> set fl = usable p" using card_subset_eq [OF fin rep(2)] by auto
  also have "\<dots> \<longleftrightarrow> (\<forall>b \<in> usable p. refc p b = 0)" using rep(2) cnt by auto
  finally show ?thesis .
qed

lemma fold_reset_hash:
  defines "g \<equiv> \<lambda>bs p. fold (\<lambda>b. upd_block b reset_hash) bs p"
  shows "pheap (g bs p) c = (if c \<in> set bs then reset_hash (pheap p c) else pheap p c)"
    "queue_rep (free_block_queue (g bs p)) xs = queue_rep (free_block_queue p) xs"
    "same_config p (g bs p)"
    "cached_block_hash_to_block (g bs p) = cached_block_hash_to_block p"
  unfolding g_def
proof -
  show heap: "pheap (fold (\<lambda>b. upd_block b reset_hash) bs p) c =
      (if c \<in> set bs then reset_hash (pheap p c) else pheap p c)" for c p
    by (induction bs arbitrary: p) (auto simp: pheap_upd_block reset_hash_def)
  show "queue_rep (free_block_queue (fold (\<lambda>b. upd_block b reset_hash) bs p)) xs =
      queue_rep (free_block_queue p) xs"
    by (induction bs arbitrary: p) (auto simp: queue_rep_upd_block reset_hash_def)
  show "cached_block_hash_to_block (fold (\<lambda>b. upd_block b reset_hash) bs p) = cached_block_hash_to_block p"
    by (induction bs arbitrary: p) auto
  have step: "same_config q (upd_block b reset_hash q)" for b q
    by (simp add: same_config_def pheap_upd_block reset_hash_def)
  show "same_config p (fold (\<lambda>b. upd_block b reset_hash) bs p)"
    by (induction bs arbitrary: p) (auto intro: same_config_trans [OF step])
qed

lemma reset_prefix_cache_law:
  assumes "pool_inv p fl"
  shows "\<exists>p'. reset_prefix_cache p = ((\<forall>b \<in> usable p. refc p b = 0), p') \<and> pool_inv p' fl \<and>
           same_config p p' \<and> (\<forall>c. refc p' c = refc p c) \<and>
           (if \<forall>b \<in> usable p. refc p b = 0 then \<forall>b \<in> usable p. bhash p' b = None else p' = p)"
proof (cases "\<forall>b \<in> usable p. refc p b = 0")
  case False
  thus ?thesis using assms all_free_iff [OF assms] by (auto simp: reset_prefix_cache_def)
next
  case True
  have inv: "queue_rep (free_block_queue p) fl" "shape_ok p" "counts_ok p fl"
    using assms by (simp_all add: pool_inv_def)
  let ?p0 = "p\<lparr>cached_block_hash_to_block := []\<rparr>"
  define p1 where "p1 = fold (\<lambda>b. upd_block b reset_hash) (pool_blocks p) ?p0"
  note r = fold_reset_hash [where bs = "pool_blocks p" and p = ?p0, folded p1_def]
  define p2 where "p2 = snd (reset_prefix_cache p)"
  have p2: "reset_prefix_cache p = (True, p2)" "pheap p2 = pheap p1"
    "queue_rep (free_block_queue p2) xs = queue_rep (free_block_queue p1) xs"
    "cached_block_hash_to_block p2 = cached_block_hash_to_block p1" "same_config p1 p2" for xs
    using True all_free_iff [OF assms]
    by (auto simp: reset_prefix_cache_def p2_def Let_def same_config_def simp flip: p1_def)
  have cfg: "same_config p p2"
    using same_config_trans [OF _ p2(5)] r(3) by (auto simp: same_config_def)
  have mem: "b \<in> set (pool_blocks p)" if "b \<in> insert (Blk 0) (usable p)" for b
    using that inv(2) by (auto simp: shape_ok_def usable_def)
  have none: "bhash p2 b = None" if "b \<in> insert (Blk 0) (usable p)" for b
    using mem [OF that] by (simp add: p2(2) r(1) reset_hash_def)
  have refs: "refc p2 c = refc p c" for c by (simp add: p2(2) r(1) reset_hash_def)
  have "index_ok p2"
    using none r(4) by (auto simp: index_ok_def p2(4) same_config_usable [OF cfg])
  moreover have "counts_ok p2 fl"
    using inv(3) by (simp add: counts_ok_def same_config_usable [OF cfg] refs)
  ultimately have "pool_inv p2 fl"
    using inv(1,2) r(2) p2(3) same_config_shape [OF cfg] by (simp add: pool_inv_def)
  thus ?thesis using True p2(1) cfg refs none by auto
qed

end
