(* ===== verification/Pool_Correct.thy ===== *)
theory Pool_Correct
  imports Pool_Invariant
begin

text \<open>
  Properties of the block pool: construction, lookup by hash, the contract \<open>block_store\<close> through
  which the cache managers use the pool, and the invariant of every state reachable by legal calls.
\<close>

section \<open>Construction\<close>

lemma pool_init_law:
  assumes "0 < n"
  shows "\<exists>p. pool_init n caching hbs events use_int metrics = Inr p \<and>
           pool_inv p (map Blk [1..<nat n]) \<and> num_gpu_blocks p = n \<and> enable_caching p = caching \<and>
           hash_block_size p = hbs \<and> enable_kv_cache_events p = events \<and>
           (\<forall>b \<in> usable p. refc p b = 0 \<and> bhash p b = None)"
proof -
  define h :: heap where "h = (\<lambda>r. case r of Blk i \<Rightarrow> new_block (int i) | _ \<Rightarrow> new_block (-1))"
  let ?bs = "map Blk [0..<nat n]" and ?q = "free_queue_init h (map Blk [0..<nat n])"
  have h: "h (Blk i) = new_block (int i)" for i by (simp add: h_def)
  have d: "distinct ?bs" by (simp add: distinct_map inj_on_def)
  have q: "queue_rep ?q ?bs" and meta: "qmeta ?q (Blk i) = block_meta (h (Blk i))" for i
    using free_queue_init_rep [where h = h, OF d] by (auto simp: h new_block_def)
  have split: "?bs = Blk 0 # map Blk [1..<nat n]" using assms by (simp add: upt_conv_Cons)
  obtain q1 where q1: "popleft ?q = Inr (Blk 0, q1)" "queue_rep q1 (map Blk [1..<nat n])" "qmeta q1 = qmeta ?q"
    using popleft_refines [of ?q "Blk 0" "map Blk [1..<nat n]"] q split by auto
  have blk: "block_meta (store q1 (Blk i)) = block_meta (new_block (int i))" for i
    using q1(3) meta by (metis qmeta_def h)
  have f: "ref_cnt (store q1 (Blk i)) = 0" "block_hash (store q1 (Blk i)) = None"
    "block_id (store q1 (Blk i)) = int i" "\<not> is_null (store q1 (Blk i))" for i
    using blk [of i] unfolding block_meta_def new_block_def
    by (metis kv_block.select_convs kv_block.surjective kv_block.update_convs(4,5))+
  let ?p0 = "\<lparr>num_gpu_blocks = n, enable_caching = caching, hash_block_size = hbs, pool_blocks = ?bs,
      free_block_queue = q1, cached_block_hash_to_block = [], null_block = Blk 0,
      enable_kv_cache_events = events, use_int_hashes = use_int, kv_event_queue = [],
      metrics_collector = metrics\<rparr>"
  define p where "p = upd_block (Blk 0) (\<lambda>b. b\<lparr>is_null := True\<rparr>) ?p0"
  have init: "pool_init n caching hbs events use_int metrics = Inr p"
    using assms q1(1) by (simp add: pool_init_def Let_def p_def flip: h_def)
  have heap: "pheap p b = (if b = Blk 0 then (store q1 b)\<lparr>is_null := True\<rparr> else store q1 b)" for b
    by (simp add: p_def pheap_upd_block) (simp add: pheap_def)
  have fields: "num_gpu_blocks p = n" "pool_blocks p = ?bs" "null_block p = Blk 0"
    "cached_block_hash_to_block p = []" "enable_caching p = caching" "hash_block_size p = hbs"
    "enable_kv_cache_events p = events" by (simp_all add: p_def)
  have all: "refc p b = 0 \<and> bhash p b = None" if "b \<in> insert (Blk 0) (usable p)" for b
    using that f by (auto simp: heap usable_def)
  have "queue_rep (free_block_queue p) (map Blk [1..<nat n])"
    unfolding p_def using q1(2) by (subst queue_rep_upd_block) simp_all
  moreover have "shape_ok p" using assms f by (simp add: shape_ok_def fields heap)
  moreover have "counts_ok p (map Blk [1..<nat n])"
    unfolding counts_ok_def using all by (auto simp: usable_def fields)
  moreover have "index_ok p" unfolding index_ok_def using all by (auto simp: fields)
  ultimately show ?thesis using init fields all by (auto simp: pool_inv_def)
qed

section \<open>Lookup\<close>

lemma get_cached_block_law:
  assumes "pool_inv p fl" "\<forall>g \<in> set gs. 0 \<le> g \<and> g < 2 ^ 32"
  shows "\<exists>r. get_cached_block p bh gs = Inr r \<and>
           (case r of
              Some bs \<Rightarrow> length bs = length gs \<and>
                (\<forall>i < length gs. bs ! i \<in> usable p \<and> bhash p (bs ! i) = Some (key_of bh (gs ! i)))
            | None \<Rightarrow> \<exists>g \<in> set gs. \<forall>b \<in> usable p. bhash p b \<noteq> Some (key_of bh g))"
  using assms(2)
proof (induction gs)
  case (Cons g gs)
  let ?m = "cached_block_hash_to_block p"
  have idx: "index_ok p" using assms(1) by (simp add: pool_inv_def)
  have key: "make_block_hash_with_group_id bh g = Inr (key_of bh g)"
    using Cons.prems by (intro make_key_of) auto
  obtain ob where ob: "get_one_block ?m (key_of bh g) = Inr ob"
    "case ob of None \<Rightarrow> \<forall>b. \<not> has_entry ?m (key_of bh g) b | Some b \<Rightarrow> has_entry ?m (key_of bh g) b"
    using hidx.get_law [of "pheap p" ?m "key_of bh g"] idx by (auto simp: index_ok_def)
  obtain r where r: "get_cached_block p bh gs = Inr r"
    "case r of Some bs \<Rightarrow> length bs = length gs \<and>
        (\<forall>i < length gs. bs ! i \<in> usable p \<and> bhash p (bs ! i) = Some (key_of bh (gs ! i)))
      | None \<Rightarrow> \<exists>g \<in> set gs. \<forall>b \<in> usable p. bhash p b \<noteq> Some (key_of bh g)"
    using Cons.IH Cons.prems by auto
  show ?case
  proof (cases ob)
    case None
    thus ?thesis using ob key idx by (auto simp: index_ok_def)
  next
    case (Some b)
    hence b: "b \<in> usable p" "bhash p b = Some (key_of bh g)" using ob(2) idx by (auto simp: index_ok_def)
    show ?thesis
    proof (cases r)
      case None
      thus ?thesis using Some ob(1) key r by auto
    next
      case (Some bs)
      thus ?thesis using \<open>ob = Some b\<close> ob(1) key r b by (auto simp: nth_Cons split: nat.split)
    qed
  qed
qed simp

section \<open>The contract of the pool\<close>

text \<open>
  What a cache manager relies on: allocation takes from the front of the free list, acquiring
  raises counts and takes blocks off the list, releasing lowers counts and returns the blocks that are no
  longer referenced.
\<close>

locale block_store =
  fixes inv :: "'p \<Rightarrow> bref list \<Rightarrow> bool"
    and valid :: "'p \<Rightarrow> bref \<Rightarrow> bool"
    and refs :: "'p \<Rightarrow> bref \<Rightarrow> int"
    and alloc :: "int \<Rightarrow> 'p \<Rightarrow> (bref list \<times> 'p) res"
    and acquire :: "bref list \<Rightarrow> 'p \<Rightarrow> 'p res"
    and release :: "bref list \<Rightarrow> bool \<Rightarrow> 'p \<Rightarrow> 'p res"
  assumes inv_distinct: "inv p fl \<Longrightarrow> distinct fl"
    and inv_free: "inv p fl \<Longrightarrow> b \<in> set fl \<Longrightarrow> valid p b \<and> b \<noteq> Blk 0 \<and> refs p b = 0"
    and inv_used: "inv p fl \<Longrightarrow> valid p b \<Longrightarrow> b \<noteq> Blk 0 \<Longrightarrow> 0 \<le> refs p b \<and> (b \<in> set fl \<longleftrightarrow> refs p b = 0)"
    and alloc_law: "inv p fl \<Longrightarrow> 0 \<le> n \<Longrightarrow> n \<le> int (length fl) \<Longrightarrow>
      \<exists>p'. alloc n p = Inr (take (nat n) fl, p') \<and> inv p' (drop (nat n) fl) \<and> valid p' = valid p \<and>
           (\<forall>c. refs p' c = (if c \<in> set (take (nat n) fl) then 1 else refs p c))"
    and acquire_law: "inv p fl \<Longrightarrow> (\<forall>b \<in> set bs. valid p b) \<Longrightarrow>
      \<exists>p'. acquire bs p = Inr p' \<and> inv p' (filter (\<lambda>b. b \<notin> set bs) fl) \<and> valid p' = valid p \<and>
           (\<forall>c. refs p' c = refs p c + int (count_list bs c))"
    and release_law: "inv p fl \<Longrightarrow> (\<forall>b \<in> set bs. valid p b) \<Longrightarrow>
      distinct (filter (\<lambda>b. b \<noteq> Blk 0) bs) \<Longrightarrow> (\<forall>b \<in> set bs. b \<noteq> Blk 0 \<longrightarrow> 1 \<le> refs p b) \<Longrightarrow>
      \<exists>p'. release bs pre p = Inr p' \<and>
           inv p' (if pre then filter (\<lambda>b. b \<noteq> Blk 0 \<and> refs p b = 1) bs @ fl
                   else fl @ filter (\<lambda>b. b \<noteq> Blk 0 \<and> refs p b = 1) bs) \<and>
           valid p' = valid p \<and> (\<forall>c. refs p' c = refs p c - int (count_list bs c))"
begin

text \<open>Allocating and releasing again rotates the free list and changes no count.\<close>

lemma alloc_release:
  assumes "inv p fl" "0 \<le> n" "n \<le> int (length fl)"
  shows "\<exists>p1 p2. alloc n p = Inr (take (nat n) fl, p1) \<and> release (take (nat n) fl) False p1 = Inr p2 \<and>
           inv p2 (drop (nat n) fl @ take (nat n) fl) \<and> valid p2 = valid p \<and> (\<forall>c. refs p2 c = refs p c)"
proof -
  let ?bs = "take (nat n) fl"
  obtain p1 where p1: "alloc n p = Inr (?bs, p1)" "inv p1 (drop (nat n) fl)" "valid p1 = valid p"
    "\<forall>c. refs p1 c = (if c \<in> set ?bs then 1 else refs p c)"
    using alloc_law [OF assms] by blast
  have bs: "distinct ?bs" "\<forall>b \<in> set ?bs. valid p b \<and> b \<noteq> Blk 0 \<and> refs p b = 0"
    using inv_distinct [OF assms(1)] inv_free [OF assms(1)] by (auto dest!: in_set_takeD)
  have all: "filter (\<lambda>b. b \<noteq> Blk 0 \<and> refs p1 b = 1) ?bs = ?bs"
    using bs(2) p1(4) by (auto simp: filter_id_conv)
  obtain p2 where p2: "release ?bs False p1 = Inr p2" "inv p2 (drop (nat n) fl @ ?bs)" "valid p2 = valid p1"
    "\<forall>c. refs p2 c = refs p1 c - int (count_list ?bs c)"
    using release_law [OF p1(2), of ?bs False] p1(3,4) bs all by auto
  have "refs p2 c = refs p c" for c
    using p2(4) p1(4) bs count_notin [of c ?bs] distinct_count_list [of "\<lambda>_. True" ?bs c] by auto
  thus ?thesis using p1 p2 by auto
qed

text \<open>Acquiring cached blocks and releasing them again restores every count.\<close>

lemma acquire_release:
  assumes "inv p fl" "\<forall>b \<in> set bs. valid p b" "distinct (filter (\<lambda>b. b \<noteq> Blk 0) bs)"
  shows "\<exists>p1 p2 fl'. acquire bs p = Inr p1 \<and> release bs False p1 = Inr p2 \<and> inv p2 fl' \<and>
           set fl' = set fl \<and> (\<forall>c. refs p2 c = refs p c)"
proof -
  obtain p1 where p1: "acquire bs p = Inr p1" "inv p1 (filter (\<lambda>b. b \<notin> set bs) fl)" "valid p1 = valid p"
    "\<forall>c. refs p1 c = refs p c + int (count_list bs c)"
    using acquire_law [OF assms(1,2)] by blast
  have held: "\<forall>b \<in> set bs. b \<noteq> Blk 0 \<longrightarrow> refs p1 b = refs p b + 1 \<and> 0 \<le> refs p b"
    using p1(4) assms inv_used [OF assms(1)] distinct_count_list [OF assms(3)] by auto
  obtain p2 where p2: "release bs False p1 = Inr p2"
    "inv p2 (filter (\<lambda>b. b \<notin> set bs) fl @ filter (\<lambda>b. b \<noteq> Blk 0 \<and> refs p1 b = 1) bs)"
    "\<forall>c. refs p2 c = refs p1 c - int (count_list bs c)"
    using release_law [OF p1(2), of bs False] p1(3) assms(2,3) held by auto
  have "set (filter (\<lambda>b. b \<notin> set bs) fl @ filter (\<lambda>b. b \<noteq> Blk 0 \<and> refs p1 b = 1) bs) = set fl"
    using held assms(2) inv_used [OF assms(1)] inv_free [OF assms(1)] by fastforce
  moreover have "\<forall>c. refs p2 c = refs p c" using p1(4) p2(3) by simp
  ultimately show ?thesis using p1(1) p2(1,2) by blast
qed

end

interpretation pool: block_store pool_inv valid_block refc get_new_blocks touch free_blocks
proof (unfold_locales, goal_cases)
  case (1 p fl)
  thus ?case by (simp add: pool_inv_def queue_rep_def)
next
  case (2 p fl b)
  thus ?case by (auto simp: pool_inv_def counts_ok_def valid_block_def)
next
  case (3 p fl b)
  thus ?case by (auto simp: pool_inv_def counts_ok_def valid_block_def)
next
  case (4 p fl n)
  from get_new_blocks_law [OF this] show ?case using valid_block_config by blast
next
  case (5 p fl bs)
  from touch_law [OF this] show ?case using valid_block_config by blast
next
  case (6 p fl bs pre)
  from free_blocks_law [OF this, of pre] show ?case using valid_block_config by blast
qed

section \<open>Reachable states\<close>

text \<open>
  One legal call on the pool. The premises are the callers' obligations: blocks belong to the pool;
  released blocks are held and not listed twice; cached blocks are distinct, unhashed and have a hash in
  the request's list; evicted ids are ids of the pool.
\<close>

inductive pool_step :: "block_pool \<Rightarrow> block_pool \<Rightarrow> bool" where
  step_alloc: "0 \<le> n \<Longrightarrow> get_new_blocks n p = Inr (bs, p') \<Longrightarrow> pool_step p p'"
| step_touch: "\<forall>b \<in> set bs. valid_block p b \<Longrightarrow> touch bs p = Inr p' \<Longrightarrow> pool_step p p'"
| step_free: "\<forall>b \<in> set bs. valid_block p b \<and> (b \<noteq> Blk 0 \<longrightarrow> 1 \<le> refc p b) \<Longrightarrow>
    distinct (filter (\<lambda>b. b \<noteq> Blk 0) bs) \<Longrightarrow> free_blocks bs pre p = Inr p' \<Longrightarrow> pool_step p p'"
| step_cache: "\<forall>b \<in> set blocks. valid_block p b \<Longrightarrow> 0 \<le> g \<Longrightarrow> g < 2 ^ 32 \<Longrightarrow>
    nf \<le> length blocks \<Longrightarrow> bs = hash_block_size p \<Longrightarrow>
    distinct (map snd (to_cache msk (enumerate 0 (take (nf - nc) (drop nc blocks))))) \<Longrightarrow>
    \<forall>(i, b) \<in> set (to_cache msk (enumerate 0 (take (nf - nc) (drop nc blocks)))). bhash p b = None \<Longrightarrow>
    cache_full_blocks eh r blocks nc nf bs g msk p = Inr (p', r') \<Longrightarrow> pool_step p p'"
| step_evict: "\<forall>i \<in> set ids. 0 \<le> i \<and> i < num_gpu_blocks p \<Longrightarrow> evict_blocks ids p = Inr p' \<Longrightarrow> pool_step p p'"
| step_reset: "reset_prefix_cache p = (ok, p') \<Longrightarrow> pool_step p p'"
| step_events: "take_events p = (es, p') \<Longrightarrow> pool_step p p'"

inductive pool_reachable :: "block_pool \<Rightarrow> bool" where
  reach_init: "pool_init n caching hbs events use_int metrics = Inr p \<Longrightarrow> pool_reachable p"
| reach_step: "pool_reachable p \<Longrightarrow> pool_step p p' \<Longrightarrow> pool_reachable p'"

lemma pool_init_positive: "pool_init n caching hbs events use_int metrics = Inr p \<Longrightarrow> 0 < n"
  by (auto simp: pool_init_def split: if_splits)

lemma get_new_blocks_enough:
  "pool_inv p fl \<Longrightarrow> get_new_blocks n p = Inr x \<Longrightarrow> n \<le> int (length fl)"
  using get_new_blocks_short [of p fl n] by fastforce

lemma cache_step_inv:
  assumes "pool_inv p fl" "\<forall>b \<in> set blocks. valid_block p b" "0 \<le> g" "g < 2 ^ 32" "nf \<le> length blocks"
    and "distinct (map snd (to_cache msk (enumerate 0 (take (nf - nc) (drop nc blocks)))))"
    and "\<forall>(i, b) \<in> set (to_cache msk (enumerate 0 (take (nf - nc) (drop nc blocks)))). bhash p b = None"
    and "cache_full_blocks eh r blocks nc nf (hash_block_size p) g msk p = Inr (p', r')"
  shows "pool_inv p' fl"
proof (cases "nc \<ge> nf")
  case True
  thus ?thesis using assms(1,8) by (simp add: cache_full_blocks_def)
next
  case False
  let ?new = "take (nf - nc) (drop nc blocks)"
  have len: "length ?new = nf - nc" using assms(5) by simp
  have "nf \<le> length (block_hashes r) \<and> (case msk of None \<Rightarrow> True | Some l \<Rightarrow> length l = length ?new)"
    using assms(8) False unfolding cache_full_blocks_def Let_def by (auto simp: bindE_eq_Inr guardE_eq_Inr)
  hence ok: "nf \<le> length (block_hashes r)" "case msk of None \<Rightarrow> True | Some l \<Rightarrow> length l = nf - nc"
    unfolding len by blast+
  have "\<forall>(i, b) \<in> set (to_cache msk (enumerate 0 ?new)). bhash p b = None \<and> i < length (drop nc (block_hashes r))"
    using assms(7) ok(1) False len by (fastforce simp: to_cache_def in_set_enumerate_eq)
  moreover have "\<exists>x. hash_at (nc - 1) (Plain (block_hashes r)) = Inr x" if "0 < nc"
    using that False ok(1) py_index_nonneg [of "nc - 1" "block_hashes r"] by (simp add: hash_at_def)
  ultimately show ?thesis
    using cache_full_blocks_law [where p = p and fl = fl and g = g and blocks = blocks and nf = nf and nc = nc
        and msk = msk and bs = "hash_block_size p" and hl = "Plain (block_hashes r)"
        and hs = "drop nc (block_hashes r)" and r = r and eh = eh] assms(1-6,8) ok
    by (auto simp: hashes_at_size_def hashes_from_def)
qed

lemma pool_step_inv:
  assumes "pool_step p p'" "pool_inv p fl"
  shows "\<exists>fl'. pool_inv p' fl'"
  using assms(1)
proof (cases rule: pool_step.cases)
  case (step_alloc n bs)
  thus ?thesis using get_new_blocks_law [OF assms(2), of n] get_new_blocks_enough [OF assms(2)] by auto
next
  case (step_touch bs)
  thus ?thesis using touch_law [OF assms(2), of bs] by auto
next
  case (step_free bs pre)
  thus ?thesis using free_blocks_law [OF assms(2), of bs pre] by auto
next
  case (step_cache blocks g nf bs msk nc eh r r')
  thus ?thesis using cache_step_inv [OF assms(2)] by blast
next
  case (step_evict ids)
  thus ?thesis using evict_blocks_law [OF assms(2), of ids] by auto
next
  case (step_reset ok)
  thus ?thesis using reset_prefix_cache_law [OF assms(2)] by auto
next
  case (step_events es)
  show ?thesis
  proof (cases "enable_kv_cache_events p")
    case True
    hence p': "p' = p\<lparr>kv_event_queue := []\<rparr>" using step_events by (simp add: take_events_def)
    have cfg: "same_config p p'" by (simp add: p' same_config_def)
    have "index_ok p'" using assms(2) index_ok_cong [OF cfg] by (simp add: p' pool_inv_def)
    thus ?thesis using assms(2) same_config_shape [OF cfg] same_config_usable [OF cfg]
      by (auto simp: p' pool_inv_def counts_ok_def)
  qed (use step_events assms(2) in \<open>auto simp: take_events_def\<close>)
qed

lemma reachable_inv: "pool_reachable p \<Longrightarrow> \<exists>fl. pool_inv p fl"
proof (induction rule: pool_reachable.induct)
  case (reach_init n caching hbs events use_int metrics p)
  then obtain p' where "pool_init n caching hbs events use_int metrics = Inr p'"
    "pool_inv p' (map Blk [1..<nat n])"
    using pool_init_law [OF pool_init_positive [OF reach_init]] by blast
  thus ?case using reach_init by auto
next
  case (reach_step p p')
  thus ?case using pool_step_inv by blast
qed

section \<open>Properties\<close>

text \<open>
  C11: the pool invariant. In every state reachable by legal calls, traversing the free list
  returns a list without duplicates whose length is the free counter; no reference count is negative; a
  block is on the list exactly when nothing references it, and the null block never is; and the hash
  index holds a block under a key exactly when the block carries that key, so no lookup can return a
  block that was recycled for other content.
\<close>

theorem pool_reachable_safe:
  assumes "pool_reachable p"
  shows "\<exists>fl. get_all_free_blocks (free_block_queue p) = Some (Inr fl) \<and> distinct fl \<and>
           get_num_free_blocks p = int (length fl) \<and> null_block p \<notin> set fl \<and>
           (\<forall>i. 0 < i \<and> int i < num_gpu_blocks p \<longrightarrow>
              0 \<le> ref_cnt (pheap p (Blk i)) \<and> (Blk i \<in> set fl \<longleftrightarrow> ref_cnt (pheap p (Blk i)) = 0)) \<and>
           (\<forall>k b. has_entry (cached_block_hash_to_block p) k b \<longleftrightarrow>
              b \<in> usable p \<and> block_hash (pheap p b) = Some k)"
proof -
  obtain fl where inv: "pool_inv p fl" using reachable_inv [OF assms] by blast
  hence rep: "queue_rep (free_block_queue p) fl" and sub: "set fl \<subseteq> usable p" "null_block p = Blk 0"
    by (auto simp: pool_inv_def counts_ok_def shape_ok_def)
  have "Blk i \<in> usable p" if "0 < i \<and> int i < num_gpu_blocks p" for i
    using that by (auto simp: usable_def)
  moreover have "null_block p \<notin> set fl" using sub by auto
  ultimately show ?thesis
    using inv get_all_free_blocks_rep [OF rep] free_list_count(1) [OF inv] rep
    by (intro exI [of _ fl]) (auto simp: pool_inv_def counts_ok_def index_ok_def queue_rep_def)
qed

theorem pool_reachable_safe_witness:
  "\<exists>p fl. pool_init 4 True 16 False False None = Inr p \<and>
          get_all_free_blocks (free_block_queue p) = Some (Inr fl) \<and> length fl = 3"
proof -
  obtain p where p: "pool_init 4 True 16 False False None = Inr p" "pool_inv p (map Blk [1..<nat 4])"
    using pool_init_law [of 4 True 16 False False None] by auto
  have "pool_reachable p" using p(1) by (rule reach_init)
  from pool_reachable_safe [OF this] p show ?thesis
    using free_list_count(1) [OF p(2)] by fastforce
qed

text \<open>
  C28: allocation. From a well-formed pool with free list \<open>fl\<close>, asking for at most \<open>length fl\<close>
  blocks returns exactly the first ones of the list (least recently freed), each with reference count
  one and, with prefix caching, without a hash; every other block keeps its count and hash. Asking for
  more raises \<^verbatim>\<open>ValueError\<close> before anything is taken.
\<close>

theorem get_new_blocks_correct:
  assumes "pool_inv p fl" "0 \<le> n"
  shows "if n \<le> int (length fl)
         then \<exists>p'. get_new_blocks n p = Inr (take (nat n) fl, p') \<and> pool_inv p' (drop (nat n) fl) \<and>
                (\<forall>c. ref_cnt (pheap p' c) =
                   (if c \<in> set (take (nat n) fl) then 1 else ref_cnt (pheap p c))) \<and>
                (\<forall>c. block_hash (pheap p' c) =
                   (if c \<in> set (take (nat n) fl) \<and> enable_caching p then None else block_hash (pheap p c)))
         else get_new_blocks n p = Inl ValueError"
  using get_new_blocks_law [OF assms] get_new_blocks_short [OF assms(1), of n] by auto

theorem get_new_blocks_correct_witness:
  "\<exists>p p'. pool_init 4 True 16 False False None = Inr p \<and> get_new_blocks 2 p = Inr ([Blk 1, Blk 2], p') \<and>
     get_new_blocks 9 p = Inl ValueError"
proof -
  obtain p where p: "pool_init 4 True 16 False False None = Inr p" "pool_inv p (map Blk [1..<nat 4])"
    using pool_init_law [of 4 True 16 False False None] by auto
  have fl: "map Blk [1..<nat 4] = [Blk 1, Blk 2, Blk 3]" by (simp add: upt_rec)
  note q = get_new_blocks_correct [OF p(2)[unfolded fl], of 2] get_new_blocks_correct [OF p(2)[unfolded fl], of 9]
  from q p(1) show ?thesis by (auto simp: numeral_2_eq_2)
qed

text \<open>
  C30: sharing cached blocks is balanced. Acquiring the blocks of a prefix hit and releasing them again,
  as a request that hits and then finishes does, never raises, restores every reference count, and
  leaves the same set of free blocks.
\<close>

theorem touch_free_balanced:
  assumes "pool_inv p fl" "\<forall>b \<in> set bs. valid_block p b" "distinct (filter (\<lambda>b. b \<noteq> Blk 0) bs)"
  shows "\<exists>p1 p2 fl'. touch bs p = Inr p1 \<and> free_blocks bs False p1 = Inr p2 \<and> pool_inv p2 fl' \<and>
           set fl' = set fl \<and> (\<forall>c. ref_cnt (pheap p2 c) = ref_cnt (pheap p c))"
  using pool.acquire_release [OF assms] .

theorem touch_free_balanced_witness:
  "\<exists>p p1 p2. pool_init 4 True 16 False False None = Inr p \<and> touch [Blk 1, Blk 0, Blk 2] p = Inr p1 \<and>
     free_blocks [Blk 1, Blk 0, Blk 2] False p1 = Inr p2 \<and>
     ref_cnt (pheap p2 (Blk 1)) = ref_cnt (pheap p (Blk 1))"
proof -
  obtain p where p: "pool_init 4 True 16 False False None = Inr p" "pool_inv p (map Blk [1..<nat 4])"
    "num_gpu_blocks p = 4"
    using pool_init_law [of 4 True 16 False False None] by auto
  have "\<forall>b \<in> set [Blk 1, Blk 0, Blk 2]. valid_block p b" by (auto simp: valid_block_def usable_def p(3))
  from touch_free_balanced [OF p(2) this] p(1) show ?thesis by auto
qed

text \<open>
  C29: prefix lookup is sound and complete. For legal group ids \<^verbatim>\<open>get_cached_block\<close> returns; a hit has
  one block per group and each block carries the packed key of the hash and its group; a miss means
  that for some group no block of the pool carries the key.
\<close>

theorem get_cached_block_correct:
  assumes "pool_inv p fl" "\<forall>g \<in> set gs. 0 \<le> g \<and> g < 2 ^ 32"
  shows "\<exists>r. get_cached_block p bh gs = Inr r \<and>
           (case r of
              Some bs \<Rightarrow> length bs = length gs \<and>
                (\<forall>i < length gs. bs ! i \<in> usable p \<and>
                   (\<exists>k. make_block_hash_with_group_id bh (gs ! i) = Inr k \<and>
                        block_hash (pheap p (bs ! i)) = Some k))
            | None \<Rightarrow> \<exists>g \<in> set gs. \<forall>b \<in> usable p. \<forall>k.
                block_hash (pheap p b) = Some k \<longrightarrow> make_block_hash_with_group_id bh g \<noteq> Inr k)"
proof -
  have key: "make_block_hash_with_group_id bh g = Inr (key_of bh g)" if "g \<in> set gs" for g
    using assms(2) that by (intro make_key_of) auto
  obtain r where r: "get_cached_block p bh gs = Inr r" "case r of
      Some bs \<Rightarrow> length bs = length gs \<and>
        (\<forall>i < length gs. bs ! i \<in> usable p \<and> bhash p (bs ! i) = Some (key_of bh (gs ! i)))
    | None \<Rightarrow> \<exists>g \<in> set gs. \<forall>b \<in> usable p. bhash p b \<noteq> Some (key_of bh g)"
    using get_cached_block_law [OF assms] by blast
  show ?thesis
  proof (cases r)
    case None
    then obtain g where g: "g \<in> set gs" "\<forall>b \<in> usable p. bhash p b \<noteq> Some (key_of bh g)" using r(2) by auto
    hence "\<forall>b \<in> usable p. \<forall>k. bhash p b = Some k \<longrightarrow> make_block_hash_with_group_id bh g \<noteq> Inr k"
      using key [OF g(1)] by auto
    thus ?thesis using r(1) None g(1) by auto
  next
    case (Some bs)
    thus ?thesis using r key by (auto intro!: exI [of _ r])
  qed
qed

theorem get_cached_block_correct_witness:
  "\<exists>p. pool_init 4 True 16 False False None = Inr p \<and> get_cached_block p [1, 2] [0] = Inr None"
proof -
  obtain p where p: "pool_init 4 True 16 False False None = Inr p" "pool_inv p (map Blk [1..<nat 4])"
    "\<forall>b \<in> usable p. refc p b = 0 \<and> bhash p b = None"
    using pool_init_law [of 4 True 16 False False None] by auto
  from get_cached_block_correct [OF p(2), of "[0]" "[1, 2]"]
  have "get_cached_block p [1, 2] [0] = Inr None" using p(3) by (auto split: option.splits)
  thus ?thesis using p(1) by blast
qed

text \<open>
  C31: resetting the prefix cache. It succeeds exactly when no block is referenced; then no block
  carries a hash any more and the free list is unchanged. Otherwise the pool is left untouched.
\<close>

theorem reset_prefix_cache_correct:
  assumes "pool_inv p fl"
  shows "\<exists>p'. reset_prefix_cache p = ((\<forall>b \<in> usable p. ref_cnt (pheap p b) = 0), p') \<and> pool_inv p' fl \<and>
           (if \<forall>b \<in> usable p. ref_cnt (pheap p b) = 0
            then \<forall>b \<in> usable p. block_hash (pheap p' b) = None else p' = p)"
  using reset_prefix_cache_law [OF assms] by blast

theorem reset_prefix_cache_correct_witness:
  "\<exists>p p'. pool_init 4 True 16 False False None = Inr p \<and> reset_prefix_cache p = (True, p')"
proof -
  obtain p where p: "pool_init 4 True 16 False False None = Inr p" "pool_inv p (map Blk [1..<nat 4])"
    "\<forall>b \<in> usable p. refc p b = 0 \<and> bhash p b = None"
    using pool_init_law [of 4 True 16 False False None] by auto
  from reset_prefix_cache_correct [OF p(2)] p(1,3) show ?thesis by auto
qed

text \<open>The reported cache usage of a well-formed pool lies between zero and one.\<close>

lemma usage_bounds:
  assumes "pool_inv p fl"
  shows "0 \<le> get_usage p \<and> get_usage p \<le> 1"
proof -
  have "0 \<le> get_num_free_blocks p" "get_num_free_blocks p \<le> num_gpu_blocks p - 1"
    using free_list_count [OF assms] by auto
  thus ?thesis by (auto simp: get_usage_def Let_def divide_le_eq_1)
qed

end
