(* ===== verification/Kv_Specs.thy ===== *)
theory Kv_Specs
  imports Prelude
begin

text \<open>
  The descriptions of the KV cache of one layer: \<^verbatim>\<open>vllm/v1/kv_cache_interface.py\<close> (the spec classes,
  their page sizes, memory bounds and merging) and \<^verbatim>\<open>vllm/v1/kv_cache_spec_registry.py\<close> (which manager
  class serves which spec). A spec is a value of a datatype with one constructor per class; the fields
  that all attention specs inherit are a record. A torch dtype is its name, and the size of an element
  of it, which torch computes, is the parameter \<open>gds\<close>. Block sizes, chunk sizes and page sizes are
  divisors in the source; they are positive in every configuration the engine builds.
\<close>

section \<open>Quantisation modes\<close>

datatype kv_quant_mode =
  Quant_None | FP8_Per_Tensor | INT8_Per_Token_Head | FP8_Per_Token_Head | NVFP4

definition is_per_token_head :: "kv_quant_mode \<Rightarrow> bool" where
  "is_per_token_head q \<longleftrightarrow> q = INT8_Per_Token_Head \<or> q = FP8_Per_Token_Head"

definition is_nvfp4 :: "kv_quant_mode \<Rightarrow> bool" where
  "is_nvfp4 q \<longleftrightarrow> q = NVFP4"

definition get_kv_quant_mode :: "string \<Rightarrow> kv_quant_mode" where
  "get_kv_quant_mode s =
     (if s = ''int8_per_token_head'' then INT8_Per_Token_Head
      else if s = ''fp8_per_token_head'' then FP8_Per_Token_Head
      else if s = ''nvfp4'' then NVFP4
      else if take 3 s = ''fp8'' then FP8_Per_Tensor
      else Quant_None)"

definition is_quantized_kv_cache :: "string \<Rightarrow> bool" where
  "is_quantized_kv_cache s \<longleftrightarrow> get_kv_quant_mode s \<noteq> Quant_None"

definition kv_cache_uses_per_token_head_scales :: "string \<Rightarrow> bool" where
  "kv_cache_uses_per_token_head_scales s \<longleftrightarrow> is_per_token_head (get_kv_quant_mode s)"

section \<open>The spec classes\<close>

record attention_spec =
  spec_block_size :: int
  num_kv_heads :: int
  head_size :: int
  spec_dtype :: string
  spec_quant_mode :: kv_quant_mode
  page_size_padded :: "int option"

record full_fields =
  head_size_v :: int
  full_sliding_window :: "int option"
  full_chunk_size :: "int option"

record mla_fields =
  cache_dtype_str :: "string option"
  alignment :: "int option"
  compress_ratio :: int
  model_version :: "string option"

record mamba_spec =
  mamba_block_size :: int
  shapes :: "int list list"
  dtypes :: "string list"
  mamba_page_size_padded :: "int option"
  mamba_type :: string
  mamba_cache_mode :: string
  num_speculative_blocks :: int

datatype kv_cache_spec =
    FullAttentionSpec attention_spec full_fields
  | TQFullAttentionSpec attention_spec full_fields int
  | MLAAttentionSpec attention_spec full_fields mla_fields
  | HiddenStateCacheSpec attention_spec full_fields mla_fields
  | ChunkedLocalAttentionSpec attention_spec int
  | SlidingWindowSpec attention_spec int "int option"
  | SlidingWindowMLASpec attention_spec int "int option" mla_fields
  | MambaSpec mamba_spec
  | EncoderOnlyAttentionSpec attention_spec
  | CrossAttentionSpec attention_spec
  | SinkFullAttentionSpec attention_spec full_fields "int option"
  | UniformTypeKVCacheSpecs int "(string \<times> kv_cache_spec) list"

fun attention_part :: "kv_cache_spec \<Rightarrow> attention_spec option" where
  "attention_part (FullAttentionSpec a _) = Some a"
| "attention_part (TQFullAttentionSpec a _ _) = Some a"
| "attention_part (MLAAttentionSpec a _ _) = Some a"
| "attention_part (HiddenStateCacheSpec a _ _) = Some a"
| "attention_part (ChunkedLocalAttentionSpec a _) = Some a"
| "attention_part (SlidingWindowSpec a _ _) = Some a"
| "attention_part (SlidingWindowMLASpec a _ _ _) = Some a"
| "attention_part (MambaSpec _) = None"
| "attention_part (EncoderOnlyAttentionSpec a) = Some a"
| "attention_part (CrossAttentionSpec a) = Some a"
| "attention_part (SinkFullAttentionSpec a _ _) = Some a"
| "attention_part (UniformTypeKVCacheSpecs _ _) = None"

definition block_size_of :: "kv_cache_spec \<Rightarrow> int" where
  "block_size_of s =
     (case s of
        MambaSpec m \<Rightarrow> mamba_block_size m
      | UniformTypeKVCacheSpecs b _ \<Rightarrow> b
      | _ \<Rightarrow> (case attention_part s of Some a \<Rightarrow> spec_block_size a | None \<Rightarrow> 0))"

text \<open>\<^verbatim>\<open>dataclasses.replace\<close> on the inherited fields and on the block size.\<close>

fun map_attention :: "(attention_spec \<Rightarrow> attention_spec) \<Rightarrow> kv_cache_spec \<Rightarrow> kv_cache_spec" where
  "map_attention f (FullAttentionSpec a x) = FullAttentionSpec (f a) x"
| "map_attention f (TQFullAttentionSpec a x t) = TQFullAttentionSpec (f a) x t"
| "map_attention f (MLAAttentionSpec a x m) = MLAAttentionSpec (f a) x m"
| "map_attention f (HiddenStateCacheSpec a x m) = HiddenStateCacheSpec (f a) x m"
| "map_attention f (ChunkedLocalAttentionSpec a c) = ChunkedLocalAttentionSpec (f a) c"
| "map_attention f (SlidingWindowSpec a w v) = SlidingWindowSpec (f a) w v"
| "map_attention f (SlidingWindowMLASpec a w v m) = SlidingWindowMLASpec (f a) w v m"
| "map_attention f (MambaSpec m) = MambaSpec m"
| "map_attention f (EncoderOnlyAttentionSpec a) = EncoderOnlyAttentionSpec (f a)"
| "map_attention f (CrossAttentionSpec a) = CrossAttentionSpec (f a)"
| "map_attention f (SinkFullAttentionSpec a x k) = SinkFullAttentionSpec (f a) x k"
| "map_attention f (UniformTypeKVCacheSpecs b l) = UniformTypeKVCacheSpecs b l"

subsection \<open>Page sizes\<close>

definition nvfp4_kv_cache_full_dim :: "int \<Rightarrow> int" where
  "nvfp4_kv_cache_full_dim h = h div 2 + h div 16"

definition round_up :: "int \<Rightarrow> int \<Rightarrow> int" where
  "round_up x y = ((x + y - 1) div y) * y"

definition attention_real_page_size :: "(string \<Rightarrow> int) \<Rightarrow> attention_spec \<Rightarrow> int" where
  "attention_real_page_size gds a =
     (if is_nvfp4 (spec_quant_mode a)
      then 2 * spec_block_size a * num_kv_heads a * nvfp4_kv_cache_full_dim (head_size a) * gds (spec_dtype a)
      else 2 * spec_block_size a * num_kv_heads a * head_size a * gds (spec_dtype a))"

text \<open>The formula with separate key and value head sizes (full attention and sliding window).\<close>

definition kv_real_page_size :: "(string \<Rightarrow> int) \<Rightarrow> attention_spec \<Rightarrow> int \<Rightarrow> int" where
  "kv_real_page_size gds a hv =
     (if is_nvfp4 (spec_quant_mode a)
      then spec_block_size a * num_kv_heads a *
           (nvfp4_kv_cache_full_dim (head_size a) + nvfp4_kv_cache_full_dim hv) * gds (spec_dtype a)
      else spec_block_size a * num_kv_heads a * (head_size a + hv) * gds (spec_dtype a))"

definition storage_block_size :: "attention_spec \<Rightarrow> mla_fields \<Rightarrow> int" where
  "storage_block_size a m = spec_block_size a div compress_ratio m"

definition mla_real_page_size :: "(string \<Rightarrow> int) \<Rightarrow> attention_spec \<Rightarrow> mla_fields \<Rightarrow> int" where
  "mla_real_page_size gds a m =
     (if cache_dtype_str m = Some ''fp8_ds_mla''
      then if model_version m = Some ''deepseek_v4'' then storage_block_size a m * 584
           else spec_block_size a * 656
      else storage_block_size a m * num_kv_heads a * head_size a * gds (spec_dtype a))"

definition sliding_mla_real_page_size :: "(string \<Rightarrow> int) \<Rightarrow> attention_spec \<Rightarrow> mla_fields \<Rightarrow> int res" where
  "sliding_mla_real_page_size gds a m =
     (if model_version m = Some ''deepseek_v4'' \<and> cache_dtype_str m = Some ''fp8_ds_mla''
      then Inr (storage_block_size a m * 584)
      else bindE (guardE (model_version m \<in> {None, Some ''deepseek_v4''}) AssertionError) (\<lambda>_.
        Inr (storage_block_size a m * num_kv_heads a * head_size a * gds (spec_dtype a))))"

fun real_page_size_bytes :: "(string \<Rightarrow> int) \<Rightarrow> kv_cache_spec \<Rightarrow> int res" where
  "real_page_size_bytes gds (FullAttentionSpec a x) = Inr (kv_real_page_size gds a (head_size_v x))"
| "real_page_size_bytes gds (TQFullAttentionSpec a x t) =
     (if t > 0 then Inr (spec_block_size a * num_kv_heads a * t)
      else Inr (kv_real_page_size gds a (head_size_v x)))"
| "real_page_size_bytes gds (MLAAttentionSpec a x m) = Inr (mla_real_page_size gds a m)"
| "real_page_size_bytes gds (HiddenStateCacheSpec a x m) = Inr (mla_real_page_size gds a m)"
| "real_page_size_bytes gds (ChunkedLocalAttentionSpec a _) = Inr (attention_real_page_size gds a)"
| "real_page_size_bytes gds (SlidingWindowSpec a _ v) =
     (case v of None \<Rightarrow> Inl TypeError | Some hv \<Rightarrow> Inr (kv_real_page_size gds a hv))"
| "real_page_size_bytes gds (SlidingWindowMLASpec a _ _ m) = sliding_mla_real_page_size gds a m"
| "real_page_size_bytes gds (MambaSpec _) = Inl AttributeError"
| "real_page_size_bytes gds (EncoderOnlyAttentionSpec a) = Inr (attention_real_page_size gds a)"
| "real_page_size_bytes gds (CrossAttentionSpec a) = Inr (attention_real_page_size gds a)"
| "real_page_size_bytes gds (SinkFullAttentionSpec a x _) = Inr (kv_real_page_size gds a (head_size_v x))"
| "real_page_size_bytes gds (UniformTypeKVCacheSpecs _ _) = Inl AttributeError"

definition padded_page_size :: "int option \<Rightarrow> int \<Rightarrow> int res" where
  "padded_page_size padded real_size =
     (case padded of
        Some n \<Rightarrow> bindE (guardE (n \<ge> real_size) AssertionError) (\<lambda>_. Inr n)
      | None \<Rightarrow> Inr real_size)"

definition attention_page_size_bytes :: "(string \<Rightarrow> int) \<Rightarrow> attention_spec \<Rightarrow> int \<Rightarrow> int res" where
  "attention_page_size_bytes gds a real_size =
     padded_page_size (page_size_padded a)
       (if is_per_token_head (spec_quant_mode a)
        then real_size + 2 * spec_block_size a * num_kv_heads a * gds ''float32'' else real_size)"

definition mamba_page_size_bytes :: "(string \<Rightarrow> int) \<Rightarrow> mamba_spec \<Rightarrow> int res" where
  "mamba_page_size_bytes gds m =
     padded_page_size (mamba_page_size_padded m)
       (sum_list (map (\<lambda>(shape, dtype). prod_list shape * gds dtype) (zip (shapes m) (dtypes m))))"

fun page_size_bytes :: "(string \<Rightarrow> int) \<Rightarrow> kv_cache_spec \<Rightarrow> int res"
  and sum_page_sizes :: "(string \<Rightarrow> int) \<Rightarrow> (string \<times> kv_cache_spec) list \<Rightarrow> int res" where
  "page_size_bytes gds (UniformTypeKVCacheSpecs _ l) = sum_page_sizes gds l"
| "page_size_bytes gds (MambaSpec m) = mamba_page_size_bytes gds m"
| "page_size_bytes gds s =
     bindE (real_page_size_bytes gds s) (\<lambda>n.
       case attention_part s of
         Some a \<Rightarrow> attention_page_size_bytes gds a n
       | None \<Rightarrow> Inl AttributeError)"
| "sum_page_sizes gds [] = Inr 0"
| "sum_page_sizes gds ((_, s) # l) =
     bindE (page_size_bytes gds s) (\<lambda>n. bindE (sum_page_sizes gds l) (\<lambda>k. Inr (n + k)))"

subsection \<open>Construction\<close>

text \<open>\<^verbatim>\<open>__post_init__\<close>: the value head size defaults to the head size; an alignment pads the page.\<close>

definition default_head_size_v :: "attention_spec \<Rightarrow> int option \<Rightarrow> int" where
  "default_head_size_v a hv = (case hv of None \<Rightarrow> head_size a | Some n \<Rightarrow> n)"

definition apply_alignment_padding :: "int option \<Rightarrow> int \<Rightarrow> attention_spec \<Rightarrow> attention_spec" where
  "apply_alignment_padding al actual a =
     (case al of
        None \<Rightarrow> a
      | Some y \<Rightarrow>
          let padded = round_up actual y
          in if padded \<noteq> actual then a\<lparr>page_size_padded := Some padded\<rparr> else a)"

definition new_full_spec :: "attention_spec \<Rightarrow> int option \<Rightarrow> int option \<Rightarrow> int option \<Rightarrow> kv_cache_spec" where
  "new_full_spec a hv sw cs =
     FullAttentionSpec a \<lparr>head_size_v = default_head_size_v a hv, full_sliding_window = sw, full_chunk_size = cs\<rparr>"

definition new_sliding_spec :: "attention_spec \<Rightarrow> int \<Rightarrow> int option \<Rightarrow> kv_cache_spec" where
  "new_sliding_spec a sw hv = SlidingWindowSpec a sw (Some (default_head_size_v a hv))"

definition new_mla_spec ::
  "(string \<Rightarrow> int) \<Rightarrow> attention_spec \<Rightarrow> int option \<Rightarrow> mla_fields \<Rightarrow> kv_cache_spec" where
  "new_mla_spec gds a hv m =
     MLAAttentionSpec (apply_alignment_padding (alignment m) (mla_real_page_size gds a m) a)
       \<lparr>head_size_v = default_head_size_v a hv, full_sliding_window = None, full_chunk_size = None\<rparr> m"

definition new_sliding_mla_spec ::
  "(string \<Rightarrow> int) \<Rightarrow> attention_spec \<Rightarrow> int \<Rightarrow> int option \<Rightarrow> mla_fields \<Rightarrow> kv_cache_spec res" where
  "new_sliding_mla_spec gds a sw hv m =
     (if alignment m = None then Inr (SlidingWindowMLASpec a sw hv m)
      else bindE (sliding_mla_real_page_size gds a m) (\<lambda>n.
        Inr (SlidingWindowMLASpec (apply_alignment_padding (alignment m) n a) sw hv m)))"

definition copy_with_new_block_size :: "int \<Rightarrow> kv_cache_spec \<Rightarrow> kv_cache_spec" where
  "copy_with_new_block_size b s =
     (case s of
        MambaSpec m \<Rightarrow> MambaSpec (m\<lparr>mamba_block_size := b\<rparr>)
      | UniformTypeKVCacheSpecs _ l \<Rightarrow> UniformTypeKVCacheSpecs b l
      | _ \<Rightarrow> map_attention (\<lambda>a. a\<lparr>spec_block_size := b\<rparr>) s)"

subsection \<open>Memory bounds\<close>

record mem_config =
  max_model_len :: int
  decode_context_parallel_size :: int
  prefill_context_parallel_size :: int
  max_num_batched_tokens :: int
  config_mamba_cache_mode :: string
  max_num_encoder_input_tokens :: int

definition full_max_blocks :: "mem_config \<Rightarrow> int \<Rightarrow> int" where
  "full_max_blocks c bs =
     (let world = decode_context_parallel_size c * prefill_context_parallel_size c;
          len = (if world > 1 then cdiv (max_model_len c) world else max_model_len c)
      in cdiv len bs)"

definition chunked_max_admission_blocks :: "int \<Rightarrow> int \<Rightarrow> int \<Rightarrow> int \<Rightarrow> int" where
  "chunked_max_admission_blocks bs chunk batched len = cdiv (min (chunk + batched) len) bs"

definition sliding_max_admission_blocks :: "int \<Rightarrow> int \<Rightarrow> int \<Rightarrow> int \<Rightarrow> int" where
  "sliding_max_admission_blocks bs window batched len = cdiv (min (window - 1 + batched) len) bs + 1"

definition max_admission_blocks_per_request :: "kv_cache_spec \<Rightarrow> int \<Rightarrow> int \<Rightarrow> int option" where
  "max_admission_blocks_per_request s batched len =
     (case s of
        ChunkedLocalAttentionSpec a cs \<Rightarrow> Some (chunked_max_admission_blocks (spec_block_size a) cs batched len)
      | SlidingWindowSpec a w _ \<Rightarrow> Some (sliding_max_admission_blocks (spec_block_size a) w batched len)
      | SlidingWindowMLASpec a w _ _ \<Rightarrow> Some (sliding_max_admission_blocks (spec_block_size a) w batched len)
      | _ \<Rightarrow> None)"

definition mamba_max_pages :: "mem_config \<Rightarrow> mamba_spec \<Rightarrow> int" where
  "mamba_max_pages c m =
     (if config_mamba_cache_mode c = ''all''
      then cdiv (max_model_len c) (mamba_block_size m) + num_speculative_blocks m
      else if config_mamba_cache_mode c = ''align'' then 2 + num_speculative_blocks m
      else 1 + num_speculative_blocks m)"

definition times_page :: "(string \<Rightarrow> int) \<Rightarrow> kv_cache_spec \<Rightarrow> int \<Rightarrow> int res" where
  "times_page gds s n = bindE (page_size_bytes gds s) (\<lambda>p. Inr (n * p))"

definition max_of :: "int list \<Rightarrow> int res" where
  "max_of xs = (case xs of [] \<Rightarrow> Inl ValueError | y # ys \<Rightarrow> Inr (fold max ys y))"

text \<open>
  \<^verbatim>\<open>max_memory_usage_bytes\<close> of every class. For a uniform collection the number of pages of each layer
  is computed first (\<open>layer_pages\<close>); the maximum of them is \<^verbatim>\<open>max_memory_usage_pages\<close>.
\<close>

fun max_memory_usage_bytes :: "(string \<Rightarrow> int) \<Rightarrow> mem_config \<Rightarrow> kv_cache_spec \<Rightarrow> int res"
  and layer_pages :: "(string \<Rightarrow> int) \<Rightarrow> mem_config \<Rightarrow> (string \<times> kv_cache_spec) list \<Rightarrow> int list res" where
  "max_memory_usage_bytes gds c (ChunkedLocalAttentionSpec a cs) =
     times_page gds (ChunkedLocalAttentionSpec a cs)
       (chunked_max_admission_blocks (spec_block_size a) cs (max_num_batched_tokens c) (max_model_len c))"
| "max_memory_usage_bytes gds c (SlidingWindowSpec a w v) =
     bindE (guardE (decode_context_parallel_size c = 1) AssertionError) (\<lambda>_.
       times_page gds (SlidingWindowSpec a w v)
         (sliding_max_admission_blocks (spec_block_size a) w (max_num_batched_tokens c) (max_model_len c)))"
| "max_memory_usage_bytes gds c (SlidingWindowMLASpec a w v m) =
     bindE (guardE (decode_context_parallel_size c = 1) AssertionError) (\<lambda>_.
       times_page gds (SlidingWindowMLASpec a w v m)
         (sliding_max_admission_blocks (spec_block_size a) w (max_num_batched_tokens c) (max_model_len c)))"
| "max_memory_usage_bytes gds c (MambaSpec m) = times_page gds (MambaSpec m) (mamba_max_pages c m)"
| "max_memory_usage_bytes gds c (EncoderOnlyAttentionSpec a) = Inr 0"
| "max_memory_usage_bytes gds c (CrossAttentionSpec a) =
     times_page gds (CrossAttentionSpec a) (cdiv (max_num_encoder_input_tokens c) (spec_block_size a))"
| "max_memory_usage_bytes gds c (UniformTypeKVCacheSpecs b l) =
     bindE (layer_pages gds c l) (\<lambda>ps.
       bindE (max_of ps) (\<lambda>n. times_page gds (UniformTypeKVCacheSpecs b l) n))"
| "max_memory_usage_bytes gds c s = times_page gds s (full_max_blocks c (block_size_of s))"
| "layer_pages gds c [] = Inr []"
| "layer_pages gds c ((_, s) # l) =
     bindE (max_memory_usage_bytes gds c s) (\<lambda>mem.
       bindE (page_size_bytes gds s) (\<lambda>p.
         bindE (guardE (p \<noteq> 0) ZeroDivisionError) (\<lambda>_.
           bindE (layer_pages gds c l) (\<lambda>ps. Inr (cdiv mem p # ps)))))"

definition max_memory_usage_pages ::
  "(string \<Rightarrow> int) \<Rightarrow> mem_config \<Rightarrow> (string \<times> kv_cache_spec) list \<Rightarrow> int res" where
  "max_memory_usage_pages gds c l = bindE (layer_pages gds c l) max_of"

section \<open>Merging the layers of a group\<close>

definition is_full_instance :: "kv_cache_spec \<Rightarrow> bool" where
  "is_full_instance s =
     (case s of FullAttentionSpec _ _ \<Rightarrow> True | TQFullAttentionSpec _ _ _ \<Rightarrow> True
      | MLAAttentionSpec _ _ _ \<Rightarrow> True | HiddenStateCacheSpec _ _ _ \<Rightarrow> True
      | SinkFullAttentionSpec _ _ _ \<Rightarrow> True | _ \<Rightarrow> False)"

definition is_mla_instance :: "kv_cache_spec \<Rightarrow> bool" where
  "is_mla_instance s =
     (case s of MLAAttentionSpec _ _ _ \<Rightarrow> True | HiddenStateCacheSpec _ _ _ \<Rightarrow> True | _ \<Rightarrow> False)"

definition is_sliding_instance :: "kv_cache_spec \<Rightarrow> bool" where
  "is_sliding_instance s =
     (case s of SlidingWindowSpec _ _ _ \<Rightarrow> True | SlidingWindowMLASpec _ _ _ _ \<Rightarrow> True | _ \<Rightarrow> False)"

definition full_part :: "kv_cache_spec \<Rightarrow> full_fields option" where
  "full_part s =
     (case s of FullAttentionSpec _ x \<Rightarrow> Some x | TQFullAttentionSpec _ x _ \<Rightarrow> Some x
      | MLAAttentionSpec _ x _ \<Rightarrow> Some x | HiddenStateCacheSpec _ x _ \<Rightarrow> Some x
      | SinkFullAttentionSpec _ x _ \<Rightarrow> Some x | _ \<Rightarrow> None)"

text \<open>Python sets built from a list of values; only their size and single element are used.\<close>

definition merge_window_sizes :: "int list \<Rightarrow> int option res" where
  "merge_window_sizes ws =
     (case remdups ws of [] \<Rightarrow> Inr None | [w] \<Rightarrow> Inr (Some w) | _ \<Rightarrow> Inl ValueError)"

definition all_same :: "'a list \<Rightarrow> bool" where
  "all_same xs \<longleftrightarrow> length (remdups xs) = 1"

text \<open>
  The body that \<^verbatim>\<open>FullAttentionSpec.merge\<close> and \<^verbatim>\<open>SinkFullAttentionSpec.merge\<close> share; \<open>mk\<close> builds an
  object of the class from the fields of the first spec.
\<close>

definition full_merge_checks :: "kv_cache_spec list \<Rightarrow> unit res" where
  "full_merge_checks specs =
     bindE (guardE (\<forall>s \<in> set specs. is_full_instance s) AssertionError) (\<lambda>_.
       guardE (\<not> (\<exists>s \<in> set specs. is_mla_instance s)) AssertionError)"

definition full_merge_with ::
  "(attention_spec \<Rightarrow> full_fields \<Rightarrow> kv_cache_spec) \<Rightarrow> kv_cache_spec list \<Rightarrow> kv_cache_spec res" where
  "full_merge_with mk specs =
     bindE (full_merge_checks specs) (\<lambda>_.
       let parts = List.map_filter full_part specs
       in case specs of
            [] \<Rightarrow> Inl IndexError
          | s0 # _ \<Rightarrow>
              (case (attention_part s0, full_part s0) of
                 (Some a, Some x) \<Rightarrow>
                   bindE (merge_window_sizes (List.map_filter full_sliding_window parts)) (\<lambda>sw.
                   bindE (merge_window_sizes (List.map_filter full_chunk_size parts)) (\<lambda>cs.
                   bindE (guardE (\<forall>s \<in> set specs. attention_part s = Some a) AssertionError) (\<lambda>_.
                   bindE (guardE (sw = None \<or> cs = None) AssertionError) (\<lambda>_.
                     Inr (mk a \<lparr>head_size_v = head_size_v x, full_sliding_window = sw, full_chunk_size = cs\<rparr>)))))
               | _ \<Rightarrow> Inl AttributeError))"

definition full_merge :: "kv_cache_spec list \<Rightarrow> kv_cache_spec res" where
  "full_merge specs = full_merge_with FullAttentionSpec specs"

definition tq_slot_of :: "kv_cache_spec \<Rightarrow> int option" where
  "tq_slot_of s = (case s of TQFullAttentionSpec _ _ t \<Rightarrow> Some t | _ \<Rightarrow> None)"

definition tq_merge :: "kv_cache_spec list \<Rightarrow> kv_cache_spec res" where
  "tq_merge specs =
     (case specs of
        TQFullAttentionSpec _ _ t # _ \<Rightarrow>
          bindE (full_merge_with (\<lambda>a x. TQFullAttentionSpec a x t) specs) (\<lambda>merged.
            case List.find (\<lambda>s. tq_slot_of s \<noteq> Some t) specs of
              None \<Rightarrow> Inr merged
            | Some s \<Rightarrow> Inl (if tq_slot_of s = None then AttributeError else AssertionError))
      | _ \<Rightarrow> bindE (full_merge_with (\<lambda>a x. TQFullAttentionSpec a x 0) specs) (\<lambda>_. Inl AttributeError))"

definition sink_merge :: "kv_cache_spec list \<Rightarrow> kv_cache_spec res" where
  "sink_merge specs =
     (case specs of
        SinkFullAttentionSpec _ _ k # _ \<Rightarrow> full_merge_with (\<lambda>a x. SinkFullAttentionSpec a x k) specs
      | _ \<Rightarrow> bindE (full_merge_checks specs) (\<lambda>_.
               Inl (if specs = [] then IndexError else AttributeError)))"

definition mla_part :: "kv_cache_spec \<Rightarrow> mla_fields option" where
  "mla_part s =
     (case s of MLAAttentionSpec _ _ m \<Rightarrow> Some m | HiddenStateCacheSpec _ _ m \<Rightarrow> Some m
      | SlidingWindowMLASpec _ _ _ m \<Rightarrow> Some m | _ \<Rightarrow> None)"

definition same_mla_fields :: "mla_fields list \<Rightarrow> bool" where
  "same_mla_fields ms \<longleftrightarrow>
     all_same (map cache_dtype_str ms) \<and> all_same (map compress_ratio ms) \<and> all_same (map model_version ms)"

definition mla_merge ::
  "(attention_spec \<Rightarrow> full_fields \<Rightarrow> mla_fields \<Rightarrow> kv_cache_spec) \<Rightarrow> kv_cache_spec list \<Rightarrow> kv_cache_spec res" where
  "mla_merge mk specs =
     bindE (guardE (\<forall>s \<in> set specs. is_mla_instance s) AssertionError) (\<lambda>_.
       let ms = List.map_filter mla_part specs
       in bindE (guardE (same_mla_fields ms) AssertionError) (\<lambda>_.
            case (map attention_part specs, ms) of
              (Some a # _, m # _) \<Rightarrow>
                Inr (mk a \<lparr>head_size_v = head_size a, full_sliding_window = None, full_chunk_size = None\<rparr>
                       (m\<lparr>alignment := None\<rparr>))
            | _ \<Rightarrow> Inl IndexError))"

definition sliding_window_of :: "kv_cache_spec \<Rightarrow> int option" where
  "sliding_window_of s =
     (case s of SlidingWindowSpec _ w _ \<Rightarrow> Some w | SlidingWindowMLASpec _ w _ _ \<Rightarrow> Some w | _ \<Rightarrow> None)"

definition is_sliding_mla_instance :: "kv_cache_spec \<Rightarrow> bool" where
  "is_sliding_mla_instance s = (case s of SlidingWindowMLASpec _ _ _ _ \<Rightarrow> True | _ \<Rightarrow> False)"

text \<open>The merged object is built without \<^verbatim>\<open>kv_quant_mode\<close>, which takes its default.\<close>

definition sliding_mla_merge :: "kv_cache_spec list \<Rightarrow> kv_cache_spec res" where
  "sliding_mla_merge specs =
     bindE (guardE (\<forall>s \<in> set specs. is_sliding_mla_instance s) AssertionError) (\<lambda>_.
       let ms = List.map_filter mla_part specs; ws = List.map_filter sliding_window_of specs
       in bindE (guardE (same_mla_fields ms \<and> all_same ws) AssertionError) (\<lambda>_.
            case (map attention_part specs, ms, ws) of
              (Some a # _, m # _, w # _) \<Rightarrow>
                Inr (SlidingWindowMLASpec (a\<lparr>spec_quant_mode := Quant_None\<rparr>) w None (m\<lparr>alignment := None\<rparr>))
            | _ \<Rightarrow> Inl IndexError))"

definition base_merge :: "kv_cache_spec list \<Rightarrow> kv_cache_spec res" where
  "base_merge specs =
     (case specs of
        [] \<Rightarrow> Inl IndexError
      | s0 # rest \<Rightarrow> bindE (guardE (\<forall>s \<in> set rest. s = s0) AssertionError) (\<lambda>_. Inr s0))"

text \<open>\<^verbatim>\<open>specs[0].merge(specs)\<close>: the class of the first spec selects the method.\<close>

definition merge_specs :: "kv_cache_spec list \<Rightarrow> kv_cache_spec res" where
  "merge_specs specs =
     (case specs of
        [] \<Rightarrow> Inl IndexError
      | FullAttentionSpec _ _ # _ \<Rightarrow> full_merge specs
      | TQFullAttentionSpec _ _ _ # _ \<Rightarrow> tq_merge specs
      | SinkFullAttentionSpec _ _ _ # _ \<Rightarrow> sink_merge specs
      | MLAAttentionSpec _ _ _ # _ \<Rightarrow> mla_merge MLAAttentionSpec specs
      | HiddenStateCacheSpec _ _ _ # _ \<Rightarrow> mla_merge HiddenStateCacheSpec specs
      | SlidingWindowMLASpec _ _ _ _ # _ \<Rightarrow> sliding_mla_merge specs
      | _ \<Rightarrow> base_merge specs)"

section \<open>Kinds, registry and uniform collections\<close>

datatype spec_kind =
  Kind_Full | Kind_MLA | Kind_Sliding | Kind_Sliding_MLA | Kind_Mamba | Kind_Chunked_Local
  | Kind_Sink_Full | Kind_Encoder_Only | Kind_Cross | Kind_Unknown

definition single :: "'a list \<Rightarrow> 'a option" where
  "single xs = (case remdups xs of [x] \<Rightarrow> Some x | _ \<Rightarrow> None)"

fun get_kv_cache_spec_kind :: "kv_cache_spec \<Rightarrow> spec_kind"
  and layer_kinds :: "(string \<times> kv_cache_spec) list \<Rightarrow> spec_kind list" where
  "get_kv_cache_spec_kind (UniformTypeKVCacheSpecs _ l) =
     (case single (layer_kinds l) of Some k \<Rightarrow> k | None \<Rightarrow> Kind_Unknown)"
| "get_kv_cache_spec_kind (SlidingWindowMLASpec _ _ _ _) = Kind_Sliding_MLA"
| "get_kv_cache_spec_kind (MLAAttentionSpec _ _ _) = Kind_MLA"
| "get_kv_cache_spec_kind (HiddenStateCacheSpec _ _ _) = Kind_MLA"
| "get_kv_cache_spec_kind (SinkFullAttentionSpec _ _ _) = Kind_Sink_Full"
| "get_kv_cache_spec_kind (FullAttentionSpec _ _) = Kind_Full"
| "get_kv_cache_spec_kind (TQFullAttentionSpec _ _ _) = Kind_Full"
| "get_kv_cache_spec_kind (ChunkedLocalAttentionSpec _ _) = Kind_Chunked_Local"
| "get_kv_cache_spec_kind (SlidingWindowSpec _ _ _) = Kind_Sliding"
| "get_kv_cache_spec_kind (MambaSpec _) = Kind_Mamba"
| "get_kv_cache_spec_kind (EncoderOnlyAttentionSpec _) = Kind_Encoder_Only"
| "get_kv_cache_spec_kind (CrossAttentionSpec _) = Kind_Cross"
| "layer_kinds [] = []"
| "layer_kinds ((_, s) # l) = get_kv_cache_spec_kind s # layer_kinds l"

fun get_kv_cache_spec_sliding_window :: "kv_cache_spec \<Rightarrow> int option"
  and layer_windows :: "(string \<times> kv_cache_spec) list \<Rightarrow> int option list" where
  "get_kv_cache_spec_sliding_window (UniformTypeKVCacheSpecs _ l) =
     (case single (layer_windows l) of Some w \<Rightarrow> w | None \<Rightarrow> None)"
| "get_kv_cache_spec_sliding_window s = sliding_window_of s"
| "layer_windows [] = []"
| "layer_windows ((_, s) # l) = get_kv_cache_spec_sliding_window s # layer_windows l"

text \<open>Classes, their method resolution order, and the registry keyed by class.\<close>

datatype spec_class =
  C_KVCacheSpec | C_AttentionSpec | C_Full | C_TQ | C_MLA | C_Hidden | C_Chunked | C_Sliding
  | C_Sliding_MLA | C_Mamba | C_Encoder_Only | C_Cross | C_Sink | C_Uniform

datatype manager_class =
  FullAttentionManager | SlidingWindowManager | ChunkedLocalAttentionManager | MambaManager
  | CrossAttentionManager | SinkFullAttentionManager

definition class_of_spec :: "kv_cache_spec \<Rightarrow> spec_class" where
  "class_of_spec s =
     (case s of FullAttentionSpec _ _ \<Rightarrow> C_Full | TQFullAttentionSpec _ _ _ \<Rightarrow> C_TQ
      | MLAAttentionSpec _ _ _ \<Rightarrow> C_MLA | HiddenStateCacheSpec _ _ _ \<Rightarrow> C_Hidden
      | ChunkedLocalAttentionSpec _ _ \<Rightarrow> C_Chunked | SlidingWindowSpec _ _ _ \<Rightarrow> C_Sliding
      | SlidingWindowMLASpec _ _ _ _ \<Rightarrow> C_Sliding_MLA | MambaSpec _ \<Rightarrow> C_Mamba
      | EncoderOnlyAttentionSpec _ \<Rightarrow> C_Encoder_Only | CrossAttentionSpec _ \<Rightarrow> C_Cross
      | SinkFullAttentionSpec _ _ _ \<Rightarrow> C_Sink | UniformTypeKVCacheSpecs _ _ \<Rightarrow> C_Uniform)"

definition mro :: "spec_class \<Rightarrow> spec_class list" where
  "mro c =
     (case c of
        C_KVCacheSpec \<Rightarrow> [C_KVCacheSpec]
      | C_AttentionSpec \<Rightarrow> [C_AttentionSpec, C_KVCacheSpec]
      | C_Full \<Rightarrow> [C_Full, C_AttentionSpec, C_KVCacheSpec]
      | C_TQ \<Rightarrow> [C_TQ, C_Full, C_AttentionSpec, C_KVCacheSpec]
      | C_MLA \<Rightarrow> [C_MLA, C_Full, C_AttentionSpec, C_KVCacheSpec]
      | C_Hidden \<Rightarrow> [C_Hidden, C_MLA, C_Full, C_AttentionSpec, C_KVCacheSpec]
      | C_Chunked \<Rightarrow> [C_Chunked, C_AttentionSpec, C_KVCacheSpec]
      | C_Sliding \<Rightarrow> [C_Sliding, C_AttentionSpec, C_KVCacheSpec]
      | C_Sliding_MLA \<Rightarrow> [C_Sliding_MLA, C_Sliding, C_AttentionSpec, C_KVCacheSpec]
      | C_Mamba \<Rightarrow> [C_Mamba, C_KVCacheSpec]
      | C_Encoder_Only \<Rightarrow> [C_Encoder_Only, C_AttentionSpec, C_KVCacheSpec]
      | C_Cross \<Rightarrow> [C_Cross, C_AttentionSpec, C_KVCacheSpec]
      | C_Sink \<Rightarrow> [C_Sink, C_Full, C_AttentionSpec, C_KVCacheSpec]
      | C_Uniform \<Rightarrow> [C_Uniform, C_KVCacheSpec])"

type_synonym registry = "(spec_class \<times> (manager_class \<times> spec_class)) list"

definition register ::
  "spec_class \<Rightarrow> manager_class option \<Rightarrow> spec_class option \<Rightarrow> registry \<Rightarrow> registry res" where
  "register c mgr base reg =
     (case mgr of
        None \<Rightarrow> Inl AssertionError
      | Some k \<Rightarrow>
          let b = (case base of None \<Rightarrow> c | Some b \<Rightarrow> b)
          in bindE (guardE (b \<in> set (mro c)) AssertionError) (\<lambda>_.
             bindE (guardE (map_of reg c = None \<or> map_of reg c = Some (k, b)) AssertionError) (\<lambda>_.
               Inr (AList.update c (k, b) reg))))"

definition builtin_registrations :: "(spec_class \<times> manager_class \<times> spec_class) list" where
  "builtin_registrations =
     [(C_Full, FullAttentionManager, C_Full), (C_Sliding, SlidingWindowManager, C_Sliding),
      (C_Sliding_MLA, SlidingWindowManager, C_Sliding_MLA), (C_Mamba, MambaManager, C_Mamba),
      (C_Chunked, ChunkedLocalAttentionManager, C_Chunked), (C_Cross, CrossAttentionManager, C_Cross),
      (C_TQ, FullAttentionManager, C_Full), (C_MLA, FullAttentionManager, C_Full),
      (C_Hidden, FullAttentionManager, C_Full), (C_Sink, SinkFullAttentionManager, C_Full)]"

definition register_all_kvcache_specs :: "registry \<Rightarrow> registry res" where
  "register_all_kvcache_specs reg =
     foldE (\<lambda>(c, k, b) r. register c (Some k) (Some b) r) builtin_registrations reg"

text \<open>The first registered class in the resolution order.\<close>

definition registry_lookup :: "registry \<Rightarrow> kv_cache_spec \<Rightarrow> (manager_class \<times> spec_class) option" where
  "registry_lookup reg s =
     (case List.map_filter (map_of reg) (mro (class_of_spec s)) of [] \<Rightarrow> None | e # _ \<Rightarrow> Some e)"

definition get_manager_class :: "registry \<Rightarrow> kv_cache_spec \<Rightarrow> manager_class option" where
  "get_manager_class reg s = map_option fst (registry_lookup reg s)"

definition get_uniform_type_base_spec :: "registry \<Rightarrow> kv_cache_spec \<Rightarrow> spec_class option" where
  "get_uniform_type_base_spec reg s = map_option snd (registry_lookup reg s)"

definition check_kv_cache_spec_registry :: "registry \<Rightarrow> (string \<times> kv_cache_spec) list \<Rightarrow> unit res" where
  "check_kv_cache_spec_registry reg l =
     guardE (\<forall>(_, s) \<in> set l. get_uniform_type_base_spec reg s \<noteq> None \<and> get_manager_class reg s \<noteq> None) ValueError"

definition is_instance :: "kv_cache_spec \<Rightarrow> spec_class \<Rightarrow> bool" where
  "is_instance s c \<longleftrightarrow> c \<in> set (mro (class_of_spec s))"

definition is_uniform_with_collection :: "registry \<Rightarrow> kv_cache_spec \<Rightarrow> kv_cache_spec list \<Rightarrow> bool res" where
  "is_uniform_with_collection reg s specs =
     (case s of
        ChunkedLocalAttentionSpec _ cs \<Rightarrow>
          Inr (\<forall>t \<in> set specs. case t of ChunkedLocalAttentionSpec _ cs' \<Rightarrow> cs' = cs | _ \<Rightarrow> False)
      | SlidingWindowSpec _ w _ \<Rightarrow> Inr (\<forall>t \<in> set specs. sliding_window_of t = Some w)
      | SlidingWindowMLASpec _ w _ _ \<Rightarrow>
          Inr (\<forall>t \<in> set specs. is_sliding_mla_instance t \<and> sliding_window_of t = Some w)
      | MambaSpec m \<Rightarrow>
          Inr (\<forall>t \<in> set specs.
                 case t of MambaSpec m' \<Rightarrow> num_speculative_blocks m' = num_speculative_blocks m | _ \<Rightarrow> False)
      | _ \<Rightarrow> (case get_uniform_type_base_spec reg s of
               None \<Rightarrow> Inl AssertionError
             | Some c \<Rightarrow> Inr (\<forall>t \<in> set specs. is_instance t c)))"

definition is_uniform_type :: "registry \<Rightarrow> (string \<times> kv_cache_spec) list \<Rightarrow> bool res" where
  "is_uniform_type reg l =
     (if length (remdups (map (block_size_of \<circ> snd) l)) > 1 then Inr False
      else case l of
             [] \<Rightarrow> Inl StopIteration
           | (_, s) # _ \<Rightarrow> is_uniform_with_collection reg s (map snd l))"

definition uniform_from_specs :: "registry \<Rightarrow> (string \<times> kv_cache_spec) list \<Rightarrow> kv_cache_spec option res" where
  "uniform_from_specs reg l =
     bindE (is_uniform_type reg l) (\<lambda>u.
       if u then Inr (Some (UniformTypeKVCacheSpecs (block_size_of (snd (hd l))) l)) else Inr None)"

definition get_num_layer_tuples :: "(string \<Rightarrow> int) \<Rightarrow> (string \<times> kv_cache_spec) list \<Rightarrow> nat res" where
  "get_num_layer_tuples gds l =
     bindE (foldE (\<lambda>(_, s) ps. bindE (page_size_bytes gds s) (\<lambda>p. Inr (ps @ [p]))) l []) (\<lambda>ps.
       if ps = [] then Inl IndexError else Inr (fold max (map (count_list ps) ps) 0))"

section \<open>Merged groups\<close>

lemma merge_window_sizes_Inr:
  assumes "merge_window_sizes ws = Inr r"
  shows "\<forall>w \<in> set ws. r = Some w" and "r = Some v \<Longrightarrow> v \<in> set ws"
proof -
  have "set (remdups ws) = set ws" by simp
  moreover have "remdups ws = [] \<and> r = None \<or> (\<exists>w. remdups ws = [w] \<and> r = Some w)"
    using assms by (auto simp: merge_window_sizes_def split: list.splits)
  ultimately consider "set ws = {}" "r = None" | w where "set ws = {w}" "r = Some w"
    by (metis list.set(1) list.simps(15))
  thus "\<forall>w \<in> set ws. r = Some w" "r = Some v \<Longrightarrow> v \<in> set ws" by (cases; simp)+
qed

lemma full_merge_with_Inr:
  assumes "full_merge_with mk specs = Inr m"
  obtains a x sw cs where "specs \<noteq> []" "m = mk a \<lparr>head_size_v = x, full_sliding_window = sw, full_chunk_size = cs\<rparr>"
    "attention_part (hd specs) = Some a" "full_merge_checks specs = Inr ()"
    "\<forall>s \<in> set specs. attention_part s = Some a" "sw = None \<or> cs = None"
    "merge_window_sizes (List.map_filter full_sliding_window (List.map_filter full_part specs)) = Inr sw"
    "merge_window_sizes (List.map_filter full_chunk_size (List.map_filter full_part specs)) = Inr cs"
  using assms
  by (fastforce simp: full_merge_with_def err_simps Let_def split: list.splits option.splits)

lemma map_filter_mem: "y \<in> set (List.map_filter f xs) \<longleftrightarrow> (\<exists>x \<in> set xs. f x = Some y)"
  by (induction xs) (auto simp: List.map_filter_def)

text \<open>
  C32: merging the full-attention layers of a group succeeds only when all of them are full-attention
  layers, none uses the MLA format and all have the same inherited fields; the merged spec then has
  those fields, its sliding window (chunk size) is the one every layer that has a window (chunk size)
  uses, and it never has both.
\<close>

theorem full_merge_correct:
  assumes "full_merge specs = Inr m"
  shows "\<exists>a x. m = FullAttentionSpec a x \<and>
    (full_sliding_window x = None \<or> full_chunk_size x = None) \<and>
    (\<forall>s \<in> set specs. is_full_instance s \<and> \<not> is_mla_instance s \<and> attention_part s = Some a \<and>
       (\<forall>y. full_part s = Some y \<longrightarrow>
          full_sliding_window y \<in> {None, full_sliding_window x} \<and>
          full_chunk_size y \<in> {None, full_chunk_size x})) \<and>
    (\<forall>w. full_sliding_window x = Some w \<longrightarrow>
       (\<exists>s \<in> set specs. \<exists>y. full_part s = Some y \<and> full_sliding_window y = Some w))"
proof -
  obtain a v sw cs where m: "m = FullAttentionSpec a \<lparr>head_size_v = v, full_sliding_window = sw, full_chunk_size = cs\<rparr>"
    and chk: "full_merge_checks specs = Inr ()" and att: "\<forall>s \<in> set specs. attention_part s = Some a"
    and one: "sw = None \<or> cs = None"
    and sw: "merge_window_sizes (List.map_filter full_sliding_window (List.map_filter full_part specs)) = Inr sw"
    and cs: "merge_window_sizes (List.map_filter full_chunk_size (List.map_filter full_part specs)) = Inr cs"
    using full_merge_with_Inr [OF assms [unfolded full_merge_def]] by metis
  have inst: "\<forall>s \<in> set specs. is_full_instance s \<and> \<not> is_mla_instance s"
    using chk by (auto simp: full_merge_checks_def err_simps)
  have w: "full_sliding_window y \<in> {None, sw}" "full_chunk_size y \<in> {None, cs}"
    if "s \<in> set specs" "full_part s = Some y" for s y
    using merge_window_sizes_Inr(1) [OF sw] merge_window_sizes_Inr(1) [OF cs] that
    by (cases "full_sliding_window y"; cases "full_chunk_size y"; fastforce simp: map_filter_mem)+
  have ex: "\<exists>s \<in> set specs. \<exists>y. full_part s = Some y \<and> full_sliding_window y = Some w" if "sw = Some w" for w
    using merge_window_sizes_Inr(2) [OF sw that] by (simp only: map_filter_mem Bex_def) blast
  show ?thesis unfolding m using inst att one w ex by fastforce
qed

definition demo_attention :: attention_spec where
  "demo_attention = \<lparr>spec_block_size = 16, num_kv_heads = 8, head_size = 64, spec_dtype = ''bfloat16'',
     spec_quant_mode = Quant_None, page_size_padded = None\<rparr>"

theorem full_merge_correct_witness:
  "full_merge [new_full_spec demo_attention None None None, new_full_spec demo_attention None (Some 128) None]
     = Inr (new_full_spec demo_attention None (Some 128) None) \<and>
   is_full_instance (new_full_spec demo_attention None None None)"
proof -
  let ?s = "[new_full_spec demo_attention None None None, new_full_spec demo_attention None (Some 128) None]"
  have m: "full_merge ?s = Inr (new_full_spec demo_attention None (Some 128) None)"
    by (simp add: full_merge_def full_merge_with_def full_merge_checks_def new_full_spec_def is_full_instance_def
        is_mla_instance_def full_part_def List.map_filter_simps merge_window_sizes_def)
  show ?thesis using m full_merge_correct [OF m] by auto
qed

text \<open>
  The merge of sliding-window MLA layers drops the quantisation mode: merging one layer with itself
  already changes its page size when the layer keeps per-token-head scales.
\<close>

lemma sliding_mla_merge_drops_quant:
  fixes a m w gds
  defines "q \<equiv> a\<lparr>spec_quant_mode := INT8_Per_Token_Head, page_size_padded := None\<rparr>"
  assumes "0 < spec_block_size a" "0 < num_kv_heads a" "0 < gds ''float32''" "model_version m = None"
  shows "\<exists>s n k. merge_specs [SlidingWindowMLASpec q w None m] = Inr s \<and>
    page_size_bytes gds s = Inr n \<and> page_size_bytes gds (SlidingWindowMLASpec q w None m) = Inr k \<and> n < k"
  using assms
  by (simp add: merge_specs_def sliding_mla_merge_def is_sliding_mla_instance_def mla_part_def
      sliding_window_of_def List.map_filter_simps same_mla_fields_def all_same_def
      sliding_mla_real_page_size_def attention_page_size_bytes_def padded_page_size_def
      is_per_token_head_def storage_block_size_def)

section \<open>Page sizes and memory bounds\<close>

lemma round_up_bounds:
  assumes "0 < y"
  shows "y dvd round_up x y" "x \<le> round_up x y" "round_up x y < x + y"
proof -
  define z where "z = x + y - 1"
  have "z div y * y + z mod y = z" by simp
  moreover have "0 \<le> z mod y" "z mod y < y" using assms by simp_all
  ultimately show "x \<le> round_up x y" "round_up x y < x + y"
    unfolding round_up_def z_def [symmetric] using z_def by linarith+
  show "y dvd round_up x y" by (simp add: round_up_def)
qed

text \<open>
  C34: the page of an MLA layer built with an alignment and without explicit padding or per-token scales
  is a multiple of the alignment, holds the real page and wastes less than one alignment unit.
\<close>

theorem mla_page_aligned:
  assumes "alignment m = Some y" "0 < y" "page_size_padded a = None" "\<not> is_per_token_head (spec_quant_mode a)"
  shows "\<exists>n. page_size_bytes gds (new_mla_spec gds a hv m) = Inr n \<and> y dvd n \<and>
    mla_real_page_size gds a m \<le> n \<and> n < mla_real_page_size gds a m + y"
proof -
  let ?r = "mla_real_page_size gds a m"
  let ?a = "apply_alignment_padding (alignment m) ?r a"
  have same: "mla_real_page_size gds ?a m = ?r" "spec_quant_mode ?a = spec_quant_mode a"
    using assms(1) by (simp_all add: apply_alignment_padding_def Let_def mla_real_page_size_def storage_block_size_def)
  have "page_size_bytes gds (new_mla_spec gds a hv m) = padded_page_size (page_size_padded ?a) ?r"
    using assms(4) same by (simp add: new_mla_spec_def attention_page_size_bytes_def)
  also have "\<dots> = Inr (round_up ?r y)"
    using assms(1,3) round_up_bounds(2) [OF assms(2), of ?r]
    by (simp add: apply_alignment_padding_def Let_def padded_page_size_def)
  finally show ?thesis using round_up_bounds [OF assms(2), of ?r] by simp
qed

theorem mla_page_aligned_witness:
  "\<exists>n. page_size_bytes (\<lambda>_. 2) (new_mla_spec (\<lambda>_. 2) demo_attention None
     \<lparr>cache_dtype_str = None, alignment = Some 576, compress_ratio = 1, model_version = None\<rparr>) = Inr n \<and>
   576 dvd n \<and> 16384 \<le> n"
proof -
  let ?m = "\<lparr>cache_dtype_str = None, alignment = Some 576, compress_ratio = 1, model_version = None\<rparr>"
  have "mla_real_page_size (\<lambda>_. 2) demo_attention ?m = 16384"
    by (simp add: mla_real_page_size_def storage_block_size_def demo_attention_def)
  thus ?thesis
    using mla_page_aligned [of ?m 576 demo_attention "\<lambda>_. 2" None]
    by (auto simp: demo_attention_def is_per_token_head_def)
qed

lemma max_of_ge: "max_of xs = Inr n \<Longrightarrow> x \<in> set xs \<Longrightarrow> x \<le> n"
proof -
  have mono: "y \<le> fold max ys (y::int)" for y ys by (induction ys arbitrary: y) (auto intro: order_trans [OF max.cobounded2])
  have mem: "z \<in> set ys \<Longrightarrow> z \<le> fold max ys y" for z y :: int and ys
    by (induction ys arbitrary: y) (auto intro: order_trans [OF max.cobounded1 mono])
  show "max_of xs = Inr n \<Longrightarrow> x \<in> set xs \<Longrightarrow> x \<le> n"
    using mono mem by (auto simp: max_of_def split: list.splits)
qed

text \<open>The memory of the layers of a collection, added up.\<close>

fun sum_memory :: "(string \<Rightarrow> int) \<Rightarrow> mem_config \<Rightarrow> (string \<times> kv_cache_spec) list \<Rightarrow> int res" where
  "sum_memory gds c [] = Inr 0"
| "sum_memory gds c ((_, s) # l) =
     bindE (max_memory_usage_bytes gds c s) (\<lambda>n. bindE (sum_memory gds c l) (\<lambda>k. Inr (n + k)))"

lemma layer_pages_cover:
  assumes "layer_pages gds c l = Inr ps" "\<forall>p \<in> set ps. p \<le> n"
    and "\<forall>(x, s) \<in> set l. \<forall>p. page_size_bytes gds s = Inr p \<longrightarrow> 0 \<le> p"
  shows "\<exists>tot k. sum_memory gds c l = Inr tot \<and> sum_page_sizes gds l = Inr k \<and> tot \<le> n * k"
  using assms
proof (induction l arbitrary: ps)
  case (Cons e l)
  obtain x s where e: "e = (x, s)" by force
  obtain mem p qs where l: "max_memory_usage_bytes gds c s = Inr mem" "page_size_bytes gds s = Inr p" "p \<noteq> 0"
    "layer_pages gds c l = Inr qs" "ps = cdiv mem p # qs"
    using Cons.prems(1) unfolding e by (auto simp: err_simps)
  have p: "0 < p" using Cons.prems(3) l(2,3) by (auto simp: e)
  obtain tot k where ih: "sum_memory gds c l = Inr tot" "sum_page_sizes gds l = Inr k" "tot \<le> n * k"
    using Cons.IH [OF l(4)] Cons.prems(2,3) l(5) by auto
  have "mem \<le> cdiv mem p * p" using p by (rule cdiv_upper)
  also have "\<dots> \<le> n * p" using Cons.prems(2) l(5) p by (simp add: mult_right_mono)
  finally have "mem + tot \<le> n * (p + k)" using ih(3) by (simp add: algebra_simps)
  thus ?case using l ih by (simp add: e)
qed simp

text \<open>
  C33: the memory bound of a uniform collection of layers covers the layers together: if every page size
  is non-negative, the bounds of the single layers add up to no more than the bound of the collection.
\<close>

theorem uniform_memory_covers:
  assumes "max_memory_usage_bytes gds c (UniformTypeKVCacheSpecs b l) = Inr n"
    and "\<forall>(x, s) \<in> set l. \<forall>p. page_size_bytes gds s = Inr p \<longrightarrow> 0 \<le> p"
  shows "\<exists>tot. sum_memory gds c l = Inr tot \<and> tot \<le> n"
proof -
  obtain ps k p where ps: "layer_pages gds c l = Inr ps" "max_of ps = Inr k" "sum_page_sizes gds l = Inr p" "n = k * p"
    using assms(1) by (auto simp: err_simps times_page_def)
  show ?thesis using layer_pages_cover [OF ps(1) _ assms(2), of k] max_of_ge [OF ps(2)] ps(3,4) by auto
qed

definition demo_config :: mem_config where
  "demo_config = \<lparr>max_model_len = 100, decode_context_parallel_size = 1, prefill_context_parallel_size = 1,
     max_num_batched_tokens = 32, config_mamba_cache_mode = ''none'', max_num_encoder_input_tokens = 0\<rparr>"

theorem uniform_memory_covers_witness:
  "\<exists>tot. sum_memory (\<lambda>_. 2) demo_config [(''l0'', new_full_spec demo_attention None None None),
      (''l1'', new_full_spec (demo_attention\<lparr>num_kv_heads := 4\<rparr>) None None None)] = Inr tot \<and>
     tot \<le> 344064"
proof (rule uniform_memory_covers [where b = 16])
  show "max_memory_usage_bytes (\<lambda>_. 2) demo_config (UniformTypeKVCacheSpecs 16
      [(''l0'', new_full_spec demo_attention None None None),
       (''l1'', new_full_spec (demo_attention\<lparr>num_kv_heads := 4\<rparr>) None None None)]) = Inr 344064"
    by (simp add: new_full_spec_def demo_attention_def demo_config_def times_page_def full_max_blocks_def
        block_size_of_def cdiv_def default_head_size_v_def kv_real_page_size_def is_nvfp4_def max_of_def
        attention_page_size_bytes_def padded_page_size_def is_per_token_head_def)
qed (auto simp: new_full_spec_def demo_attention_def default_head_size_v_def kv_real_page_size_def is_nvfp4_def
      attention_page_size_bytes_def padded_page_size_def is_per_token_head_def)

end
