(* ===== verification/Kv_Managers.thy ===== *)
theory Kv_Managers
  imports Pool_Correct Kv_Specs
begin

text \<open>
  The managers of one KV-cache group: the class \<^verbatim>\<open>SingleTypeKVCacheManager\<close> of
  \<^verbatim>\<open>vllm/v1/core/single_type_kv_cache_manager.py\<close> and its subclasses for full, sliding-window, chunked
  local, Mamba, cross and sink attention. A manager is a record; the block pool it shares with the other
  managers is passed to and returned from each operation. A method that a subclass overrides is one
  definition that dispatches on the class. \<^verbatim>\<open>req_to_blocks\<close> is a defaultdict: reading a missing row adds
  an empty one. This theory holds the operations that change state; the lookup of prefix-cache hits is
  in the theory on cache hits, the invariants are in the theories that follow.
\<close>

section \<open>State\<close>

record kv_manager =
  mgr_class :: manager_class
  mgr_spec :: kv_cache_spec
  scheduler_block_size :: int
  mgr_block_size :: int
  dcp_world_size :: int
  pcp_world_size :: int
  mgr_enable_caching :: bool
  max_admission :: "int option"
  new_block_ids :: "int list"
  req_to_blocks :: "(string \<times> bref list) list"
  num_cached_block :: "(string \<times> nat) list"
  kv_cache_group_id :: int
  mgr_null :: bref
  use_eagle :: bool
  cached_blocks_this_step :: "bytes list"
  last_state_block_idx :: "(string \<times> int) list"
  allocated_block_reqs :: "string list"

definition manager_init ::
  "manager_class \<Rightarrow> kv_cache_spec \<Rightarrow> block_pool \<Rightarrow> bool \<Rightarrow> int \<Rightarrow> int \<Rightarrow> int \<Rightarrow> int \<Rightarrow> int option \<Rightarrow> kv_manager" where
  "manager_init cls spec p caching gid sched_bs dcp pcp cap =
     \<lparr>mgr_class = cls, mgr_spec = spec, scheduler_block_size = sched_bs,
      mgr_block_size = (if dcp * pcp > 1 then block_size_of spec * (dcp * pcp) else block_size_of spec),
      dcp_world_size = dcp, pcp_world_size = pcp, mgr_enable_caching = caching, max_admission = cap,
      new_block_ids = [], req_to_blocks = [], num_cached_block = [], kv_cache_group_id = gid,
      mgr_null = null_block p, use_eagle = False, cached_blocks_this_step = [],
      last_state_block_idx = [], allocated_block_reqs = []\<rparr>"

text \<open>
  \<^verbatim>\<open>get_manager_for_kv_cache_spec\<close> as the coordinator calls it, with \<^verbatim>\<open>scheduler_block_size\<close> among the
  keyword arguments: the constructor of the sink manager does not take that keyword.
\<close>

definition get_manager_for_kv_cache_spec ::
  "registry \<Rightarrow> kv_cache_spec \<Rightarrow> int \<Rightarrow> int \<Rightarrow> block_pool \<Rightarrow> bool \<Rightarrow> int \<Rightarrow> int \<Rightarrow> int \<Rightarrow> int \<Rightarrow> kv_manager res" where
  "get_manager_for_kv_cache_spec reg spec batched len p caching gid sched_bs dcp pcp =
     (case get_manager_class reg spec of
        None \<Rightarrow> Inl AssertionError
      | Some SinkFullAttentionManager \<Rightarrow> Inl TypeError
      | Some cls \<Rightarrow> Inr (manager_init cls spec p caching gid sched_bs dcp pcp
                         (max_admission_blocks_per_request spec batched len)))"

definition row_of :: "kv_manager \<Rightarrow> string \<Rightarrow> bref list" where
  "row_of m rid = (case map_of (req_to_blocks m) rid of None \<Rightarrow> [] | Some bs \<Rightarrow> bs)"

definition set_row :: "string \<Rightarrow> bref list \<Rightarrow> kv_manager \<Rightarrow> kv_manager" where
  "set_row rid bs m = m\<lparr>req_to_blocks := AList.update rid bs (req_to_blocks m)\<rparr>"

definition cached_count :: "kv_manager \<Rightarrow> string \<Rightarrow> nat" where
  "cached_count m rid = (case map_of (num_cached_block m) rid of None \<Rightarrow> 0 | Some n \<Rightarrow> n)"

definition tracks_new_ids :: "kv_manager \<Rightarrow> bool" where
  "tracks_new_ids m \<longleftrightarrow> class_of_spec (mgr_spec m) \<in> {C_Full, C_TQ, C_MLA}"

definition add_new_ids :: "block_pool \<Rightarrow> bref list \<Rightarrow> kv_manager \<Rightarrow> kv_manager" where
  "add_new_ids p bs m =
     (if tracks_new_ids m
      then m\<lparr>new_block_ids := new_block_ids m @ map (\<lambda>b. block_id (pheap p b)) bs\<rparr> else m)"

definition take_new_block_ids :: "kv_manager \<Rightarrow> int list \<times> kv_manager" where
  "take_new_block_ids m = (new_block_ids m, m\<lparr>new_block_ids := []\<rparr>)"

section \<open>Tokens outside the attention window\<close>

definition spec_window :: "kv_cache_spec \<Rightarrow> int" where
  "spec_window s = (case sliding_window_of s of Some w \<Rightarrow> w | None \<Rightarrow> 0)"

definition spec_chunk :: "kv_cache_spec \<Rightarrow> int" where
  "spec_chunk s = (case s of ChunkedLocalAttentionSpec _ cs \<Rightarrow> cs | _ \<Rightarrow> 0)"

definition sliding_skipped_tokens :: "int \<Rightarrow> int \<Rightarrow> int" where
  "sliding_skipped_tokens window n = max 0 (n - window + 1)"

definition chunked_skipped_tokens :: "int \<Rightarrow> int \<Rightarrow> int" where
  "chunked_skipped_tokens chunk n = (n div chunk) * chunk"

definition get_num_skipped_tokens :: "kv_manager \<Rightarrow> int \<Rightarrow> int" where
  "get_num_skipped_tokens m n =
     (case mgr_class m of
        SlidingWindowManager \<Rightarrow> sliding_skipped_tokens (spec_window (mgr_spec m)) n
      | ChunkedLocalAttentionManager \<Rightarrow> chunked_skipped_tokens (spec_chunk (mgr_spec m)) n
      | MambaManager \<Rightarrow> n - 1
      | _ \<Rightarrow> 0)"

section \<open>Admission\<close>

definition get_num_evictable_blocks :: "block_pool \<Rightarrow> bref list \<Rightarrow> int" where
  "get_num_evictable_blocks p bs =
     int (length (filter (\<lambda>b. ref_cnt (pheap p b) = 0 \<and> \<not> is_null (pheap p b)) bs))"

definition base_num_blocks_to_allocate ::
  "kv_manager \<Rightarrow> block_pool \<Rightarrow> string \<Rightarrow> int \<Rightarrow> bref list \<Rightarrow> int \<Rightarrow> bool \<Rightarrow> int res" where
  "base_num_blocks_to_allocate m p rid ntok new_computed total_computed apply_cap =
     (let required0 = cdiv ntok (mgr_block_size m);
          required = (case max_admission m of
                        Some cap \<Rightarrow> if apply_cap then min required0 cap else required0
                      | None \<Rightarrow> required0);
          num_req = int (length (row_of m rid))
      in if map_of (num_cached_block m) rid \<noteq> None
         then bindE (guardE (length new_computed = 0) AssertionError) (\<lambda>_. Inr (max (required - num_req) 0))
         else let skipped = get_num_skipped_tokens m total_computed div mgr_block_size m;
                  local_computed = int (length new_computed) + num_req;
                  num_new = max (required - max skipped local_computed) 0;
                  skipped_new = max 0 (skipped - num_req)
              in Inr (num_new + get_num_evictable_blocks p (drop (nat skipped_new) new_computed)))"

definition spec_speculative_blocks :: "kv_cache_spec \<Rightarrow> int" where
  "spec_speculative_blocks s = (case s of MambaSpec x \<Rightarrow> num_speculative_blocks x | _ \<Rightarrow> 0)"

definition spec_align_mode :: "kv_cache_spec \<Rightarrow> bool" where
  "spec_align_mode s = (case s of MambaSpec x \<Rightarrow> mamba_cache_mode x = ''align'' | _ \<Rightarrow> False)"

definition ensure_row :: "string \<Rightarrow> kv_manager \<Rightarrow> kv_manager" where
  "ensure_row rid m = (if map_of (req_to_blocks m) rid = None then set_row rid [] m else m)"

definition mamba_num_blocks_to_allocate ::
  "kv_manager \<Rightarrow> block_pool \<Rightarrow> string \<Rightarrow> int \<Rightarrow> bref list \<Rightarrow> int \<Rightarrow> int \<Rightarrow> bool \<Rightarrow> (int \<times> kv_manager) res" where
  "mamba_num_blocks_to_allocate m p rid ntok new_computed total_computed main_tokens apply_cap =
     (let nsb = spec_speculative_blocks (mgr_spec m)
      in if new_computed \<noteq> [] \<and>
            (case block_hash (pheap p (last new_computed)) of
               None \<Rightarrow> False | Some k \<Rightarrow> k \<in> set (cached_blocks_this_step m))
         then Inr (num_gpu_blocks p + 1, m)
         else if \<not> spec_align_mode (mgr_spec m)
         then bindE (base_num_blocks_to_allocate m p rid
                      (if nsb > 0 then ntok + block_size_of (mgr_spec m) * nsb else ntok)
                      new_computed total_computed apply_cap) (\<lambda>n. Inr (n, m))
         else let required = cdiv main_tokens (mgr_block_size m) + nsb;
                  num_new = required - int (length new_computed) - int (length (row_of m rid));
                  num_new' = (if num_new > 0
                              then if rid \<in> set (allocated_block_reqs m) then 1 else 1 + nsb else num_new)
              in Inr (num_new' + get_num_evictable_blocks p new_computed, ensure_row rid m))"

definition get_num_blocks_to_allocate ::
  "kv_manager \<Rightarrow> block_pool \<Rightarrow> string \<Rightarrow> int \<Rightarrow> bref list \<Rightarrow> int \<Rightarrow> int \<Rightarrow> bool \<Rightarrow> (int \<times> kv_manager) res" where
  "get_num_blocks_to_allocate m p rid ntok new_computed total_computed main_tokens apply_cap =
     (case mgr_class m of
        MambaManager \<Rightarrow>
          mamba_num_blocks_to_allocate m p rid ntok new_computed total_computed main_tokens apply_cap
      | _ \<Rightarrow> bindE (base_num_blocks_to_allocate m p rid ntok new_computed total_computed apply_cap)
                (\<lambda>n. Inr (n, m)))"

section \<open>Allocation\<close>

definition base_allocate_new_computed_blocks ::
  "string \<Rightarrow> bref list \<Rightarrow> int \<Rightarrow> int \<Rightarrow> kv_manager \<times> block_pool \<Rightarrow> (kv_manager \<times> block_pool) res" where
  "base_allocate_new_computed_blocks rid new_computed local_tokens external_tokens mp =
     (let (m, p) = mp
      in if map_of (num_cached_block m) rid \<noteq> None
         then bindE (guardE (length new_computed = 0) AssertionError) (\<lambda>_. Inr (m, p))
         else bindE (guardE (length (row_of m rid) = 0) AssertionError) (\<lambda>_.
           let total = local_tokens + external_tokens;
               skipped_tokens = get_num_skipped_tokens m total;
               skipped = skipped_tokens div mgr_block_size m;
               computed = (if skipped > 0 then drop (nat skipped) new_computed else new_computed);
               ext = (if skipped > 0 then min (total - skipped_tokens) external_tokens else external_tokens)
           in bindE (if mgr_enable_caching m then touch computed p
                     else bindE (guardE (computed = []) AssertionError) (\<lambda>_. Inr p)) (\<lambda>p1.
              let row = replicate (nat skipped) (mgr_null m) @ computed;
                  m1 = set_row rid row (m\<lparr>num_cached_block := AList.update rid (length row) (num_cached_block m)\<rparr>)
              in if ext > 0
                 then bindE (get_new_blocks (cdiv total (mgr_block_size m) - int (length row)) p1)
                        (\<lambda>(bs, p2). Inr (add_new_ids p2 bs (set_row rid (row @ bs) m1), p2))
                 else Inr (m1, p1))))"

definition allocate_new_computed_blocks ::
  "string \<Rightarrow> bref list \<Rightarrow> int \<Rightarrow> int \<Rightarrow> kv_manager \<times> block_pool \<Rightarrow> (kv_manager \<times> block_pool) res" where
  "allocate_new_computed_blocks rid new_computed local_tokens external_tokens mp =
     (if mgr_class (fst mp) = CrossAttentionManager
      then bindE (guardE (length new_computed = 0) AssertionError) (\<lambda>_. Inr mp)
      else base_allocate_new_computed_blocks rid new_computed local_tokens external_tokens mp)"

definition base_allocate_new_blocks ::
  "string \<Rightarrow> int \<Rightarrow> kv_manager \<times> block_pool \<Rightarrow> (bref list \<times> kv_manager \<times> block_pool) res" where
  "base_allocate_new_blocks rid ntok mp =
     (let (m, p) = mp; row = row_of m rid;
          num_new = cdiv ntok (mgr_block_size m) - int (length row)
      in if num_new \<le> 0 then Inr ([], ensure_row rid m, p)
         else bindE (get_new_blocks num_new p) (\<lambda>(bs, p1).
                Inr (bs, add_new_ids p1 bs (set_row rid (row @ bs) m), p1)))"

text \<open>List assignment with a Python index.\<close>

definition py_set :: "'a list \<Rightarrow> int \<Rightarrow> 'a \<Rightarrow> 'a list res" where
  "py_set xs i v =
     (let j = (if i < 0 then i + int (length xs) else i)
      in if 0 \<le> j \<and> j < int (length xs) then Inr (xs[nat j := v]) else Inl IndexError)"

text \<open>The speculative blocks of the previous step move to the end of the row (align mode).\<close>

fun reuse_spec_blocks :: "bref \<Rightarrow> int \<Rightarrow> int list \<Rightarrow> bref list \<Rightarrow> bref list res" where
  "reuse_spec_blocks nb num_skipped [] row = Inr row"
| "reuse_spec_blocks nb num_skipped (i # is) row =
     (if i < num_skipped
      then bindE (py_index row i) (\<lambda>b.
             bindE (py_set (row @ [b]) i nb) (\<lambda>row'. reuse_spec_blocks nb num_skipped is row'))
      else Inr row)"

definition mamba_allocate_aligned ::
  "string \<Rightarrow> int \<Rightarrow> kv_manager \<times> block_pool \<Rightarrow> (bref list \<times> kv_manager \<times> block_pool) res" where
  "mamba_allocate_aligned rid main_tokens mp =
     (let (m, p) = mp; row = row_of m rid; nsb = spec_speculative_blocks (mgr_spec m);
          required = cdiv main_tokens (mgr_block_size m) + nsb; prev = int (length row)
      in if required \<le> prev then Inr ([], ensure_row rid m, p)
         else let allocated = rid \<in> set (allocated_block_reqs m);
                  m1 = (if allocated
                        then m\<lparr>last_state_block_idx := AList.update rid (prev - 1 - nsb) (last_state_block_idx m)\<rparr>
                        else if prev > 0
                        then m\<lparr>last_state_block_idx := AList.update rid (prev - 1) (last_state_block_idx m)\<rparr>
                        else m);
                  num_skipped = required - nsb - 1;
                  row1 = (if prev < num_skipped then row @ replicate (nat (num_skipped - prev)) (mgr_null m) else row)
              in bindE (if allocated then reuse_spec_blocks (mgr_null m) num_skipped [prev - nsb..prev - 1] row1
                        else Inr row1) (\<lambda>row2.
                 let num_new = required - int (length row2)
                 in bindE (guardE (num_new \<le> (if allocated then 1 else nsb + 1)) AssertionError) (\<lambda>_.
                    bindE (get_new_blocks num_new p) (\<lambda>(bs, p1).
                      let row3 = row2 @ bs
                      in Inr (drop (length row) row3,
                              (set_row rid row3 m1)\<lparr>allocated_block_reqs := List.insert rid (allocated_block_reqs m1)\<rparr>,
                              p1)))))"

definition allocate_new_blocks ::
  "string \<Rightarrow> int \<Rightarrow> int \<Rightarrow> kv_manager \<times> block_pool \<Rightarrow> (bref list \<times> kv_manager \<times> block_pool) res" where
  "allocate_new_blocks rid ntok main_tokens mp =
     (let m = fst mp; nsb = spec_speculative_blocks (mgr_spec m)
      in if mgr_class m = MambaManager
         then if spec_align_mode (mgr_spec m) then mamba_allocate_aligned rid main_tokens mp
              else base_allocate_new_blocks rid
                     (if nsb > 0 then ntok + mgr_block_size m * nsb else ntok) mp
         else base_allocate_new_blocks rid ntok mp)"

section \<open>Caching full blocks\<close>

definition contiguous_blocks_for_hit :: "int \<Rightarrow> int \<Rightarrow> bool \<Rightarrow> int" where
  "contiguous_blocks_for_hit window bs eagle = cdiv (window - 1) bs + (if eagle then 1 else 0)"

text \<open>
  \<^verbatim>\<open>SlidingWindowManager.reachable_block_mask\<close>: which of the blocks \<open>start..<fin\<close> can ever serve a hit.
  \<^verbatim>\<open>None\<close> keeps all.
\<close>

definition in_segment_tail :: "int \<Rightarrow> int \<Rightarrow> int \<Rightarrow> int \<Rightarrow> bool" where
  "in_segment_tail per_segment need shift i \<longleftrightarrow>
     i \<ge> shift \<and> (i - shift) mod per_segment \<ge> per_segment - need"

definition in_replay_tail :: "int option \<Rightarrow> int option \<Rightarrow> int \<Rightarrow> int \<Rightarrow> int \<Rightarrow> int \<Rightarrow> int \<Rightarrow> bool" where
  "in_replay_tail retention num_prompt al bs need shift i =
     (case (retention, num_prompt) of
        (Some _, Some n) \<Rightarrow>
          let latest = (n - 1) div al * al; prompt_end = latest div bs + shift
          in prompt_end - need \<le> i \<and> i < prompt_end
      | _ \<Rightarrow> False)"

definition sliding_block_mask ::
  "nat \<Rightarrow> nat \<Rightarrow> int option \<Rightarrow> int \<Rightarrow> int \<Rightarrow> bool \<Rightarrow> int option \<Rightarrow> int option \<Rightarrow> bool list option res" where
  "sliding_block_mask start fin align bs window eagle retention num_prompt =
     (case align of
        None \<Rightarrow> Inr None
      | Some al \<Rightarrow>
          bindE (guardE (al mod bs = 0) AssertionError) (\<lambda>_.
            let need = contiguous_blocks_for_hit window bs eagle;
                shift = (if eagle then 1 else 0);
                segment = (case retention of None \<Rightarrow> Some al | Some r \<Rightarrow> if r = 0 then None else Some r);
                replay = in_replay_tail retention num_prompt al bs need shift
            in case segment of
                 None \<Rightarrow> Inr (Some (map (\<lambda>i. replay (int i)) [start..<fin]))
               | Some seg \<Rightarrow>
                   if need \<ge> seg div bs then Inr None
                   else Inr (Some (map (\<lambda>i. in_segment_tail (seg div bs) need shift (int i) \<or> replay (int i))
                               [start..<fin]))))"

definition reachable_block_mask :: "kv_manager \<Rightarrow> nat \<Rightarrow> nat \<Rightarrow> int option \<Rightarrow> int option \<Rightarrow> bool list option res" where
  "reachable_block_mask m start fin retention num_prompt =
     (if mgr_class m = SlidingWindowManager
      then sliding_block_mask start fin (Some (scheduler_block_size m)) (block_size_of (mgr_spec m))
             (spec_window (mgr_spec m)) (use_eagle m) retention num_prompt
      else Inr None)"

definition base_cache_blocks ::
  "(bytes \<Rightarrow> bytes) \<Rightarrow> request \<Rightarrow> int \<Rightarrow> int option \<Rightarrow> kv_manager \<times> block_pool \<Rightarrow>
   ((kv_manager \<times> block_pool) \<times> request) res" where
  "base_cache_blocks eh r ntok retention mp =
     (let (m, p) = mp; rid = request_id r; num_cached = cached_count m rid;
          num_full = nat (ntok div mgr_block_size m)
      in if num_cached \<ge> num_full then Inr (mp, r)
         else bindE (reachable_block_mask m num_cached num_full retention (Some (num_prompt_tokens r))) (\<lambda>msk.
           bindE (cache_full_blocks eh r (row_of m rid) num_cached num_full (mgr_block_size m)
                    (kv_cache_group_id m) msk p) (\<lambda>(p', r').
             Inr (((ensure_row rid m)\<lparr>num_cached_block := AList.update rid num_full (num_cached_block m)\<rparr>, p'), r'))))"

definition collect_cached_keys :: "block_pool \<Rightarrow> bref list \<Rightarrow> bytes list \<Rightarrow> bytes list res" where
  "collect_cached_keys p bs ks =
     foldE (\<lambda>b s. if is_null (pheap p b) then Inr s
                  else case block_hash (pheap p b) of
                         None \<Rightarrow> Inl AssertionError | Some k \<Rightarrow> Inr (List.insert k s)) bs ks"

definition mamba_cache_blocks ::
  "(bytes \<Rightarrow> bytes) \<Rightarrow> request \<Rightarrow> int \<Rightarrow> int option \<Rightarrow> kv_manager \<times> block_pool \<Rightarrow>
   ((kv_manager \<times> block_pool) \<times> request) res" where
  "mamba_cache_blocks eh r ntok retention mp =
     (let before = cached_count (fst mp) (request_id r)
      in bindE (base_cache_blocks eh r ntok retention mp) (\<lambda>((m, p), r').
         let after = cached_count m (request_id r)
         in if after > before
            then bindE (collect_cached_keys p (take (after - before) (drop before (row_of m (request_id r))))
                          (cached_blocks_this_step m)) (\<lambda>ks.
                   Inr ((m\<lparr>cached_blocks_this_step := ks\<rparr>, p), r'))
            else Inr ((m, p), r')))"

definition cache_blocks ::
  "(bytes \<Rightarrow> bytes) \<Rightarrow> request \<Rightarrow> int \<Rightarrow> int option \<Rightarrow> kv_manager \<times> block_pool \<Rightarrow>
   ((kv_manager \<times> block_pool) \<times> request) res" where
  "cache_blocks eh r ntok retention mp =
     (case mgr_class (fst mp) of
        CrossAttentionManager \<Rightarrow> Inl ValueError
      | MambaManager \<Rightarrow> mamba_cache_blocks eh r ntok retention mp
      | _ \<Rightarrow> base_cache_blocks eh r ntok retention mp)"

section \<open>Releasing blocks\<close>

definition drop_request :: "string \<Rightarrow> kv_manager \<Rightarrow> kv_manager" where
  "drop_request rid m =
     m\<lparr>req_to_blocks := AList.delete rid (req_to_blocks m),
       num_cached_block := AList.delete rid (num_cached_block m)\<rparr>"

definition base_free :: "string \<Rightarrow> kv_manager \<times> block_pool \<Rightarrow> (kv_manager \<times> block_pool) res" where
  "base_free rid mp =
     (let (m, p) = mp
      in bindE (free_blocks (rev (row_of m rid)) False p) (\<lambda>p'. Inr (drop_request rid m, p')))"

definition is_uncached :: "heap \<Rightarrow> bref \<Rightarrow> bool" where
  "is_uncached h b \<longleftrightarrow> block_hash (h b) = None"

definition free_partitioned :: "bref list \<Rightarrow> bref list \<Rightarrow> block_pool \<Rightarrow> block_pool res" where
  "free_partitioned cached uncached p =
     bindE (free_blocks cached False p) (\<lambda>p1. free_blocks uncached True p1)"

definition sliding_free :: "string \<Rightarrow> kv_manager \<times> block_pool \<Rightarrow> (kv_manager \<times> block_pool) res" where
  "sliding_free rid mp =
     (let (m, p) = mp; row = row_of m rid
      in bindE (if row \<noteq> []
                then free_partitioned (filter (\<lambda>b. \<not> is_uncached (pheap p) b) (rev row))
                       (filter (is_uncached (pheap p)) (rev row)) p
                else Inr p) (\<lambda>p'. Inr (drop_request rid m, p')))"

definition manager_free :: "string \<Rightarrow> kv_manager \<times> block_pool \<Rightarrow> (kv_manager \<times> block_pool) res" where
  "manager_free rid mp =
     (case mgr_class (fst mp) of
        SlidingWindowManager \<Rightarrow> sliding_free rid mp
      | MambaManager \<Rightarrow>
          (let m = fst mp;
               m1 = (if spec_align_mode (mgr_spec m)
                     then m\<lparr>allocated_block_reqs := removeAll rid (allocated_block_reqs m),
                            last_state_block_idx := AList.delete rid (last_state_block_idx m)\<rparr>
                     else m)
           in base_free rid (m1, snd mp))
      | _ \<Rightarrow> base_free rid mp)"

text \<open>
  The loop of \<^verbatim>\<open>remove_skipped_blocks\<close>, from index \<open>n - 1\<close> down to the first null block: the removed
  cached and uncached blocks, in removal order, and the row with null blocks in their place.
\<close>

fun skip_loop :: "heap \<Rightarrow> bref \<Rightarrow> nat \<Rightarrow> bref list \<Rightarrow> bref list \<times> bref list \<times> bref list" where
  "skip_loop h nb 0 row = ([], [], row)"
| "skip_loop h nb (Suc i) row =
     (if row ! i = nb then ([], [], row)
      else let (cached, uncached, row') = skip_loop h nb i (row[i := nb])
           in if is_uncached h (row ! i) then (cached, row ! i # uncached, row')
              else (row ! i # cached, uncached, row'))"

definition base_remove_skipped_blocks ::
  "string \<Rightarrow> int \<Rightarrow> kv_manager \<times> block_pool \<Rightarrow> (kv_manager \<times> block_pool) res" where
  "base_remove_skipped_blocks rid total_computed mp =
     (let (m, p) = mp; skipped_tokens = get_num_skipped_tokens m total_computed
      in if skipped_tokens \<le> 0 then Inr mp
         else let row = row_of m rid;
                  n = nat (min (skipped_tokens div mgr_block_size m) (int (length row)));
                  (cached, uncached, row') = skip_loop (pheap p) (mgr_null m) n row
              in bindE (free_partitioned cached uncached p) (\<lambda>p'. Inr (set_row rid row' m, p')))"

definition mamba_remove_skipped_blocks ::
  "string \<Rightarrow> int \<Rightarrow> kv_manager \<times> block_pool \<Rightarrow> (kv_manager \<times> block_pool) res" where
  "mamba_remove_skipped_blocks rid total_computed mp =
     (let n = max 0 (total_computed - spec_speculative_blocks (mgr_spec (fst mp)))
      in bindE (base_remove_skipped_blocks rid n mp) (\<lambda>(m, p).
         case (if spec_align_mode (mgr_spec m) then map_of (last_state_block_idx m) rid else None) of
           None \<Rightarrow> Inr (m, p)
         | Some i \<Rightarrow>
             if i < cdiv n (mgr_block_size m) - 1
             then bindE (py_index (row_of m rid) i) (\<lambda>b.
                    if b \<noteq> mgr_null m
                    then bindE (free_blocks [b] False p) (\<lambda>p'.
                           bindE (py_set (row_of m rid) i (mgr_null m)) (\<lambda>row'. Inr (set_row rid row' m, p')))
                    else Inr (m, p))
             else Inr (m, p)))"

definition remove_skipped_blocks ::
  "string \<Rightarrow> int \<Rightarrow> kv_manager \<times> block_pool \<Rightarrow> (kv_manager \<times> block_pool) res" where
  "remove_skipped_blocks rid total_computed mp =
     (if mgr_class (fst mp) = MambaManager then mamba_remove_skipped_blocks rid total_computed mp
      else base_remove_skipped_blocks rid total_computed mp)"

section \<open>Common prefixes and steps\<close>

definition get_num_common_prefix_blocks :: "string \<Rightarrow> kv_manager \<times> block_pool \<Rightarrow> nat \<times> kv_manager" where
  "get_num_common_prefix_blocks rid mp =
     (let (m, p) = mp
      in if mgr_class m \<in> {FullAttentionManager, SinkFullAttentionManager}
         then let m' = ensure_row rid m
              in (length (takeWhile (\<lambda>b. ref_cnt (pheap p b) = int (length (req_to_blocks m'))) (row_of m' rid)), m')
         else (0, m))"

definition new_step_starts :: "kv_manager \<Rightarrow> kv_manager" where
  "new_step_starts m = (if mgr_class m = MambaManager then m\<lparr>cached_blocks_this_step := []\<rparr> else m)"

end
