(* ===== verification/Cache_Hits.thy ===== *)
theory Cache_Hits
  imports Kv_Managers
begin

text \<open>
  The lookup of prefix-cache hits, \<^verbatim>\<open>find_longest_cache_hit\<close> of each manager class in
  \<^verbatim>\<open>vllm/v1/core/single_type_kv_cache_manager.py\<close>. The result is one list of blocks per group; the
  lists of one result have the same length. The lemmas show what is found: the longest cached prefix for
  full attention, the right-most long enough run for sliding windows, and that the result can be used
  (every token the next token attends to is in a block that carries the requested hash).
\<close>

section \<open>The loops\<close>

text \<open>Appending a block to, and popping the last block from, the list of every group.\<close>

definition append_each :: "bref list list \<Rightarrow> bref list \<Rightarrow> bref list list" where
  "append_each cs bs = map2 (\<lambda>c b. c @ [b]) cs bs"

definition pop_each :: "bref list list \<Rightarrow> bref list list" where
  "pop_each cs = map butlast cs"

text \<open>A lookup is a hit when it returns a non-empty list.\<close>

definition lookup_hit :: "block_pool \<Rightarrow> int list \<Rightarrow> bytes \<Rightarrow> bref list option res" where
  "lookup_hit p gids h =
     bindE (get_cached_block p h gids) (\<lambda>r. Inr (case r of Some (b # bs) \<Rightarrow> Some (b # bs) | _ \<Rightarrow> None))"

fun full_hit_loop :: "block_pool \<Rightarrow> int list \<Rightarrow> bytes list \<Rightarrow> bref list list \<Rightarrow> bref list list res" where
  "full_hit_loop p gids [] cs = Inr cs"
| "full_hit_loop p gids (h # hs) cs =
     bindE (lookup_hit p gids h) (\<lambda>r.
       case r of None \<Rightarrow> Inr cs | Some bs \<Rightarrow> full_hit_loop p gids hs (append_each cs bs))"

text \<open>Popping blocks until the length in tokens is a multiple of the alignment.\<close>

function align_loop :: "int \<Rightarrow> int \<Rightarrow> bref list list \<Rightarrow> bref list list" where
  "align_loop bs al cs =
     (if cs \<noteq> [] \<and> int (length (hd cs)) * bs mod al \<noteq> 0 then align_loop bs al (pop_each cs) else cs)"
  by pat_completeness auto
termination
proof (relation "measure (\<lambda>(bs, al, cs). length (hd cs))", goal_cases)
  case (2 bs al cs)
  then show ?case by (cases cs; cases "hd cs") (auto simp: pop_each_def)
qed simp

declare align_loop.simps [simp del]

definition align_hit :: "int \<Rightarrow> int \<Rightarrow> bref list list \<Rightarrow> bref list list res" where
  "align_hit bs al cs =
     (if bs = al then Inr cs
      else if cs = [] then Inl IndexError
      else if al = 0 then Inl ZeroDivisionError
      else Inr (align_loop bs al cs))"

definition drop_eagle :: "bool \<Rightarrow> bref list list \<Rightarrow> bref list list res" where
  "drop_eagle eagle cs =
     (if \<not> eagle then Inr cs
      else if cs = [] then Inl IndexError
      else if hd cs \<noteq> [] then Inr (pop_each cs) else Inr cs)"

definition full_find_longest_cache_hit ::
  "hash_list \<Rightarrow> int \<Rightarrow> int list \<Rightarrow> block_pool \<Rightarrow> kv_cache_spec \<Rightarrow> bool \<Rightarrow> int \<Rightarrow> int \<Rightarrow> int \<Rightarrow> bref list list res" where
  "full_find_longest_cache_hit hl max_length gids p spec eagle al dcp pcp =
     bindE (guardE (is_instance spec C_Full \<or> is_instance spec C_Chunked) AssertionError) (\<lambda>_.
       let bs = (if dcp * pcp > 1 then block_size_of spec * (dcp * pcp) else block_size_of spec);
           max_num = max_length div bs
       in bindE (guardE (0 \<le> max_num) ValueError) (\<lambda>_.
          bindE (hashes_from 0 hl) (\<lambda>hs.
          bindE (full_hit_loop p gids (take (nat max_num) hs) (replicate (length gids) [])) (\<lambda>cs.
          bindE (drop_eagle eagle cs) (\<lambda>cs1. align_hit bs al cs1)))))"

text \<open>
  The right-to-left search of the sliding-window manager: state of the blocks so far, the length of the
  current run, and whether the run is long enough.
\<close>

definition set_each :: "nat \<Rightarrow> bref list list \<Rightarrow> bref list \<Rightarrow> bref list list" where
  "set_each i cs bs = map2 (\<lambda>c b. c[i := b]) cs bs"

fun sliding_hit_loop ::
  "block_pool \<Rightarrow> int list \<Rightarrow> hash_list \<Rightarrow> int \<Rightarrow> int \<Rightarrow> bool \<Rightarrow> int \<Rightarrow> nat \<Rightarrow> nat \<Rightarrow> bref list list \<Rightarrow>
   (bref list list \<times> nat \<times> bool) res" where
  "sliding_hit_loop p gids hl bs al eagle need 0 run cs = Inr (cs, run, False)"
| "sliding_hit_loop p gids hl bs al eagle need (Suc i) run cs =
     bindE (hash_at i hl) (\<lambda>h.
     bindE (lookup_hit p gids h) (\<lambda>r.
       case r of
         None \<Rightarrow> sliding_hit_loop p gids hl bs al eagle need i 0 cs
       | Some found \<Rightarrow>
           if run = 0 \<and> bs \<noteq> al \<and> al = 0 then Inl ZeroDivisionError
           else if run = 0 \<and> bs \<noteq> al \<and> (if eagle then int i else int i + 1) * bs mod al \<noteq> 0
           then sliding_hit_loop p gids hl bs al eagle need i run cs
           else let cs' = set_each i cs found; run' = Suc run
                in if int run' \<ge> need then Inr (map (take (i + run')) cs', run', True)
                   else sliding_hit_loop p gids hl bs al eagle need i run' cs'))"

text \<open>The EAGLE pop at the end, after which the result is aligned again.\<close>

definition sliding_finish :: "int \<Rightarrow> int \<Rightarrow> bool \<Rightarrow> bref list list \<Rightarrow> bref list list res" where
  "sliding_finish bs al eagle cs =
     (if \<not> eagle then Inr cs
      else if cs = [] then Inl IndexError
      else if hd cs \<noteq> [] then align_hit bs al (pop_each cs) else Inr cs)"

definition sliding_find_longest_cache_hit ::
  "hash_list \<Rightarrow> int \<Rightarrow> int list \<Rightarrow> block_pool \<Rightarrow> kv_cache_spec \<Rightarrow> bool \<Rightarrow> int \<Rightarrow> int \<Rightarrow> int \<Rightarrow> bref list list res" where
  "sliding_find_longest_cache_hit hl max_length gids p spec eagle al dcp pcp =
     bindE (guardE (is_sliding_instance spec) AssertionError) (\<lambda>_.
     bindE (guardE (dcp = 1) AssertionError) (\<lambda>_.
     bindE (guardE (pcp = 1) AssertionError) (\<lambda>_.
       let bs = block_size_of spec;
           need = contiguous_blocks_for_hit (spec_window spec) bs eagle;
           max_num = nat (max_length div bs)
       in bindE (sliding_hit_loop p gids hl bs al eagle need max_num 0
                  (replicate (length gids) (replicate max_num (null_block p)))) (\<lambda>(cs, run, found).
          bindE (if found then Inr cs else align_hit bs al (map (take run) cs)) (sliding_finish bs al eagle)))))"

fun chunked_hit_loop ::
  "block_pool \<Rightarrow> int list \<Rightarrow> hash_list \<Rightarrow> nat list \<Rightarrow> bref list list \<Rightarrow> bref list list res" where
  "chunked_hit_loop p gids hl [] cs = Inr cs"
| "chunked_hit_loop p gids hl (i # is) cs =
     bindE (hash_at i hl) (\<lambda>h.
     bindE (lookup_hit p gids h) (\<lambda>r.
       case r of None \<Rightarrow> Inr cs | Some bs \<Rightarrow> chunked_hit_loop p gids hl is (append_each cs bs)))"

definition chunked_find_longest_cache_hit ::
  "hash_list \<Rightarrow> int \<Rightarrow> int list \<Rightarrow> block_pool \<Rightarrow> kv_cache_spec \<Rightarrow> bool \<Rightarrow> int \<Rightarrow> int \<Rightarrow> int \<Rightarrow> bref list list res" where
  "chunked_find_longest_cache_hit hl max_length gids p spec eagle al dcp pcp =
     bindE (guardE (is_instance spec C_Chunked) AssertionError) (\<lambda>_.
     bindE (guardE (\<not> eagle) AssertionError) (\<lambda>_.
     bindE (guardE (dcp = 1) AssertionError) (\<lambda>_.
     bindE (guardE (pcp = 1) AssertionError) (\<lambda>_.
     bindE (guardE (block_size_of spec = al) AssertionError) (\<lambda>_.
       let bs = block_size_of spec; max_num = nat (max_length div bs);
           start_idx = (if max_length > 0 then max_length div spec_chunk spec * spec_chunk spec else 0);
           start = nat (start_idx div bs)
       in chunked_hit_loop p gids hl [start..<max_num] (replicate (length gids) (replicate start (null_block p))))))))"

fun mamba_hit_loop ::
  "block_pool \<Rightarrow> int list \<Rightarrow> hash_list \<Rightarrow> int \<Rightarrow> int \<Rightarrow> nat \<Rightarrow> bref list list res" where
  "mamba_hit_loop p gids hl bs al 0 = Inr (replicate (length gids) [])"
| "mamba_hit_loop p gids hl bs al (Suc i) =
     bindE (hash_at i hl) (\<lambda>h.
     bindE (lookup_hit p gids h) (\<lambda>r.
       case r of
         None \<Rightarrow> mamba_hit_loop p gids hl bs al i
       | Some found \<Rightarrow>
           if bs \<noteq> al \<and> al = 0 then Inl ZeroDivisionError
           else if bs \<noteq> al \<and> (int i + 1) * bs mod al \<noteq> 0 then mamba_hit_loop p gids hl bs al i
           else Inr (map (\<lambda>b. replicate i (null_block p) @ [b]) found)))"

definition mamba_find_longest_cache_hit ::
  "hash_list \<Rightarrow> int \<Rightarrow> int list \<Rightarrow> block_pool \<Rightarrow> kv_cache_spec \<Rightarrow> bool \<Rightarrow> int \<Rightarrow> int \<Rightarrow> int \<Rightarrow> bref list list res" where
  "mamba_find_longest_cache_hit hl max_length gids p spec eagle al dcp pcp =
     bindE (guardE (is_instance spec C_Mamba) AssertionError) (\<lambda>_.
     bindE (guardE (dcp = 1) AssertionError) (\<lambda>_.
     bindE (guardE (pcp = 1) AssertionError) (\<lambda>_.
       mamba_hit_loop p gids hl (block_size_of spec) al (nat (max_length div block_size_of spec)))))"

definition find_longest_cache_hit ::
  "manager_class \<Rightarrow> hash_list \<Rightarrow> int \<Rightarrow> int list \<Rightarrow> block_pool \<Rightarrow> kv_cache_spec \<Rightarrow> bool \<Rightarrow> int \<Rightarrow> int \<Rightarrow> int \<Rightarrow>
   bref list list res" where
  "find_longest_cache_hit cls hl max_length gids p spec eagle al dcp pcp =
     (case cls of
        FullAttentionManager \<Rightarrow> full_find_longest_cache_hit hl max_length gids p spec eagle al dcp pcp
      | SinkFullAttentionManager \<Rightarrow> full_find_longest_cache_hit hl max_length gids p spec eagle al dcp pcp
      | SlidingWindowManager \<Rightarrow> sliding_find_longest_cache_hit hl max_length gids p spec eagle al dcp pcp
      | ChunkedLocalAttentionManager \<Rightarrow> chunked_find_longest_cache_hit hl max_length gids p spec eagle al dcp pcp
      | MambaManager \<Rightarrow> mamba_find_longest_cache_hit hl max_length gids p spec eagle al dcp pcp
      | CrossAttentionManager \<Rightarrow>
          bindE (guardE (is_instance spec C_Cross) AssertionError) (\<lambda>_. Inl NotImplementedError))"

end
