(* ===== verification/Hits_Correct.thy ===== *)
theory Hits_Correct
  imports Cache_Hits
begin

text \<open>
  What \<^verbatim>\<open>find_longest_cache_hit\<close> finds. A hash is cached for a list of groups when every group has a
  block that carries the packed key. For full attention the result is the longest aligned prefix of
  cached hashes; for sliding windows it is the right-most aligned position whose window is cached.
\<close>

section \<open>Lookups\<close>

definition groups_ok :: "int list \<Rightarrow> bool" where
  "groups_ok gids \<longleftrightarrow> gids \<noteq> [] \<and> (\<forall>g \<in> set gids. 0 \<le> g \<and> g < 2 ^ 32)"

definition cached_all :: "block_pool \<Rightarrow> int list \<Rightarrow> bytes \<Rightarrow> bool" where
  "cached_all p gids h \<longleftrightarrow> (\<forall>g \<in> set gids. \<exists>b \<in> usable p. bhash p b = Some (key_of h g))"

definition hit_block :: "block_pool \<Rightarrow> int \<Rightarrow> bytes \<Rightarrow> bref \<Rightarrow> bool" where
  "hit_block p g h b \<longleftrightarrow> b \<in> usable p \<and> bhash p b = Some (key_of h g)"

definition hit_row :: "block_pool \<Rightarrow> int list \<Rightarrow> bytes \<Rightarrow> bref list \<Rightarrow> bool" where
  "hit_row p gids h bs \<longleftrightarrow> length bs = length gids \<and> (\<forall>k < length gids. hit_block p (gids ! k) h (bs ! k))"

lemma hit_row_cached: "hit_row p gids h bs \<Longrightarrow> cached_all p gids h"
  unfolding hit_row_def cached_all_def hit_block_def by (metis in_set_conv_nth)

lemma lookup_hit_law:
  assumes "pool_inv p fl" "groups_ok gids"
  shows "\<exists>r. lookup_hit p gids h = Inr r \<and>
    (case r of Some bs \<Rightarrow> hit_row p gids h bs | None \<Rightarrow> \<not> cached_all p gids h)"
proof -
  have gs: "\<forall>g \<in> set gids. 0 \<le> g \<and> g < 2 ^ 32" "gids \<noteq> []" using assms(2) by (simp_all add: groups_ok_def)
  obtain r where r: "get_cached_block p h gids = Inr r"
    and law: "case r of
              Some bs \<Rightarrow> length bs = length gids \<and>
                (\<forall>i < length gids. bs ! i \<in> usable p \<and> bhash p (bs ! i) = Some (key_of h (gids ! i)))
            | None \<Rightarrow> \<exists>g \<in> set gids. \<forall>b \<in> usable p. bhash p b \<noteq> Some (key_of h g)"
    using get_cached_block_law [OF assms(1) gs(1)] by blast
  show ?thesis
  proof (cases r)
    case None
    thus ?thesis using r law by (auto simp: lookup_hit_def cached_all_def)
  next
    case (Some bs)
    hence "hit_row p gids h bs" using law by (simp add: hit_row_def hit_block_def)
    moreover obtain b bs' where "bs = b # bs'" using law Some gs(2) by (cases bs) auto
    ultimately show ?thesis using r Some by (simp add: lookup_hit_def)
  qed
qed

lemma lookup_hit_cases:
  assumes "pool_inv p fl" "groups_ok gids"
  obtains (miss) "lookup_hit p gids h = Inr None" "\<not> cached_all p gids h"
  | (hit) bs where "lookup_hit p gids h = Inr (Some bs)" "hit_row p gids h bs" "cached_all p gids h"
  using lookup_hit_law [OF assms, of h] hit_row_cached by (metis option.case_eq_if option.collapse)

section \<open>Full attention\<close>

text \<open>The lists of a result: one per group, all of length \<open>n\<close>.\<close>

definition uniform_len :: "int list \<Rightarrow> bref list list \<Rightarrow> nat \<Rightarrow> bool" where
  "uniform_len gids cs n \<longleftrightarrow> length cs = length gids \<and> (\<forall>k < length gids. length (cs ! k) = n)"

definition prefix_hit :: "block_pool \<Rightarrow> int list \<Rightarrow> bytes list \<Rightarrow> bref list list \<Rightarrow> nat \<Rightarrow> bool" where
  "prefix_hit p gids hs cs n \<longleftrightarrow> uniform_len gids cs n \<and> n \<le> length hs \<and>
     (\<forall>k < length gids. \<forall>i < n. hit_block p (gids ! k) (hs ! i) (cs ! k ! i))"

lemma prefix_hit_append:
  assumes "prefix_hit p gids hs cs n" "hit_row p gids h bs" "n < length hs" "hs ! n = h"
  shows "prefix_hit p gids hs (append_each cs bs) (Suc n)"
  using assms unfolding prefix_hit_def uniform_len_def hit_row_def append_each_def
  by (auto simp: nth_append less_Suc_eq)

lemma prefix_hit_pop:
  assumes "prefix_hit p gids hs cs n"
  shows "prefix_hit p gids hs (pop_each cs) (n - 1)"
  using assms unfolding prefix_hit_def uniform_len_def pop_each_def by (auto simp: nth_butlast)

lemma full_hit_loop_law:
  assumes "pool_inv p fl" "groups_ok gids" "prefix_hit p gids (xs @ hs) cs (length xs)"
  shows "\<exists>cs'. full_hit_loop p gids hs cs = Inr cs' \<and>
    prefix_hit p gids (xs @ hs) cs' (length xs + length (takeWhile (cached_all p gids) hs))"
  using assms(3)
proof (induction hs arbitrary: xs cs)
  case (Cons h hs)
  show ?case
  proof (rule lookup_hit_cases [OF assms(1,2), of h])
    fix bs assume h: "lookup_hit p gids h = Inr (Some bs)" "hit_row p gids h bs" "cached_all p gids h"
    have "prefix_hit p gids ((xs @ [h]) @ hs) (append_each cs bs) (length (xs @ [h]))"
      using prefix_hit_append [OF Cons.prems h(2)] by simp
    from Cons.IH [OF this] show ?thesis using h by simp
  qed (use Cons.prems in simp)
qed simp

lemma prefix_hit_groups: "prefix_hit p gids hs cs n \<Longrightarrow> groups_ok gids \<Longrightarrow> cs \<noteq> [] \<and> length (hd cs) = n"
  by (cases cs) (auto simp: prefix_hit_def uniform_len_def groups_ok_def)

lemma align_loop_stop: "int (length (hd cs)) * bs mod al = 0 \<Longrightarrow> align_loop bs al cs = cs"
  by (subst align_loop.simps) simp

lemma align_loop_step:
  "cs \<noteq> [] \<Longrightarrow> int (length (hd cs)) * bs mod al \<noteq> 0 \<Longrightarrow> align_loop bs al cs = align_loop bs al (pop_each cs)"
  by (subst align_loop.simps) simp

lemma align_loop_law:
  assumes "prefix_hit p gids hs cs n" "groups_ok gids"
  shows "\<exists>k \<le> n. prefix_hit p gids hs (align_loop bs al cs) k \<and> int k * bs mod al = 0 \<and>
    (\<forall>j. k < j \<and> j \<le> n \<longrightarrow> int j * bs mod al \<noteq> 0)"
  using assms(1)
proof (induction n arbitrary: cs)
  case 0
  have "align_loop bs al cs = cs" using prefix_hit_groups [OF 0 assms(2)] by (intro align_loop_stop) simp
  thus ?case using 0 by simp
next
  case (Suc n)
  have cs: "cs \<noteq> []" "length (hd cs) = Suc n" using prefix_hit_groups [OF Suc.prems assms(2)] by auto
  show ?case
  proof (cases "int (Suc n) * bs mod al = 0")
    case True
    hence "align_loop bs al cs = cs" using cs by (intro align_loop_stop) simp
    thus ?thesis using Suc.prems True by (intro exI [of _ "Suc n"]) auto
  next
    case False
    hence step: "align_loop bs al cs = align_loop bs al (pop_each cs)"
      using cs by (intro align_loop_step) simp_all
    have pop: "prefix_hit p gids hs (pop_each cs) n" using prefix_hit_pop [OF Suc.prems] by simp
    obtain k where "k \<le> n" "prefix_hit p gids hs (align_loop bs al (pop_each cs)) k" "int k * bs mod al = 0"
      "\<forall>j. k < j \<and> j \<le> n \<longrightarrow> int j * bs mod al \<noteq> 0"
      using Suc.IH [OF pop] by (elim exE conjE)
    thus ?thesis using False unfolding step by (intro exI [of _ k]) (auto simp: le_Suc_eq)
  qed
qed

text \<open>Lengths at which a hit may end: every length when the block size is the alignment.\<close>

definition aligned :: "int \<Rightarrow> int \<Rightarrow> nat \<Rightarrow> bool" where
  "aligned bs al n \<longleftrightarrow> bs = al \<or> int n * bs mod al = 0"

lemma align_hit_law:
  assumes "prefix_hit p gids hs cs n" "groups_ok gids" "al \<noteq> 0"
  shows "\<exists>cs' k. align_hit bs al cs = Inr cs' \<and> k \<le> n \<and> prefix_hit p gids hs cs' k \<and> aligned bs al k \<and>
    (\<forall>j. k < j \<and> j \<le> n \<longrightarrow> \<not> aligned bs al j)"
proof (cases "bs = al")
  case True
  thus ?thesis using assms(1) by (intro exI [of _ cs] exI [of _ n]) (auto simp: align_hit_def aligned_def)
next
  case False
  have "align_hit bs al cs = Inr (align_loop bs al cs)"
    using False assms(3) prefix_hit_groups [OF assms(1,2)] by (simp add: align_hit_def)
  thus ?thesis using align_loop_law [OF assms(1,2), of bs al] False by (auto simp: aligned_def)
qed

definition eagle_len :: "bool \<Rightarrow> nat \<Rightarrow> nat" where
  "eagle_len eagle n = (if eagle then n - 1 else n)"

lemma drop_eagle_law:
  assumes "prefix_hit p gids hs cs n" "groups_ok gids"
  shows "\<exists>cs'. drop_eagle eagle cs = Inr cs' \<and> prefix_hit p gids hs cs' (eagle_len eagle n)"
  using prefix_hit_groups [OF assms] prefix_hit_pop [OF assms(1)] assms(1)
  by (auto simp: drop_eagle_def eagle_len_def)

definition full_block_size :: "kv_cache_spec \<Rightarrow> int \<Rightarrow> int \<Rightarrow> int" where
  "full_block_size spec dcp pcp =
     (if dcp * pcp > 1 then block_size_of spec * (dcp * pcp) else block_size_of spec)"

lemma takeWhile_take_le: "length (takeWhile P (take n xs)) \<le> n"
  using length_takeWhile_le [of P "take n xs"] by simp

lemma full_find_law:
  fixes eagle :: bool
  assumes "pool_inv p fl" "groups_ok gids" "is_instance spec C_Full \<or> is_instance spec C_Chunked"
    and "hashes_from 0 hl = Inr hs" "al \<noteq> 0" "0 \<le> max_length div full_block_size spec dcp pcp"
  defines "bs \<equiv> full_block_size spec dcp pcp"
  defines "n1 \<equiv> eagle_len eagle (length (takeWhile (cached_all p gids) (take (nat (max_length div bs)) hs)))"
  shows "\<exists>cs n. full_find_longest_cache_hit hl max_length gids p spec eagle al dcp pcp = Inr cs \<and>
    prefix_hit p gids hs cs n \<and> n \<le> n1 \<and> aligned bs al n \<and> (\<forall>j. n < j \<and> j \<le> n1 \<longrightarrow> \<not> aligned bs al j)"
proof -
  let ?ts = "take (nat (max_length div bs)) hs"
  have start: "prefix_hit p gids ([] @ ?ts) (replicate (length gids) []) (length ([]::bytes list))"
    by (simp add: prefix_hit_def uniform_len_def)
  obtain c1 where c1: "full_hit_loop p gids ?ts (replicate (length gids) []) = Inr c1"
    "prefix_hit p gids ?ts c1 (length (takeWhile (cached_all p gids) ?ts))"
    using full_hit_loop_law [OF assms(1,2) start] by auto
  hence "prefix_hit p gids hs c1 (length (takeWhile (cached_all p gids) ?ts))"
    using takeWhile_take_le [of _ "nat (max_length div bs)" hs]
    unfolding prefix_hit_def by (auto simp: less_le_trans nth_take [OF less_le_trans])
  then obtain c2 where c2: "drop_eagle eagle c1 = Inr c2" "prefix_hit p gids hs c2 n1"
    using drop_eagle_law [OF _ assms(2), of p hs c1] unfolding n1_def by blast
  obtain c3 n where c3: "align_hit bs al c2 = Inr c3" "n \<le> n1" "prefix_hit p gids hs c3 n" "aligned bs al n"
    "\<forall>j. n < j \<and> j \<le> n1 \<longrightarrow> \<not> aligned bs al j"
    using align_hit_law [OF c2(2) assms(2,5), of bs] by blast
  have "full_find_longest_cache_hit hl max_length gids p spec eagle al dcp pcp = Inr c3"
    using assms(3,4,6) c1(1) c2(1) c3(1)
    by (simp add: full_find_longest_cache_hit_def Let_def flip: full_block_size_def bs_def)
  thus ?thesis using c3 by blast
qed

section \<open>Sliding windows\<close>

text \<open>A run may end at \<open>e\<close> blocks when the length after the EAGLE pop is aligned.\<close>

definition run_end :: "bool \<Rightarrow> int \<Rightarrow> int \<Rightarrow> nat \<Rightarrow> bool" where
  "run_end eagle bs al e \<longleftrightarrow> aligned bs al (eagle_len eagle e)"

lemma run_end_Suc:
  "run_end eagle bs al (Suc i) \<longleftrightarrow> bs = al \<or> (if eagle then int i else int i + 1) * bs mod al = 0"
  by (simp add: run_end_def aligned_def eagle_len_def add.commute)

text \<open>No run of \<open>need\<close> cached blocks ends right of \<open>n\<close>.\<close>

definition no_run_after :: "block_pool \<Rightarrow> int list \<Rightarrow> bytes list \<Rightarrow> (nat \<Rightarrow> bool) \<Rightarrow> int \<Rightarrow> nat \<Rightarrow> nat \<Rightarrow> bool" where
  "no_run_after p gids hs endp need n M \<longleftrightarrow>
     (\<forall>k. n < k \<and> k \<le> M \<and> endp k \<longrightarrow> (\<exists>j < k. int k - need \<le> int j \<and> \<not> cached_all p gids (hs ! j)))"

definition search_state :: "block_pool \<Rightarrow> int list \<Rightarrow> bytes list \<Rightarrow> nat \<Rightarrow> nat \<Rightarrow> nat \<Rightarrow> bref list list \<Rightarrow> bool" where
  "search_state p gids hs M i run cs \<longleftrightarrow> uniform_len gids cs M \<and> i + run \<le> M \<and>
     (\<forall>k < length gids. \<forall>j < M. (i \<le> j \<and> j < i + run \<longrightarrow> hit_block p (gids ! k) (hs ! j) (cs ! k ! j)) \<and>
        (j < i \<longrightarrow> cs ! k ! j = null_block p))"

lemma search_state_hit:
  assumes "search_state p gids hs M (Suc i) run cs" "hit_row p gids (hs ! i) bs"
  shows "search_state p gids hs M i (Suc run) (set_each i cs bs)"
  using assms unfolding search_state_def uniform_len_def hit_row_def set_each_def
  by (auto simp: nth_list_update)

lemma search_state_skip: "search_state p gids hs M (Suc i) run cs \<Longrightarrow> search_state p gids hs M i 0 cs"
  unfolding search_state_def uniform_len_def by auto

definition run_found :: "block_pool \<Rightarrow> int list \<Rightarrow> bytes list \<Rightarrow> nat \<Rightarrow> nat \<Rightarrow> bref list list \<Rightarrow> bool" where
  "run_found p gids hs run e cs \<longleftrightarrow> uniform_len gids cs e \<and> run \<le> e \<and>
     (\<forall>k < length gids. \<forall>j < e. (e - run \<le> j \<longrightarrow> hit_block p (gids ! k) (hs ! j) (cs ! k ! j)) \<and>
        (j < e - run \<longrightarrow> cs ! k ! j = null_block p))"

lemma search_state_found:
  assumes "search_state p gids hs M i run cs"
  shows "run_found p gids hs run (i + run) (map (take (i + run)) cs)"
  using assms unfolding search_state_def run_found_def uniform_len_def by auto

lemma search_state_prefix:
  assumes "search_state p gids hs M 0 run cs" "M \<le> length hs"
  shows "prefix_hit p gids hs (map (take run) cs) run"
  using assms unfolding search_state_def prefix_hit_def uniform_len_def by auto

lemma no_run_after_miss:
  assumes "no_run_after p gids hs endp need (Suc i + run) M" "\<not> cached_all p gids (hs ! i)"
    and "int run < need"
  shows "no_run_after p gids hs endp need i M"
  unfolding no_run_after_def
proof (intro allI impI)
  fix k assume k: "i < k \<and> k \<le> M \<and> endp k"
  show "\<exists>j < k. int k - need \<le> int j \<and> \<not> cached_all p gids (hs ! j)"
  proof (cases "k \<le> Suc i + run")
    case True
    thus ?thesis using k assms(2,3) by (intro exI [of _ i]) auto
  next
    case False
    thus ?thesis using k assms(1) by (auto simp: no_run_after_def)
  qed
qed

lemma no_run_after_skip:
  assumes "no_run_after p gids hs endp need (Suc i) M" "\<not> endp (Suc i)"
  shows "no_run_after p gids hs endp need i M"
  using assms unfolding no_run_after_def by (metis Suc_leI le_neq_implies_less)

lemma sliding_hit_loop_law:
  assumes "pool_inv p fl" "groups_ok gids" "al \<noteq> 0" "\<forall>i < M. hash_at i hl = Inr (hs ! i)" "1 \<le> need"
    and "search_state p gids hs M i run cs" "0 < run \<Longrightarrow> run_end eagle bs al (i + run)" "int run < need"
    and "no_run_after p gids hs (run_end eagle bs al) need (i + run) M"
  shows "\<exists>cs' run' found. sliding_hit_loop p gids hl bs al eagle need i run cs = Inr (cs', run', found) \<and>
    (if found then int run' = need \<and> (\<exists>e \<le> M. run_found p gids hs run' e cs' \<and> run_end eagle bs al e \<and>
         no_run_after p gids hs (run_end eagle bs al) need e M)
     else search_state p gids hs M 0 run' cs' \<and> (0 < run' \<longrightarrow> run_end eagle bs al run') \<and> int run' < need \<and>
         no_run_after p gids hs (run_end eagle bs al) need run' M)"
  using assms(6-)
proof (induction i arbitrary: run cs)
  case (Suc i)
  have iM: "i < M" using Suc.prems(1) by (simp add: search_state_def)
  hence h: "hash_at i hl = Inr (hs ! i)" using assms(4) by blast
  show ?case
  proof (rule lookup_hit_cases [OF assms(1,2), of "hs ! i"])
    assume l: "lookup_hit p gids (hs ! i) = Inr None" "\<not> cached_all p gids (hs ! i)"
    have "no_run_after p gids hs (run_end eagle bs al) need (i + 0) M"
      using no_run_after_miss [OF _ l(2) Suc.prems(3)] Suc.prems(4) by simp
    from Suc.IH [OF search_state_skip [OF Suc.prems(1)] _ _ this] show ?thesis using h l assms(5) by simp
  next
    fix b assume l: "lookup_hit p gids (hs ! i) = Inr (Some b)" "hit_row p gids (hs ! i) b"
    note hit = search_state_hit [OF Suc.prems(1) l(2)]
    consider (unaligned) "run = 0" "\<not> run_end eagle bs al (Suc i)"
      | (more) "run_end eagle bs al (Suc i + run)" "int (Suc run) < need"
      | (full) "run_end eagle bs al (Suc i + run)" "need = int (Suc run)"
      using Suc.prems(2,3) by (cases "run = 0") fastforce+
    thus ?thesis
    proof cases
      case unaligned
      have none: "no_run_after p gids hs (run_end eagle bs al) need (i + 0) M"
        using no_run_after_skip [where endp = "run_end eagle bs al"] unaligned Suc.prems(4) by simp
      have "sliding_hit_loop p gids hl bs al eagle need (Suc i) run cs =
          sliding_hit_loop p gids hl bs al eagle need i 0 cs"
        using h l(1) unaligned assms(3) by (simp add: run_end_Suc)
      thus ?thesis using Suc.IH [OF search_state_skip [OF Suc.prems(1)] _ _ none] assms(5) by simp
    next
      case more
      have ok: "\<not> (run = 0 \<and> bs \<noteq> al \<and> (if eagle then int i else int i + 1) * bs mod al \<noteq> 0)"
        using more(1) run_end_Suc [of eagle bs al i] by auto
      have "sliding_hit_loop p gids hl bs al eagle need (Suc i) run cs =
          sliding_hit_loop p gids hl bs al eagle need i (Suc run) (set_each i cs b)"
        using h l(1) ok more(2) assms(3) by (simp only: sliding_hit_loop.simps bindE_Inr option.case Let_def) simp
      thus ?thesis using Suc.IH [OF hit] more Suc.prems(4) by simp
    next
      case full
      have ok: "\<not> (run = 0 \<and> bs \<noteq> al \<and> (if eagle then int i else int i + 1) * bs mod al \<noteq> 0)"
        using full(1) run_end_Suc [of eagle bs al i] by auto
      have e: "i + Suc run \<le> M" using hit by (simp add: search_state_def)
      have "sliding_hit_loop p gids hl bs al eagle need (Suc i) run cs =
          Inr (map (take (i + Suc run)) (set_each i cs b), Suc run, True)"
        using h l(1) ok full(2) assms(3) by (simp only: sliding_hit_loop.simps bindE_Inr option.case Let_def) simp
      thus ?thesis using search_state_found [OF hit] full Suc.prems(4) e
        by (intro exI [of _ "map (take (i + Suc run)) (set_each i cs b)"] exI [of _ "Suc run"] exI [of _ True])
          (auto intro!: exI [of _ "i + Suc run"])
    qed
  qed
qed (auto intro: exI [of _ False])

lemma pop_each_len: "uniform_len gids cs n \<Longrightarrow> uniform_len gids (pop_each cs) (n - 1)"
  by (simp add: uniform_len_def pop_each_def)

lemma uniform_len_hd: "uniform_len gids cs n \<Longrightarrow> groups_ok gids \<Longrightarrow> cs \<noteq> [] \<and> length (hd cs) = n"
  by (cases cs) (auto simp: uniform_len_def groups_ok_def)

lemma align_hit_noop:
  assumes "uniform_len gids cs n" "groups_ok gids" "aligned bs al n" "al \<noteq> 0"
  shows "align_hit bs al cs = Inr cs"
  using assms(3,4) uniform_len_hd [OF assms(1,2)] by (auto simp: align_hit_def aligned_def align_loop_stop)

text \<open>
  A usable sliding-window hit of \<open>n\<close> blocks: the last \<open>w\<close> blocks carry the requested hashes, the
  others do so too or are the null block.
\<close>

definition window_hit ::
  "block_pool \<Rightarrow> int list \<Rightarrow> bytes list \<Rightarrow> int \<Rightarrow> bref list list \<Rightarrow> nat \<Rightarrow> bool" where
  "window_hit p gids hs w cs n \<longleftrightarrow> uniform_len gids cs n \<and>
     (\<forall>k < length gids. \<forall>j < n. (int n - w \<le> int j \<longrightarrow> hit_block p (gids ! k) (hs ! j) (cs ! k ! j)) \<and>
        (hit_block p (gids ! k) (hs ! j) (cs ! k ! j) \<or> cs ! k ! j = null_block p))"

lemma prefix_window_hit: "prefix_hit p gids hs cs n \<Longrightarrow> window_hit p gids hs w cs n"
  by (simp add: prefix_hit_def window_hit_def)

lemma run_found_at:
  assumes "run_found p gids hs run n cs" "k < length gids" "j < n"
  shows "hit_block p (gids ! k) (hs ! j) (cs ! k ! j) \<or> cs ! k ! j = null_block p"
    and "int n - int run \<le> int j \<Longrightarrow> hit_block p (gids ! k) (hs ! j) (cs ! k ! j)"
proof -
  have "run \<le> n" using assms(1) by (simp add: run_found_def)
  hence "int n - int run \<le> int j \<longleftrightarrow> n - run \<le> j" by linarith
  thus "int n - int run \<le> int j \<Longrightarrow> hit_block p (gids ! k) (hs ! j) (cs ! k ! j)"
    using assms by (simp add: run_found_def)
  show "hit_block p (gids ! k) (hs ! j) (cs ! k ! j) \<or> cs ! k ! j = null_block p"
    using assms by (cases "n - run \<le> j") (simp_all add: run_found_def)
qed

lemma run_window_hit:
  assumes "run_found p gids hs run n cs" "w \<le> int run"
  shows "window_hit p gids hs w cs n"
  unfolding window_hit_def
proof (intro conjI allI impI)
  show "uniform_len gids cs n" using assms(1) by (simp add: run_found_def)
  fix k j assume kj: "k < length gids" "j < n"
  show "hit_block p (gids ! k) (hs ! j) (cs ! k ! j) \<or> cs ! k ! j = null_block p"
    by (rule run_found_at(1) [OF assms(1) kj])
  assume "int n - w \<le> int j"
  thus "hit_block p (gids ! k) (hs ! j) (cs ! k ! j)"
    using assms(2) by (intro run_found_at(2) [OF assms(1) kj]) linarith
qed

lemma run_window_hit_pop:
  assumes "run_found p gids hs run n cs" "w + 1 \<le> int run" "1 \<le> run"
  shows "window_hit p gids hs w (pop_each cs) (n - 1)"
  unfolding window_hit_def
proof (intro conjI allI impI)
  have len: "uniform_len gids cs n" "run \<le> n" using assms(1) by (simp_all add: run_found_def)
  show "uniform_len gids (pop_each cs) (n - 1)" using len(1) by (rule pop_each_len)
  fix k j assume kj: "k < length gids" "j < n - 1"
  hence jn: "j < n" and nth: "pop_each cs ! k ! j = cs ! k ! j"
    using len by (simp_all add: uniform_len_def pop_each_def nth_butlast)
  show "hit_block p (gids ! k) (hs ! j) (pop_each cs ! k ! j) \<or> pop_each cs ! k ! j = null_block p"
    unfolding nth by (rule run_found_at(1) [OF assms(1) kj(1) jn])
  assume "int (n - 1) - w \<le> int j"
  thus "hit_block p (gids ! k) (hs ! j) (pop_each cs ! k ! j)"
    unfolding nth using assms(2,3) len(2) by (intro run_found_at(2) [OF assms(1) kj(1) jn]) linarith
qed

definition windowed :: "kv_cache_spec \<Rightarrow> int" where
  "windowed spec = cdiv (spec_window spec - 1) (block_size_of spec)"

lemma contiguous_eq:
  "contiguous_blocks_for_hit (spec_window spec) (block_size_of spec) eagle = windowed spec + (if eagle then 1 else 0)"
  by (simp add: contiguous_blocks_for_hit_def windowed_def)

lemma windowed_pos:
  assumes "0 < block_size_of spec" "1 < spec_window spec"
  shows "1 \<le> windowed spec"
proof (rule ccontr)
  assume "\<not> 1 \<le> windowed spec"
  hence "windowed spec * block_size_of spec \<le> 0" using assms(1) by (simp add: mult_le_0_iff)
  thus False using cdiv_upper [OF assms(1), of "spec_window spec - 1"] assms(2) by (simp add: windowed_def)
qed

lemma sliding_finish_found:
  assumes "run_found p gids hs run e cs" "run_end eagle bs al e" "int run = w + (if eagle then 1 else 0)" "1 \<le> run"
    and "groups_ok gids" "al \<noteq> 0"
  shows "\<exists>cs'. sliding_finish bs al eagle cs = Inr cs' \<and> window_hit p gids hs w cs' (eagle_len eagle e) \<and>
    aligned bs al (eagle_len eagle e)"
proof (cases eagle)
  case False
  thus ?thesis using run_window_hit [OF assms(1), of w] assms(2,3)
    by (simp add: sliding_finish_def eagle_len_def run_end_def)
next
  case True
  have len: "uniform_len gids cs e" "run \<le> e" using assms(1) by (simp_all add: run_found_def)
  have al: "aligned bs al (e - 1)" using assms(2) True by (simp add: run_end_def eagle_len_def)
  have "align_hit bs al (pop_each cs) = Inr (pop_each cs)"
    by (rule align_hit_noop [OF pop_each_len [OF len(1)] assms(5) al assms(6)])
  hence "sliding_finish bs al eagle cs = Inr (pop_each cs)"
    using uniform_len_hd [OF len(1) assms(5)] len(2) assms(4) True by (auto simp: sliding_finish_def)
  thus ?thesis using run_window_hit_pop [OF assms(1), of w] assms(3,4) al True by (simp add: eagle_len_def)
qed

lemma sliding_finish_prefix:
  assumes "prefix_hit p gids hs cs k" "aligned bs al k" "groups_ok gids" "al \<noteq> 0"
  shows "\<exists>cs' n. sliding_finish bs al eagle cs = Inr cs' \<and> prefix_hit p gids hs cs' n \<and> n \<le> k \<and>
    aligned bs al n \<and> (\<not> eagle \<longrightarrow> n = k)"
proof (cases "eagle \<and> hd cs \<noteq> []")
  case True
  obtain cs' n where "align_hit bs al (pop_each cs) = Inr cs'" "n \<le> k - 1" "prefix_hit p gids hs cs' n" "aligned bs al n"
    using align_hit_law [OF prefix_hit_pop [OF assms(1)] assms(3,4), of bs] by blast
  thus ?thesis using True prefix_hit_groups [OF assms(1,3)]
    by (intro exI [of _ cs'] exI [of _ n]) (auto simp: sliding_finish_def)
next
  case False
  have "sliding_finish bs al eagle cs = Inr cs"
    using False prefix_hit_groups [OF assms(1,3)] by (auto simp: sliding_finish_def)
  thus ?thesis using assms(1,2) by (intro exI [of _ cs] exI [of _ k]) simp
qed

lemma no_run_after_end: "no_run_after p gids hs endp need M M"
  unfolding no_run_after_def by auto

lemma sliding_find_law:
  assumes "pool_inv p fl" "groups_ok gids" "is_sliding_instance spec" "0 < block_size_of spec" "1 < spec_window spec"
    and "al \<noteq> 0" "\<forall>i < nat (max_length div block_size_of spec). hash_at i hl = Inr (hs ! i)"
    and "nat (max_length div block_size_of spec) \<le> length hs"
  defines "M \<equiv> nat (max_length div block_size_of spec)"
  shows "\<exists>cs n. sliding_find_longest_cache_hit hl max_length gids p spec eagle al 1 1 = Inr cs \<and> n \<le> M \<and>
    window_hit p gids hs (windowed spec) cs n \<and> aligned (block_size_of spec) al n \<and>
    (\<not> eagle \<longrightarrow> no_run_after p gids hs (aligned (block_size_of spec) al) (windowed spec) n M)"
proof -
  let ?bs = "block_size_of spec" and ?w = "windowed spec"
  define E where "E = run_end eagle ?bs al"
  define need where "need = ?w + (if eagle then 1 else 0)"
  have need: "1 \<le> need" using windowed_pos [OF assms(4,5)] by (auto simp: need_def)
  define c0 where "c0 = replicate (length gids) (replicate M (null_block p))"
  have st: "search_state p gids hs M M 0 c0" by (auto simp: search_state_def uniform_len_def c0_def)
  obtain c1 run found where loop: "sliding_hit_loop p gids hl ?bs al eagle need M 0 c0 = Inr (c1, run, found)"
    and post: "if found then int run = need \<and> (\<exists>e \<le> M. run_found p gids hs run e c1 \<and> E e \<and>
         no_run_after p gids hs E need e M)
     else search_state p gids hs M 0 run c1 \<and> (0 < run \<longrightarrow> E run) \<and> int run < need \<and>
         no_run_after p gids hs E need run M"
    using sliding_hit_loop_law [OF assms(1,2,6) assms(7) [folded M_def] need st, where eagle = eagle and bs = ?bs, folded E_def]
      need no_run_after_end by fastforce
  have E: "E = aligned ?bs al" if "\<not> eagle" using that by (auto simp: E_def run_end_def eagle_len_def)
  have unfold: "sliding_find_longest_cache_hit hl max_length gids p spec eagle al 1 1 =
      bindE (if found then Inr c1 else align_hit ?bs al (map (take run) c1)) (sliding_finish ?bs al eagle)"
    using loop assms(3)
    by (simp add: sliding_find_longest_cache_hit_def Let_def contiguous_eq flip: M_def need_def c0_def)
  show ?thesis
  proof (cases found)
    case True
    then obtain e where e: "int run = need" "e \<le> M" "run_found p gids hs run e c1" "E e" "no_run_after p gids hs E need e M"
      using post by auto
    obtain cs where "sliding_finish ?bs al eagle c1 = Inr cs" "window_hit p gids hs ?w cs (eagle_len eagle e)"
      "aligned ?bs al (eagle_len eagle e)"
      using sliding_finish_found [OF e(3) e(4) [unfolded E_def] e(1) [unfolded need_def] _ assms(2,6)] e(1) need by auto
    thus ?thesis unfolding unfold using True e(2,5) E
      by (intro exI [of _ cs] exI [of _ "eagle_len eagle e"]) (auto simp: eagle_len_def need_def)
  next
    case False
    have pre: "prefix_hit p gids hs (map (take run) c1) run" "run \<le> M" "no_run_after p gids hs E need run M"
      using post False search_state_prefix [OF _ assms(8) [folded M_def]] by (simp_all add: search_state_def)
    obtain c2 k where c2: "align_hit ?bs al (map (take run) c1) = Inr c2" "k \<le> run" "prefix_hit p gids hs c2 k"
      "aligned ?bs al k" "\<forall>j. k < j \<and> j \<le> run \<longrightarrow> \<not> aligned ?bs al j"
      using align_hit_law [OF pre(1) assms(2,6), of ?bs] by blast
    have last: "no_run_after p gids hs (aligned ?bs al) ?w k M" if "\<not> eagle"
      using pre(3) c2(5) E [OF that] that unfolding no_run_after_def need_def by (metis add_0_right linorder_not_le)
    obtain cs n where "sliding_finish ?bs al eagle c2 = Inr cs" "prefix_hit p gids hs cs n" "n \<le> k" "aligned ?bs al n"
      "\<not> eagle \<longrightarrow> n = k"
      using sliding_finish_prefix [OF c2(3,4) assms(2,6), of eagle] by blast
    thus ?thesis unfolding unfold using False c2(1,2) pre(2) last prefix_window_hit
      by (intro exI [of _ cs] exI [of _ n]) auto
  qed
qed

section \<open>Correctness of the lookups\<close>

text \<open>
  C35: for full attention the lookup returns, for every group, the blocks that carry the hashes of a prefix
  of the request, and this prefix is the longest one that is cached in all groups, fits into the given
  length and ends on the alignment (after the last block was given up for EAGLE).
\<close>

theorem full_hit_longest:
  fixes eagle :: bool
  assumes "pool_inv p fl" "groups_ok gids" "is_instance spec C_Full"
    and "hashes_from 0 hl = Inr hs" "0 < al" "0 < block_size_of spec" "0 \<le> max_length"
  defines "bs \<equiv> block_size_of spec"
  defines "n1 \<equiv> eagle_len eagle (length (takeWhile (cached_all p gids) (take (nat (max_length div bs)) hs)))"
  shows "\<exists>cs n. find_longest_cache_hit FullAttentionManager hl max_length gids p spec eagle al 1 1 = Inr cs \<and>
    length cs = length gids \<and> n \<le> n1 \<and> int n * bs \<le> max_length \<and> aligned bs al n \<and>
    (\<forall>k < length gids. length (cs ! k) = n \<and> (\<forall>i < n. hit_block p (gids ! k) (hs ! i) (cs ! k ! i))) \<and>
    (\<forall>j. n < j \<and> j \<le> n1 \<longrightarrow> \<not> aligned bs al j)"
proof -
  have bs: "full_block_size spec 1 1 = bs" by (simp add: full_block_size_def bs_def)
  have nn: "0 \<le> max_length div bs" using assms(6,7) by (simp add: bs_def pos_imp_zdiv_nonneg_iff)
  obtain cs n where r: "full_find_longest_cache_hit hl max_length gids p spec eagle al 1 1 = Inr cs"
    "prefix_hit p gids hs cs n" "n \<le> n1" "aligned bs al n" "\<forall>j. n < j \<and> j \<le> n1 \<longrightarrow> \<not> aligned bs al j"
    using full_find_law [OF assms(1,2) disjI1 [OF assms(3)] assms(4), of al max_length 1 1 eagle] assms(5) nn
    unfolding bs n1_def by auto
  have "n1 \<le> nat (max_length div bs)"
    using takeWhile_take_le [of "cached_all p gids" "nat (max_length div bs)" hs]
    unfolding n1_def eagle_len_def by (cases eagle) auto
  hence "int n \<le> max_length div bs" using r(3) nn by linarith
  hence "int n * bs \<le> max_length" using assms(6) by (simp add: le_div_iff bs_def)
  thus ?thesis using r by (intro exI [of _ cs] exI [of _ n]) (auto simp: find_longest_cache_hit_def prefix_hit_def uniform_len_def)
qed


section \<open>Witnesses\<close>

lemma fresh_pool:
  obtains p where "pool_init 4 True 16 False False None = Inr p" "pool_inv p (map Blk [1..<nat 4])"
    "\<forall>b \<in> usable p. refc p b = 0 \<and> bhash p b = None"
  using pool_init_law [of 4 True 16 False False None] by auto

theorem full_hit_longest_witness:
  "\<exists>p. pool_init 4 True 16 False False None = Inr p \<and>
     find_longest_cache_hit FullAttentionManager (Plain [[1], [2]]) 32 [0] p
       (new_full_spec demo_attention None None None) False 16 1 1 = Inr [[]]"
proof -
  obtain p where p: "pool_init 4 True 16 False False None = Inr p" "pool_inv p (map Blk [1..<nat 4])"
    "\<forall>b \<in> usable p. refc p b = 0 \<and> bhash p b = None" by (rule fresh_pool)
  let ?s = "new_full_spec demo_attention None None None"
  have miss: "\<not> cached_all p [0] h" for h using p(3) by (auto simp: cached_all_def)
  have spec: "is_instance ?s C_Full" "block_size_of ?s = 16"
    by (simp_all add: is_instance_def new_full_spec_def class_of_spec_def mro_def block_size_of_def demo_attention_def)
  have "groups_ok [0]" "hashes_from 0 (Plain [[1], [2]]) = Inr [[1], [2]]"
    by (simp_all add: groups_ok_def hashes_from_def)
  from full_hit_longest [OF p(2) this(1) spec(1) this(2), of 16 32 False]
  obtain cs where "find_longest_cache_hit FullAttentionManager (Plain [[1], [2]]) 32 [0] p ?s False 16 1 1 = Inr cs"
    "length cs = 1" "length (cs ! 0) = 0"
    using miss by (auto simp: spec(2) eagle_len_def numeral_2_eq_2)
  thus ?thesis using p(1) by (cases cs) auto
qed


end
