(* ===== verification/Kv_Coordinator.thy ===== *)
theory Kv_Coordinator
  imports Cache_Hits
begin

text \<open>
  The coordinators of \<^verbatim>\<open>vllm/v1/core/kv_cache_coordinator.py\<close>: one object that owns the block pool and
  one manager per KV-cache group and applies each operation to all of them. The three subclasses (no
  prefix cache, one group, several groups) are a field; a method a subclass overrides dispatches on it.
  The environment variable that sets the retention interval is an argument of the constructor.
\<close>

section \<open>State and construction\<close>

record kv_cache_group =
  layer_names :: "string list"
  group_spec :: kv_cache_spec
  is_eagle_group :: bool

record kv_cache_config =
  num_blocks :: int
  kv_cache_groups :: "kv_cache_group list"

record spec_group =
  sg_spec :: kv_cache_spec
  sg_group_ids :: "nat list"
  sg_manager_cls :: manager_class
  sg_use_eagle :: bool

datatype coordinator_class = NoPrefixCache | Unitary | Hybrid

record coordinator =
  co_class :: coordinator_class
  co_config :: kv_cache_config
  co_enable_caching :: bool
  co_scheduler_block_size :: int
  co_hash_block_size :: int
  co_block_pool :: block_pool
  eagle_group_ids :: "nat list"
  single_type_managers :: "kv_manager list"
  retention_interval :: "int option"
  co_block_size :: int
  co_dcp_world_size :: int
  co_pcp_world_size :: int
  attention_groups :: "spec_group list"

definition validate_retention_interval :: "int option \<Rightarrow> int \<Rightarrow> kv_cache_config \<Rightarrow> unit res" where
  "validate_retention_interval ret sbs cfg =
     (case ret of
        None \<Rightarrow> Inr ()
      | Some r \<Rightarrow>
          bindE (guardE (\<exists>g \<in> set (kv_cache_groups cfg). is_sliding_instance (group_spec g)) ValueError) (\<lambda>_.
            guardE (\<not> (r < 0 \<or> r mod sbs \<noteq> 0)) ValueError))"

definition eagle_groups :: "bool \<Rightarrow> kv_cache_config \<Rightarrow> nat list" where
  "eagle_groups eagle_on cfg =
     (let ids = filter (\<lambda>i. is_eagle_group (kv_cache_groups cfg ! i)) [0..<length (kv_cache_groups cfg)]
      in if eagle_on \<and> ids = [] then [0..<length (kv_cache_groups cfg)] else ids)"

fun make_managers ::
  "registry \<Rightarrow> int \<Rightarrow> int \<Rightarrow> block_pool \<Rightarrow> bool \<Rightarrow> int \<Rightarrow> int \<Rightarrow> int \<Rightarrow> nat \<Rightarrow> kv_cache_group list \<Rightarrow> kv_manager list res" where
  "make_managers reg batched len p caching sbs dcp pcp i [] = Inr []"
| "make_managers reg batched len p caching sbs dcp pcp i (g # gs) =
     bindE (get_manager_for_kv_cache_spec reg (group_spec g) batched len p caching (int i) sbs dcp pcp) (\<lambda>m.
       bindE (make_managers reg batched len p caching sbs dcp pcp (Suc i) gs) (\<lambda>ms. Inr (m # ms)))"

definition coordinator_init ::
  "registry \<Rightarrow> coordinator_class \<Rightarrow> kv_cache_config \<Rightarrow> int \<Rightarrow> int \<Rightarrow> bool \<Rightarrow> bool \<Rightarrow> bool \<Rightarrow> int \<Rightarrow> int \<Rightarrow> int \<Rightarrow> int \<Rightarrow>
   bool \<Rightarrow> metrics_call list option \<Rightarrow> int option \<Rightarrow> coordinator res" where
  "coordinator_init reg cls cfg len batched eagle_on caching events dcp pcp sbs hbs use_int metrics ret =
     bindE (guardE (sbs mod hbs = 0 \<and>
              (\<forall>g \<in> set (kv_cache_groups cfg). sbs mod block_size_of (group_spec g) = 0)) AssertionError) (\<lambda>_.
     bindE (pool_init (num_blocks cfg) caching hbs events use_int metrics) (\<lambda>p.
     bindE (make_managers reg batched len p caching sbs dcp pcp 0 (kv_cache_groups cfg)) (\<lambda>ms.
     bindE (validate_retention_interval ret sbs cfg) (\<lambda>_.
       Inr \<lparr>co_class = cls, co_config = cfg, co_enable_caching = caching, co_scheduler_block_size = sbs,
            co_hash_block_size = hbs, co_block_pool = p, eagle_group_ids = eagle_groups eagle_on cfg,
            single_type_managers = ms, retention_interval = ret, co_block_size = 0,
            co_dcp_world_size = dcp, co_pcp_world_size = pcp, attention_groups = []\<rparr>))))"

definition unitary_init :: "coordinator \<Rightarrow> coordinator res" where
  "unitary_init co =
     (case kv_cache_groups (co_config co) of
        [] \<Rightarrow> Inl IndexError
      | g # _ \<Rightarrow>
          let b0 = block_size_of (group_spec g);
              b1 = (if co_dcp_world_size co > 1 then b0 * co_dcp_world_size co else b0);
              b2 = (if co_pcp_world_size co > 1 then b1 * co_pcp_world_size co else b1)
          in bindE (guardE (\<not> co_enable_caching co \<or> co_hash_block_size co = b2) AssertionError) (\<lambda>_.
             bindE (guardE (length (kv_cache_groups (co_config co)) = 1) AssertionError) (\<lambda>_.
               Inr (co\<lparr>co_block_size := b2,
                 single_type_managers := map (\<lambda>m. m\<lparr>use_eagle := 0 \<in> set (eagle_group_ids co)\<rparr>) (single_type_managers co)\<rparr>))))"

text \<open>Groups with equal specs are looked up together; the first match in the list takes the group.\<close>

fun add_to_spec_groups ::
  "nat \<Rightarrow> kv_cache_spec \<Rightarrow> manager_class \<Rightarrow> bool \<Rightarrow> spec_group list \<Rightarrow> spec_group list res" where
  "add_to_spec_groups i spec cls eagle [] =
     Inr [\<lparr>sg_spec = spec, sg_group_ids = [i], sg_manager_cls = cls, sg_use_eagle = eagle\<rparr>]"
| "add_to_spec_groups i spec cls eagle (g # gs) =
     (if sg_spec g = spec
      then bindE (guardE (cls = sg_manager_cls g) AssertionError) (\<lambda>_.
             Inr (g\<lparr>sg_group_ids := sg_group_ids g @ [i], sg_use_eagle := sg_use_eagle g \<or> eagle\<rparr> # gs))
      else bindE (add_to_spec_groups i spec cls eagle gs) (\<lambda>gs'. Inr (g # gs')))"

definition split_kv_cache_groups :: "kv_cache_group list \<Rightarrow> kv_manager list \<Rightarrow> nat list \<Rightarrow> spec_group list res" where
  "split_kv_cache_groups groups ms eagle_ids =
     foldE (\<lambda>(i, g, m) gs. add_to_spec_groups i (group_spec g) (mgr_class m) (i \<in> set eagle_ids) gs)
       (enumerate 0 (zip groups ms)) []"

definition is_full_group :: "spec_group \<Rightarrow> bool" where
  "is_full_group g \<longleftrightarrow> is_instance (sg_spec g) C_Full"

definition hybrid_init :: "coordinator \<Rightarrow> coordinator res" where
  "hybrid_init co =
     bindE (guardE (\<forall>g \<in> set (kv_cache_groups (co_config co)).
                      block_size_of (group_spec g) mod co_hash_block_size co = 0) AssertionError) (\<lambda>_.
     bindE (guardE (co_dcp_world_size co = 1) AssertionError) (\<lambda>_.
     bindE (guardE (co_pcp_world_size co = 1) AssertionError) (\<lambda>_.
     bindE (split_kv_cache_groups (kv_cache_groups (co_config co)) (single_type_managers co) (eagle_group_ids co)) (\<lambda>gs.
     bindE (guardE (length gs > 1) AssertionError) (\<lambda>_.
       let ordered = filter is_full_group gs @ filter (\<lambda>g. \<not> is_full_group g) gs;
           eagle = concat (map sg_group_ids (filter sg_use_eagle ordered))
       in Inr (co\<lparr>attention_groups := ordered,
            single_type_managers :=
              map (\<lambda>(i, m). if i \<in> set eagle then m\<lparr>use_eagle := True\<rparr> else m) (enumerate 0 (single_type_managers co))\<rparr>))))))"

definition get_kv_cache_coordinator ::
  "registry \<Rightarrow> kv_cache_config \<Rightarrow> int \<Rightarrow> int \<Rightarrow> bool \<Rightarrow> bool \<Rightarrow> bool \<Rightarrow> int \<Rightarrow> int \<Rightarrow> int \<Rightarrow> int \<Rightarrow>
   bool \<Rightarrow> metrics_call list option \<Rightarrow> int option \<Rightarrow> coordinator res" where
  "get_kv_cache_coordinator reg cfg len batched eagle_on caching events dcp pcp sbs hbs use_int metrics ret =
     (if \<not> caching
      then coordinator_init reg NoPrefixCache cfg len batched eagle_on False events dcp pcp sbs hbs use_int metrics ret
      else if length (kv_cache_groups cfg) = 1
      then bindE (coordinator_init reg Unitary cfg len batched eagle_on caching events dcp pcp sbs hbs use_int metrics ret)
             unitary_init
      else bindE (coordinator_init reg Hybrid cfg len batched eagle_on caching events dcp pcp sbs hbs use_int metrics ret)
             hybrid_init)"

section \<open>Operations on all managers\<close>

fun each_manager ::
  "(nat \<Rightarrow> kv_manager \<times> block_pool \<Rightarrow> ('a \<times> kv_manager \<times> block_pool) res) \<Rightarrow> nat \<Rightarrow> kv_manager list \<Rightarrow> block_pool \<Rightarrow>
   ('a list \<times> kv_manager list \<times> block_pool) res" where
  "each_manager f i [] p = Inr ([], [], p)"
| "each_manager f i (m # ms) p =
     bindE (f i (m, p)) (\<lambda>(x, m', p').
       bindE (each_manager f (Suc i) ms p') (\<lambda>(xs, ms', p''). Inr (x # xs, m' # ms', p'')))"

definition with_unit :: "(kv_manager \<times> block_pool) res \<Rightarrow> (unit \<times> kv_manager \<times> block_pool) res" where
  "with_unit r = bindE r (\<lambda>(m, p). Inr ((), m, p))"

definition on_managers ::
  "(nat \<Rightarrow> kv_manager \<times> block_pool \<Rightarrow> ('a \<times> kv_manager \<times> block_pool) res) \<Rightarrow> coordinator \<Rightarrow>
   ('a list \<times> coordinator) res" where
  "on_managers f co =
     bindE (each_manager f 0 (single_type_managers co) (co_block_pool co)) (\<lambda>(xs, ms, p).
       Inr (xs, co\<lparr>single_type_managers := ms, co_block_pool := p\<rparr>))"

definition co_get_num_blocks_to_allocate ::
  "string \<Rightarrow> int \<Rightarrow> bref list list \<Rightarrow> int \<Rightarrow> int \<Rightarrow> int \<Rightarrow> bool \<Rightarrow> coordinator \<Rightarrow> (int \<times> coordinator) res" where
  "co_get_num_blocks_to_allocate rid ntok new_computed enc_tokens total_computed main_tokens cap co =
     bindE (on_managers (\<lambda>i (m, p).
        if mgr_class m = CrossAttentionManager
        then bindE (get_num_blocks_to_allocate m p rid enc_tokens [] 0 enc_tokens cap) (\<lambda>(n, m'). Inr (n, m', p))
        else bindE (py_index new_computed (int i)) (\<lambda>nc.
             bindE (get_num_blocks_to_allocate m p rid ntok nc total_computed main_tokens cap) (\<lambda>(n, m').
               Inr (n, m', p)))) co) (\<lambda>(ns, co'). Inr (sum_list ns, co'))"

definition co_allocate_new_computed_blocks ::
  "string \<Rightarrow> bref list list \<Rightarrow> int \<Rightarrow> int \<Rightarrow> coordinator \<Rightarrow> coordinator res" where
  "co_allocate_new_computed_blocks rid new_computed local_tokens external_tokens co =
     bindE (on_managers (\<lambda>i mp. bindE (py_index new_computed (int i)) (\<lambda>nc.
        with_unit (allocate_new_computed_blocks rid nc local_tokens external_tokens mp))) co) (\<lambda>(_, co'). Inr co')"

definition co_allocate_new_blocks ::
  "string \<Rightarrow> int \<Rightarrow> int \<Rightarrow> int \<Rightarrow> coordinator \<Rightarrow> (bref list list \<times> coordinator) res" where
  "co_allocate_new_blocks rid ntok main_tokens enc_tokens co =
     on_managers (\<lambda>_ mp.
       allocate_new_blocks rid (if mgr_class (fst mp) = CrossAttentionManager then enc_tokens else ntok) main_tokens mp) co"

text \<open>The request is passed along because the event code may fill its memo of embedding hashes.\<close>

fun cache_each ::
  "(kv_manager \<Rightarrow> int) \<Rightarrow> (bytes \<Rightarrow> bytes) \<Rightarrow> int option \<Rightarrow> kv_manager list \<Rightarrow> block_pool \<Rightarrow> request \<Rightarrow>
   (kv_manager list \<times> block_pool \<times> request) res" where
  "cache_each tokens eh ret [] p r = Inr ([], p, r)"
| "cache_each tokens eh ret (m # ms) p r =
     bindE (cache_blocks eh r (tokens m) ret (m, p)) (\<lambda>((m', p'), r').
       bindE (cache_each tokens eh ret ms p' r') (\<lambda>(ms', p'', r''). Inr (m' # ms', p'', r'')))"

definition tokens_to_cache :: "coordinator \<Rightarrow> int \<Rightarrow> kv_manager \<Rightarrow> int" where
  "tokens_to_cache co num_computed m =
     (if co_class co = Hybrid
      then let al = num_computed div co_scheduler_block_size co * co_scheduler_block_size co
           in if use_eagle m \<and> al > 0 then min num_computed (al + mgr_block_size m) else al
      else num_computed)"

definition co_cache_blocks ::
  "(bytes \<Rightarrow> bytes) \<Rightarrow> request \<Rightarrow> int \<Rightarrow> coordinator \<Rightarrow> (coordinator \<times> request) res" where
  "co_cache_blocks eh r num_computed co =
     bindE (cache_each (tokens_to_cache co num_computed) eh (retention_interval co) (single_type_managers co)
              (co_block_pool co) r) (\<lambda>(ms, p, r').
       Inr (co\<lparr>single_type_managers := ms, co_block_pool := p\<rparr>, r'))"

definition co_free :: "string \<Rightarrow> coordinator \<Rightarrow> coordinator res" where
  "co_free rid co = bindE (on_managers (\<lambda>_ mp. with_unit (manager_free rid mp)) co) (\<lambda>(_, co'). Inr co')"

definition co_remove_skipped_blocks :: "string \<Rightarrow> int \<Rightarrow> coordinator \<Rightarrow> coordinator res" where
  "co_remove_skipped_blocks rid total_computed co =
     bindE (on_managers (\<lambda>_ mp. with_unit (remove_skipped_blocks rid total_computed mp)) co) (\<lambda>(_, co'). Inr co')"

definition co_get_num_common_prefix_blocks :: "string \<Rightarrow> coordinator \<Rightarrow> nat list \<times> coordinator" where
  "co_get_num_common_prefix_blocks rid co =
     (if co_class co = NoPrefixCache then (replicate (length (single_type_managers co)) 0, co)
      else let rs = map (\<lambda>m. get_num_common_prefix_blocks rid (m, co_block_pool co)) (single_type_managers co)
           in (map fst rs, co\<lparr>single_type_managers := map snd rs\<rparr>))"

definition co_get_blocks :: "string \<Rightarrow> coordinator \<Rightarrow> bref list list" where
  "co_get_blocks rid co = map (\<lambda>m. row_of m rid) (single_type_managers co)"

definition co_new_step_starts :: "coordinator \<Rightarrow> coordinator" where
  "co_new_step_starts co = co\<lparr>single_type_managers := map new_step_starts (single_type_managers co)\<rparr>"

section \<open>The longest hit over all groups\<close>

definition unitary_find_longest_cache_hit :: "bytes list \<Rightarrow> int \<Rightarrow> coordinator \<Rightarrow> (bref list list \<times> int) res" where
  "unitary_find_longest_cache_hit hs max_length co =
     (case (single_type_managers co, kv_cache_groups (co_config co)) of
        (m # _, g # _) \<Rightarrow>
          bindE (find_longest_cache_hit (mgr_class m) (Plain hs) max_length [0] (co_block_pool co) (group_spec g)
                   (0 \<in> set (eagle_group_ids co)) (co_block_size co) (co_dcp_world_size co) (co_pcp_world_size co))
            (\<lambda>cs. case cs of [] \<Rightarrow> Inl IndexError | c # _ \<Rightarrow> Inr (cs, int (length c) * co_block_size co))
      | _ \<Rightarrow> Inl IndexError)"

text \<open>The state of the hybrid search: candidate length, blocks per group, verified EAGLE groups.\<close>

type_synonym search = "int \<times> bref list option list \<times> nat list"

definition group_hashes :: "int \<Rightarrow> bytes list \<Rightarrow> kv_cache_spec \<Rightarrow> hash_list res" where
  "group_hashes hbs hs spec =
     (if block_size_of spec = hbs then Inr (Plain hs)
      else bindE (make_hash_view hs hbs (block_size_of spec)) (\<lambda>v. Inr (View v)))"

definition store_group_blocks :: "nat list \<Rightarrow> bref list list \<Rightarrow> bref list option list \<Rightarrow> bref list option list" where
  "store_group_blocks gids cs by = fold (\<lambda>(g, c) b. b[g := Some c]) (zip gids cs) by"

definition hybrid_check ::
  "block_pool \<Rightarrow> bytes list \<Rightarrow> int \<Rightarrow> int \<Rightarrow> int \<Rightarrow> nat \<times> spec_group \<Rightarrow> search \<Rightarrow> search res" where
  "hybrid_check p hs hbs sbs max_length ig s =
     (let (idx, g) = ig; (len, by, verified) = s; spec = sg_spec g; bs = block_size_of spec
      in bindE (py_index (sg_group_ids g) 0) (\<lambda>g0.
         bindE (py_index by (int g0)) (\<lambda>cached.
           if is_full_group g \<and> cached \<noteq> None then Inr (len div bs * bs, by, verified)
           else let drop_block = sg_use_eagle g \<and> idx \<notin> set verified;
                    max_len = (if drop_block then min (len + bs) max_length else len)
                in bindE (group_hashes hbs hs spec) (\<lambda>hl.
                   bindE (find_longest_cache_hit (sg_manager_cls g) hl max_len (map int (sg_group_ids g)) p spec
                            drop_block sbs 1 1) (\<lambda>cs.
                   case cs of
                     [] \<Rightarrow> Inl IndexError
                   | c # _ \<Rightarrow>
                       let new_len = int (length c) * bs;
                           verified' = (if drop_block then List.insert idx verified
                                        else if new_len < len then [] else verified)
                       in Inr (new_len, store_group_blocks (sg_group_ids g) cs by, verified'))))))"

definition hybrid_pass ::
  "block_pool \<Rightarrow> bytes list \<Rightarrow> int \<Rightarrow> int \<Rightarrow> int \<Rightarrow> spec_group list \<Rightarrow> search \<Rightarrow> search res" where
  "hybrid_pass p hs hbs sbs max_length groups s =
     foldE (hybrid_check p hs hbs sbs max_length) (enumerate 0 groups) s"

text \<open>The outer \<^verbatim>\<open>while True\<close> loop; not returning is the value \<open>None\<close>.\<close>

partial_function (option) hybrid_loop ::
  "block_pool \<Rightarrow> bytes list \<Rightarrow> int \<Rightarrow> int \<Rightarrow> int \<Rightarrow> spec_group list \<Rightarrow> bool \<Rightarrow> search \<Rightarrow>
   (py_error + int \<times> bref list option list) option" where
  "hybrid_loop p hs hbs sbs max_length groups simple s =
     (case hybrid_pass p hs hbs sbs max_length groups s of
        Inl e \<Rightarrow> Some (Inl e)
      | Inr (len, by, verified) \<Rightarrow>
          if len \<ge> fst s then Some (Inr (fst s, by))
          else if simple then Some (Inr (len, by))
          else hybrid_loop p hs hbs sbs max_length groups simple (len, by, verified))"

definition truncate_full :: "spec_group list \<Rightarrow> int \<Rightarrow> bref list option list \<Rightarrow> bref list option list" where
  "truncate_full groups hit_length by =
     (case groups of
        [] \<Rightarrow> by
      | g # _ \<Rightarrow>
          if is_full_group g
          then fold (\<lambda>gid b. b[gid := map_option (take (nat (hit_length div block_size_of (sg_spec g)))) (b ! gid)])
                 (sg_group_ids g) by
          else by)"

definition hybrid_find_longest_cache_hit ::
  "bytes list \<Rightarrow> int \<Rightarrow> coordinator \<Rightarrow> (py_error + bref list list \<times> int) option" where
  "hybrid_find_longest_cache_hit hs max_length co =
     (let groups = attention_groups co;
          simple = (length groups = 2 \<and> is_full_group (groups ! 0));
          start = (max_length, replicate (length (kv_cache_groups (co_config co))) None, [])
      in map_option (\<lambda>r. bindE r (\<lambda>(len, by).
             Inr (map (\<lambda>b. case b of None \<Rightarrow> [] | Some c \<Rightarrow> c) (truncate_full groups len by), len)))
           (hybrid_loop (co_block_pool co) hs (co_hash_block_size co) (co_scheduler_block_size co) max_length
              groups simple start))"

definition co_find_longest_cache_hit ::
  "bytes list \<Rightarrow> int \<Rightarrow> coordinator \<Rightarrow> (py_error + bref list list \<times> int) option" where
  "co_find_longest_cache_hit hs max_length co =
     (case co_class co of
        NoPrefixCache \<Rightarrow> Some (Inr (replicate (length (single_type_managers co)) [], 0))
      | Unitary \<Rightarrow> Some (unitary_find_longest_cache_hit hs max_length co)
      | Hybrid \<Rightarrow> hybrid_find_longest_cache_hit hs max_length co)"

end
