(* ===== verification/Kv_Cache_Manager.thy ===== *)
theory Kv_Cache_Manager
  imports Kv_Coordinator
begin

text \<open>
  The interface between scheduler and KV cache: \<^verbatim>\<open>vllm/v1/core/kv_cache_manager.py\<close> and the statistics of
  the prefix cache in \<^verbatim>\<open>vllm/v1/metrics/stats.py\<close>. The object that stands for "no blocks" is shared and
  compared by identity in the source, so it is a constructor of its own here.
\<close>

section \<open>Statistics\<close>

record prefix_cache_stats =
  stats_reset :: bool
  stats_requests :: int
  stats_queries :: int
  stats_hits :: int
  preempted_requests :: int
  preempted_queries :: int
  preempted_hits :: int

definition new_stats :: prefix_cache_stats where
  "new_stats = \<lparr>stats_reset = False, stats_requests = 0, stats_queries = 0, stats_hits = 0,
     preempted_requests = 0, preempted_queries = 0, preempted_hits = 0\<rparr>"

definition record_stats :: "int \<Rightarrow> int \<Rightarrow> bool \<Rightarrow> prefix_cache_stats \<Rightarrow> prefix_cache_stats" where
  "record_stats ntok nhits preempted s =
     (if preempted
      then s\<lparr>preempted_requests := preempted_requests s + 1, preempted_queries := preempted_queries s + ntok,
             preempted_hits := preempted_hits s + nhits\<rparr>
      else s\<lparr>stats_requests := stats_requests s + 1, stats_queries := stats_queries s + ntok,
             stats_hits := stats_hits s + nhits\<rparr>)"

section \<open>Blocks of a request\<close>

datatype kv_cache_blocks = Empty_Blocks | Kv_Blocks "bref list list"

record kv_cache_manager =
  km_max_model_len :: int
  km_enable_caching :: bool
  km_log_stats :: bool
  km_stats :: "prefix_cache_stats option"
  km_coordinator :: coordinator
  event_metadata :: "(spec_kind \<times> int option) list"

definition num_groups :: "kv_cache_manager \<Rightarrow> nat" where
  "num_groups km = length (kv_cache_groups (co_config (km_coordinator km)))"

definition blocks_list :: "kv_cache_manager \<Rightarrow> kv_cache_blocks \<Rightarrow> bref list list" where
  "blocks_list km kb = (case kb of Empty_Blocks \<Rightarrow> replicate (num_groups km) [] | Kv_Blocks bs \<Rightarrow> bs)"

definition create_kv_cache_blocks :: "bref list list \<Rightarrow> kv_cache_blocks" where
  "create_kv_cache_blocks bs = (if \<exists>b \<in> set bs. b \<noteq> [] then Kv_Blocks bs else Empty_Blocks)"

definition add_kv_cache_blocks :: "kv_cache_manager \<Rightarrow> kv_cache_blocks \<Rightarrow> kv_cache_blocks \<Rightarrow> kv_cache_blocks" where
  "add_kv_cache_blocks km a b = Kv_Blocks (map2 (@) (blocks_list km a) (blocks_list km b))"

definition blocks_get_block_ids :: "block_pool \<Rightarrow> bref list list \<Rightarrow> bool \<Rightarrow> int list list option" where
  "blocks_get_block_ids p bs allow_none =
     (if allow_none \<and> (\<forall>g \<in> set bs. length g = 0) then None
      else Some (map (map (\<lambda>b. block_id (pheap p b))) bs))"

definition get_unhashed_block_ids :: "block_pool \<Rightarrow> bref list list \<Rightarrow> int list res" where
  "get_unhashed_block_ids p bs =
     (case bs of
        [g] \<Rightarrow> Inr (map (\<lambda>b. block_id (pheap p b)) (filter (\<lambda>b. block_hash (pheap p b) = None) g))
      | _ \<Rightarrow> Inl AssertionError)"

definition get_unhashed_block_ids_all_groups :: "block_pool \<Rightarrow> bref list list \<Rightarrow> int list list" where
  "get_unhashed_block_ids_all_groups p bs =
     map (\<lambda>g. map (\<lambda>b. block_id (pheap p b))
            (filter (\<lambda>b. block_hash (pheap p b) = None \<and> \<not> is_null (pheap p b)) g)) bs"

section \<open>The manager\<close>

definition manager_new ::
  "registry \<Rightarrow> kv_cache_config \<Rightarrow> int \<Rightarrow> int \<Rightarrow> int \<Rightarrow> int option \<Rightarrow> bool \<Rightarrow> bool \<Rightarrow> bool \<Rightarrow> bool \<Rightarrow> int \<Rightarrow> int \<Rightarrow> bool \<Rightarrow>
   metrics_call list option \<Rightarrow> int option \<Rightarrow> kv_cache_manager res" where
  "manager_new reg cfg len sbs hbs batched caching eagle_on log_stats events dcp pcp use_int metrics ret =
     bindE (get_kv_cache_coordinator reg cfg len (case batched of None \<Rightarrow> len | Some b \<Rightarrow> b) eagle_on caching events
              dcp pcp sbs hbs use_int metrics ret) (\<lambda>co.
       Inr \<lparr>km_max_model_len = len, km_enable_caching = caching, km_log_stats = log_stats,
            km_stats = (if log_stats then Some new_stats else None), km_coordinator = co,
            event_metadata = map (\<lambda>g. (get_kv_cache_spec_kind (group_spec g),
                                       get_kv_cache_spec_sliding_window (group_spec g))) (kv_cache_groups cfg)\<rparr>)"

definition km_pool :: "kv_cache_manager \<Rightarrow> block_pool" where
  "km_pool km = co_block_pool (km_coordinator km)"

definition km_usage :: "kv_cache_manager \<Rightarrow> real" where
  "km_usage km = get_usage (km_pool km)"

definition make_prefix_cache_stats :: "kv_cache_manager \<Rightarrow> prefix_cache_stats option \<times> kv_cache_manager" where
  "make_prefix_cache_stats km =
     (if \<not> km_log_stats km then (None, km) else (km_stats km, km\<lparr>km_stats := Some new_stats\<rparr>))"

definition get_computed_blocks ::
  "request \<Rightarrow> kv_cache_manager \<Rightarrow> (py_error + (kv_cache_blocks \<times> int) \<times> kv_cache_manager) option" where
  "get_computed_blocks r km =
     (if \<not> km_enable_caching km \<or> skip_reading_prefix_cache r then Some (Inr ((Empty_Blocks, 0), km))
      else map_option (\<lambda>res. bindE res (\<lambda>(bs, n).
             if km_log_stats km
             then (case km_stats km of
                     None \<Rightarrow> Inl AssertionError
                   | Some s \<Rightarrow> Inr ((create_kv_cache_blocks bs, n),
                       km\<lparr>km_stats := Some (record_stats (num_tokens r) n (num_preemptions r > 0) s)\<rparr>))
             else Inr ((create_kv_cache_blocks bs, n), km)))
           (co_find_longest_cache_hit (block_hashes r) (num_tokens r - 1) (km_coordinator km)))"

text \<open>The first stage of \<^verbatim>\<open>allocate_slots\<close>: the gate for the full sequence.\<close>

definition full_sequence_fits ::
  "request \<Rightarrow> bref list list \<Rightarrow> int \<Rightarrow> int \<Rightarrow> kv_cache_manager \<Rightarrow> (bool \<times> kv_cache_manager) res" where
  "full_sequence_fits r computed enc_tokens total_computed km =
     (let full = min (num_tokens r) (km_max_model_len km)
      in bindE (co_get_num_blocks_to_allocate (request_id r) full computed enc_tokens total_computed full True
                  (km_coordinator km)) (\<lambda>(n, co).
           Inr (\<not> n > get_num_free_blocks (co_block_pool co), km\<lparr>km_coordinator := co\<rparr>)))"

text \<open>The last stage: adopt computed blocks, allocate, cache.\<close>

definition commit_slots ::
  "(bytes \<Rightarrow> bytes) \<Rightarrow> request \<Rightarrow> kv_cache_blocks \<Rightarrow> int \<Rightarrow> int \<Rightarrow> int \<Rightarrow> int \<Rightarrow> int \<Rightarrow> int \<Rightarrow> bool \<Rightarrow> kv_cache_manager \<Rightarrow>
   ((kv_cache_blocks option \<times> kv_cache_manager) \<times> request) res" where
  "commit_slots eh r ncb local_tokens ext_tokens need_slot main_tokens enc_tokens cache_upto delay km =
     (let rid = request_id r; computed = blocks_list km ncb
      in bindE (if ncb \<noteq> Empty_Blocks \<or> ext_tokens > 0
                then co_allocate_new_computed_blocks rid computed local_tokens ext_tokens (km_coordinator km)
                else Inr (km_coordinator km)) (\<lambda>co1.
         bindE (co_allocate_new_blocks rid need_slot main_tokens enc_tokens co1) (\<lambda>(new_blocks, co2).
           if \<not> km_enable_caching km \<or> delay
           then Inr ((Some (create_kv_cache_blocks new_blocks), km\<lparr>km_coordinator := co2\<rparr>), r)
           else bindE (co_cache_blocks eh r cache_upto co2) (\<lambda>(co3, r').
                  Inr ((Some (create_kv_cache_blocks new_blocks), km\<lparr>km_coordinator := co3\<rparr>), r')))))"

definition allocate_slots ::
  "(bytes \<Rightarrow> bytes) \<Rightarrow> request \<Rightarrow> int \<Rightarrow> int \<Rightarrow> kv_cache_blocks option \<Rightarrow> int \<Rightarrow> int \<Rightarrow> bool \<Rightarrow> int \<Rightarrow> bool \<Rightarrow> int \<Rightarrow>
   kv_cache_manager \<Rightarrow> ((kv_cache_blocks option \<times> kv_cache_manager) \<times> request) res" where
  "allocate_slots eh r num_new num_new_computed new_computed lookahead ext_tokens delay enc_tokens must_fit reserved km =
     (if num_new = 0 \<and> ext_tokens = 0 then Inl ValueError
      else
        let ncb = (case new_computed of None \<Rightarrow> Empty_Blocks | Some b \<Rightarrow> b);
            computed = blocks_list km ncb;
            local_tokens = num_computed_tokens r + num_new_computed;
            tot = min (local_tokens + ext_tokens) (km_max_model_len km)
        in bindE (if must_fit then full_sequence_fits r computed enc_tokens tot km else Inr (True, km)) (\<lambda>(fits, km0).
             if \<not> fits then Inr ((None, km0), r)
             else
               let main_tokens = tot + num_new;
                   need_slot = min (main_tokens + lookahead) (km_max_model_len km)
               in bindE (co_remove_skipped_blocks (request_id r) tot (km_coordinator km0)) (\<lambda>co1.
                  bindE (co_get_num_blocks_to_allocate (request_id r) need_slot computed enc_tokens
                           (local_tokens + ext_tokens) main_tokens False co1) (\<lambda>(n, co2).
                    let km2 = km0\<lparr>km_coordinator := co2\<rparr>
                    in if n > get_num_free_blocks (co_block_pool co2) - reserved then Inr ((None, km2), r)
                       else commit_slots eh r ncb local_tokens ext_tokens need_slot main_tokens enc_tokens
                              (min (tot + num_new) (num_tokens r)) delay km2))))"

definition km_free :: "request \<Rightarrow> kv_cache_manager \<Rightarrow> kv_cache_manager res" where
  "km_free r km = bindE (co_free (request_id r) (km_coordinator km)) (\<lambda>co. Inr (km\<lparr>km_coordinator := co\<rparr>))"

definition km_remove_skipped_blocks :: "string \<Rightarrow> int \<Rightarrow> kv_cache_manager \<Rightarrow> kv_cache_manager res" where
  "km_remove_skipped_blocks rid total_computed km =
     bindE (co_remove_skipped_blocks rid total_computed (km_coordinator km)) (\<lambda>co. Inr (km\<lparr>km_coordinator := co\<rparr>))"

definition set_pool :: "block_pool \<Rightarrow> kv_cache_manager \<Rightarrow> kv_cache_manager" where
  "set_pool p km = km\<lparr>km_coordinator := (km_coordinator km)\<lparr>co_block_pool := p\<rparr>\<rparr>"

definition km_evict_blocks :: "int list \<Rightarrow> kv_cache_manager \<Rightarrow> kv_cache_manager res" where
  "km_evict_blocks ids km = bindE (evict_blocks ids (km_pool km)) (\<lambda>p. Inr (set_pool p km))"

definition km_reset_prefix_cache :: "kv_cache_manager \<Rightarrow> (bool \<times> kv_cache_manager) res" where
  "km_reset_prefix_cache km =
     (let (ok, p) = reset_prefix_cache (km_pool km); km1 = set_pool p km
      in if \<not> ok then Inr (False, km1)
         else if km_log_stats km1
         then (case km_stats km1 of
                 None \<Rightarrow> Inl AssertionError
               | Some s \<Rightarrow> Inr (True, km1\<lparr>km_stats := Some (s\<lparr>stats_reset := True\<rparr>)\<rparr>))
         else Inr (True, km1))"

definition annotate_event :: "(spec_kind \<times> int option) list \<Rightarrow> kv_event \<Rightarrow> kv_event \<times> (spec_kind \<times> int option) option" where
  "annotate_event meta e =
     (case e of
        Block_Stored _ _ _ _ _ _ _ g \<Rightarrow> (e, if g < 0 \<or> g \<ge> int (length meta) then None else Some (meta ! nat g))
      | _ \<Rightarrow> (e, None))"

definition km_take_events ::
  "kv_cache_manager \<Rightarrow> (kv_event \<times> (spec_kind \<times> int option) option) list \<times> kv_cache_manager" where
  "km_take_events km =
     (let (es, p) = take_events (km_pool km) in (map (annotate_event (event_metadata km)) es, set_pool p km))"

definition km_get_blocks :: "string \<Rightarrow> kv_cache_manager \<Rightarrow> kv_cache_blocks" where
  "km_get_blocks rid km = create_kv_cache_blocks (co_get_blocks rid (km_coordinator km))"

definition km_get_block_ids :: "string \<Rightarrow> kv_cache_manager \<Rightarrow> int list list" where
  "km_get_block_ids rid km =
     map (map (\<lambda>b. block_id (pheap (km_pool km) b))) (blocks_list km (km_get_blocks rid km))"

definition km_cache_blocks ::
  "(bytes \<Rightarrow> bytes) \<Rightarrow> request \<Rightarrow> int \<Rightarrow> kv_cache_manager \<Rightarrow> (kv_cache_manager \<times> request) res" where
  "km_cache_blocks eh r num_computed km =
     (if km_enable_caching km
      then bindE (co_cache_blocks eh r num_computed (km_coordinator km)) (\<lambda>(co, r'). Inr (km\<lparr>km_coordinator := co\<rparr>, r'))
      else Inr (km, r))"

definition km_take_new_block_ids :: "kv_cache_manager \<Rightarrow> int list \<times> kv_cache_manager" where
  "km_take_new_block_ids km =
     (let co = km_coordinator km; rs = map take_new_block_ids (single_type_managers co)
      in (concat (map fst rs), km\<lparr>km_coordinator := co\<lparr>single_type_managers := map snd rs\<rparr>\<rparr>))"

definition km_new_step_starts :: "kv_cache_manager \<Rightarrow> kv_cache_manager" where
  "km_new_step_starts km = km\<lparr>km_coordinator := co_new_step_starts (km_coordinator km)\<rparr>"

definition km_get_num_common_prefix_blocks :: "string \<Rightarrow> kv_cache_manager \<Rightarrow> nat list \<times> kv_cache_manager" where
  "km_get_num_common_prefix_blocks rid km =
     (let (ns, co) = co_get_num_common_prefix_blocks rid (km_coordinator km) in (ns, km\<lparr>km_coordinator := co\<rparr>))"

end
