(* ===== verification/Hybrid_Search.thy ===== *)
theory Hybrid_Search
  imports Hits_Correct Kv_Cache_Manager
begin

text \<open>
  The prefix lookup over several groups, \<^verbatim>\<open>HybridKVCacheCoordinator.find_longest_cache_hit\<close>: the outer loop
  ends for every pool, list of hashes and list of groups.
\<close>

section \<open>The loop ends\<close>

text \<open>One group: a full-attention group that was looked up before only trims the length.\<close>

lemma hybrid_check_cases:
  assumes "hybrid_check p hs hbs sbs max_length (idx, g) (len, bl, verified) = Inr s'"
  obtains (trim) g0 where "is_full_group g" "py_index (sg_group_ids g) 0 = Inr g0" "\<exists>c. py_index bl (int g0) = Inr (Some c)"
      "s' = (len div block_size_of (sg_spec g) * block_size_of (sg_spec g), bl, verified)"
  | (find) g0 cached hl c cs v eagle max_len where
      "py_index (sg_group_ids g) 0 = Inr g0" "py_index bl (int g0) = Inr cached" "is_full_group g \<longrightarrow> cached = None"
      "group_hashes hbs hs (sg_spec g) = Inr hl"
      "find_longest_cache_hit (sg_manager_cls g) hl max_len (map int (sg_group_ids g)) p (sg_spec g) eagle sbs 1 1 = Inr (c # cs)"
      "eagle \<longleftrightarrow> sg_use_eagle g \<and> idx \<notin> set verified"
      "max_len = (if eagle then min (len + block_size_of (sg_spec g)) max_length else len)"
      "s' = (int (length c) * block_size_of (sg_spec g), store_group_blocks (sg_group_ids g) (c # cs) bl, v)"
proof -
  obtain g0 where g0: "py_index (sg_group_ids g) 0 = Inr g0"
    using assms by (cases "py_index (sg_group_ids g) 0") (simp_all add: hybrid_check_def Let_def)
  obtain cached where cached: "py_index bl (int g0) = Inr cached"
    using assms g0 by (cases "py_index bl (int g0)") (simp_all add: hybrid_check_def Let_def)
  show thesis
  proof (cases "is_full_group g \<and> cached \<noteq> None")
    case True
    thus thesis using assms g0 cached by (intro trim [of g0]) (auto simp: hybrid_check_def Let_def)
  next
    case False
    define eagle where "eagle \<longleftrightarrow> sg_use_eagle g \<and> idx \<notin> set verified"
    define max_len where "max_len = (if eagle then min (len + block_size_of (sg_spec g)) max_length else len)"
    obtain hl where hl: "group_hashes hbs hs (sg_spec g) = Inr hl"
      using assms g0 cached False by (cases "group_hashes hbs hs (sg_spec g)") (auto simp: hybrid_check_def Let_def)
    let ?find = "find_longest_cache_hit (sg_manager_cls g) hl max_len (map int (sg_group_ids g)) p (sg_spec g) eagle sbs 1 1"
    have run: "bindE ?find (\<lambda>cs. case cs of [] \<Rightarrow> Inl IndexError | c # _ \<Rightarrow>
        Inr (int (length c) * block_size_of (sg_spec g), store_group_blocks (sg_group_ids g) cs bl,
          if eagle then List.insert idx verified else if int (length c) * block_size_of (sg_spec g) < len then [] else verified)) = Inr s'"
      using assms unfolding hybrid_check_def Let_def prod.case eagle_def [symmetric] max_len_def [symmetric] g0 cached
        bindE_Inr if_not_P [OF False] hl .
    then obtain cs0 where cs0: "?find = Inr cs0" by (cases ?find) simp_all
    show thesis
    proof (cases cs0)
      case (Cons c cs)
      thus thesis using run cs0 g0 cached False hl
        by (intro find [of g0 cached hl max_len eagle c cs]) (auto simp: eagle_def max_len_def)
    qed (use run cs0 in simp)
  qed
qed

lemma hybrid_check_nonneg:
  assumes "hybrid_check p hs hbs sbs max_length ig s = Inr s'" "0 < block_size_of (sg_spec (snd ig))" "0 \<le> fst s"
  shows "0 \<le> fst s'"
proof -
  obtain idx g len bl v where s: "ig = (idx, g)" "s = (len, bl, v)" by (metis prod_cases3 surj_pair)
  show ?thesis using assms(1) unfolding s
    by (rule hybrid_check_cases) (use assms(2,3) s in \<open>auto simp: pos_imp_zdiv_nonneg_iff\<close>)
qed

lemma hybrid_pass_nonneg:
  assumes "hybrid_pass p hs hbs sbs max_length groups s = Inr s'" "\<forall>g \<in> set groups. 0 < block_size_of (sg_spec g)" "0 \<le> fst s"
  shows "0 \<le> fst s'"
proof (rule foldE_invariant [where P = "\<lambda>s. 0 \<le> fst s", OF assms(1) [unfolded hybrid_pass_def] assms(3)])
  fix ig s s'
  assume a: "ig \<in> set (enumerate 0 groups)" "0 \<le> fst s" "hybrid_check p hs hbs sbs max_length ig s = Inr s'"
  have "fst ig < length groups" "groups ! fst ig = snd ig" using a(1) by (simp_all add: in_set_enumerate_eq)
  hence "snd ig \<in> set groups" by (metis nth_mem)
  hence "0 < block_size_of (sg_spec (snd ig))" using assms(2) by blast
  thus "0 \<le> fst s'" by (rule hybrid_check_nonneg [OF a(3) _ a(2)])
qed

lemma hybrid_loop_total:
  assumes "\<forall>g \<in> set groups. 0 < block_size_of (sg_spec g)" "0 \<le> fst s"
  shows "\<exists>r. hybrid_loop p hs hbs sbs max_length groups simple s = Some r"
  using assms(2)
proof (induction "nat (fst s)" arbitrary: s rule: less_induct)
  case less
  show ?case
  proof (cases "hybrid_pass p hs hbs sbs max_length groups s")
    case (Inl e)
    thus ?thesis by (subst hybrid_loop.simps) simp
  next
    case (Inr s')
    obtain len bl verified where s': "s' = (len, bl, verified)" by (metis prod_cases3)
    show ?thesis
    proof (cases "len \<ge> fst s \<or> simple")
      case True
      thus ?thesis using Inr s' by (subst hybrid_loop.simps) auto
    next
      case False
      have "0 \<le> len" using hybrid_pass_nonneg [OF Inr assms(1) less.prems] s' by simp
      hence "\<exists>r. hybrid_loop p hs hbs sbs max_length groups simple (len, bl, verified) = Some r"
        using False by (intro less.hyps) auto
      thus ?thesis using False Inr s' by (subst hybrid_loop.simps) simp
    qed
  qed
qed

text \<open>
  C6: The fixed-point loop of the hybrid prefix lookup ends for every pool, every hash list and every
  combination of groups with positive block sizes: the call returns blocks and a length, or raises.
\<close>

theorem hybrid_lookup_terminates:
  assumes "\<forall>g \<in> set (attention_groups co). 0 < block_size_of (sg_spec g)" "0 \<le> max_length"
  shows "\<exists>r. hybrid_find_longest_cache_hit hs max_length co = Some r"
proof -
  have "\<exists>r. hybrid_loop (co_block_pool co) hs (co_hash_block_size co) (co_scheduler_block_size co) max_length (attention_groups co)
      simple (max_length, bl, []) = Some r" for simple bl
    using hybrid_loop_total [OF assms(1), of "(max_length, bl, [])"] assms(2) by simp
  thus ?thesis by (simp add: hybrid_find_longest_cache_hit_def Let_def)
qed

theorem hybrid_lookup_terminates_witness:
  "\<exists>p r. pool_init 4 True 16 False False None = Inr p \<and> hybrid_find_longest_cache_hit [[1], [2]] 40
     \<lparr>co_class = Hybrid, co_config = \<lparr>num_blocks = 4, kv_cache_groups = []\<rparr>, co_enable_caching = True,
      co_scheduler_block_size = 16, co_hash_block_size = 16, co_block_pool = p, eagle_group_ids = [],
      single_type_managers = [], retention_interval = None, co_block_size = 0, co_dcp_world_size = 1, co_pcp_world_size = 1,
      attention_groups = [\<lparr>sg_spec = new_full_spec demo_attention None None None, sg_group_ids = [0],
        sg_manager_cls = FullAttentionManager, sg_use_eagle = False\<rparr>]\<rparr> = Some r"
proof -
  obtain p where "pool_init 4 True 16 False False None = Inr p"
    using pool_init_law [of 4 True 16 False False None] by auto
  moreover have "\<exists>r. hybrid_find_longest_cache_hit [[1], [2]] 40
     \<lparr>co_class = Hybrid, co_config = \<lparr>num_blocks = 4, kv_cache_groups = []\<rparr>, co_enable_caching = True,
      co_scheduler_block_size = 16, co_hash_block_size = 16, co_block_pool = p, eagle_group_ids = [],
      single_type_managers = [], retention_interval = None, co_block_size = 0, co_dcp_world_size = 1, co_pcp_world_size = 1,
      attention_groups = [\<lparr>sg_spec = new_full_spec demo_attention None None None, sg_group_ids = [0],
        sg_manager_cls = FullAttentionManager, sg_use_eagle = False\<rparr>]\<rparr> = Some r"
    by (rule hybrid_lookup_terminates) (simp_all add: new_full_spec_def block_size_of_def demo_attention_def)
  ultimately show ?thesis by blast
qed

end
