(* ===== verification/Evict_Policy.thy ===== *)
theory Evict_Policy
  imports Prelude
begin

text \<open>
  The eviction policy, the part of \<^verbatim>\<open>vllm/kv_evict\<close> that runs on plain numbers: planning and selection
  (\<^verbatim>\<open>selection.py\<close>), the per-sequence bookkeeping (\<^verbatim>\<open>manager.py\<close>) and the compaction of the block table for
  the attention read (\<^verbatim>\<open>compaction.py\<close>). A NumPy row is a list of integers, a NumPy index array a list of
  positions. The importance scores are elements of any linear order: floats without NaN, or floats with NaN
  as the greatest element, which is where NumPy sorts it. A length divided by the block size is rounded up
  exactly; the 32-bit float quotient of the torch variant agrees for lengths below \<open>2 ^ 24\<close>.
\<close>

section \<open>Selection\<close>

definition NULL_BLOCK_ID :: int where
  "NULL_BLOCK_ID = 0"

definition plan_eviction :: "int list \<Rightarrow> int \<Rightarrow> int \<Rightarrow> int \<Rightarrow> nat list \<times> int list \<times> int" where
  "plan_eviction row num_sink_blocks num_local_blocks kv_budget =
     (let real_indices = filter (\<lambda>j. row ! j \<noteq> NULL_BLOCK_ID) [0..<length row];
          num_real = int (length real_indices);
          num_to_evict = num_real - kv_budget
      in if num_to_evict \<le> 0 then (real_indices, [], 0)
         else let lo = num_sink_blocks; hi = num_real - num_local_blocks
              in if hi \<le> lo then (real_indices, [], 0)
                 else let candidates_k = [lo..hi - 1]
                      in (real_indices, candidates_k, min num_to_evict (int (length candidates_k))))"

text \<open>\<^verbatim>\<open>scores[ck]\<close> reads every candidate's score or raises; the stable sort is HOL's \<open>sort_key\<close>.\<close>

fun mapE :: "('a \<Rightarrow> 'b res) \<Rightarrow> 'a list \<Rightarrow> 'b list res" where
  "mapE f [] = Inr []"
| "mapE f (x # xs) = bindE (f x) (\<lambda>y. bindE (mapE f xs) (\<lambda>ys. Inr (y # ys)))"

definition argsort :: "'s::linorder list \<Rightarrow> nat list" where
  "argsort s = sort_key (\<lambda>i. s ! i) [0..<length s]"

definition choose_lowest :: "int list \<Rightarrow> 's::linorder list \<Rightarrow> int \<Rightarrow> int list res" where
  "choose_lowest candidates_k scores num_to_evict =
     (if num_to_evict \<le> 0 \<or> candidates_k = [] then Inr []
      else bindE (mapE (py_index scores) candidates_k) (\<lambda>s.
        Inr (map (\<lambda>i. candidates_k ! i) (take (nat num_to_evict) (argsort s)))))"

section \<open>The bookkeeping of the eviction manager\<close>

record eviction_config =
  ec_block_size :: int
  kv_budget :: int
  num_sink_blocks :: int
  num_local_blocks :: int
  ec_metric :: string

definition new_eviction_config :: "int \<Rightarrow> int \<Rightarrow> int \<Rightarrow> int \<Rightarrow> string \<Rightarrow> eviction_config res" where
  "new_eviction_config bs budget sink local metric =
     bindE (guardE (\<not> bs \<le> 0) ValueError) (\<lambda>_.
     bindE (guardE (\<not> budget \<le> 0) ValueError) (\<lambda>_.
     bindE (guardE (\<not> (sink < 0 \<or> local < 0)) ValueError) (\<lambda>_.
     bindE (guardE (\<not> budget < sink + local) ValueError) (\<lambda>_.
       Inr \<lparr>ec_block_size = bs, kv_budget = budget, num_sink_blocks = sink, num_local_blocks = local,
            ec_metric = metric\<rparr>))))"

text \<open>\<^verbatim>\<open>_seqs\<close> maps a sequence to its number of evicted blocks, the one field of \<^verbatim>\<open>_SeqState\<close>.\<close>

record eviction_manager =
  ev_config :: eviction_config
  ev_seqs :: "(int \<times> int) list"

definition new_eviction_manager :: "eviction_config \<Rightarrow> eviction_manager" where
  "new_eviction_manager cfg = \<lparr>ev_config = cfg, ev_seqs = []\<rparr>"

definition register_seq :: "int \<Rightarrow> eviction_manager \<Rightarrow> eviction_manager" where
  "register_seq sid em = em\<lparr>ev_seqs := AList.update sid 0 (ev_seqs em)\<rparr>"

definition deregister_seq :: "int \<Rightarrow> eviction_manager \<Rightarrow> eviction_manager" where
  "deregister_seq sid em = em\<lparr>ev_seqs := AList.delete sid (ev_seqs em)\<rparr>"

definition is_registered :: "int \<Rightarrow> eviction_manager \<Rightarrow> bool" where
  "is_registered sid em \<longleftrightarrow> map_of (ev_seqs em) sid \<noteq> None"

definition require_seq :: "int \<Rightarrow> eviction_manager \<Rightarrow> int res" where
  "require_seq sid em = (case map_of (ev_seqs em) sid of None \<Rightarrow> Inl KeyError | Some st \<Rightarrow> Inr st)"

definition seq_num_blocks :: "int \<Rightarrow> int \<Rightarrow> eviction_manager \<Rightarrow> int res" where
  "seq_num_blocks sid total_len em =
     bindE (require_seq sid em) (\<lambda>st. Inr (cdiv total_len (ec_block_size (ev_config em)) - st))"

definition protected_indices :: "int \<Rightarrow> eviction_manager \<Rightarrow> int set" where
  "protected_indices n em =
     (let c = ev_config em; local_start = max 0 (n - num_local_blocks c)
      in set [0..min (num_sink_blocks c) n - 1] \<union> set [local_start..n - 1])"

definition should_evict :: "int \<Rightarrow> int \<Rightarrow> eviction_manager \<Rightarrow> bool res" where
  "should_evict sid total_len em =
     bindE (require_seq sid em) (\<lambda>_.
       if \<not> (total_len > 0 \<and> total_len mod ec_block_size (ev_config em) = 0) then Inr False
       else bindE (seq_num_blocks sid total_len em) (\<lambda>n. Inr (n > kv_budget (ev_config em))))"

text \<open>Python's \<^verbatim>\<open>min\<close> with a key keeps the first of several minimal elements.\<close>

fun min_by :: "('a \<Rightarrow> 's::linorder) \<Rightarrow> 'a \<Rightarrow> 'a list \<Rightarrow> 'a" where
  "min_by f x [] = x"
| "min_by f x (y # ys) = min_by f (if f y < f x then y else x) ys"

definition pick_block :: "int \<Rightarrow> int \<Rightarrow> 's::linorder list \<Rightarrow> eviction_manager \<Rightarrow> int res" where
  "pick_block sid total_len scores em =
     bindE (seq_num_blocks sid total_len em) (\<lambda>n.
     bindE (guardE (int (length scores) = n) ValueError) (\<lambda>_.
       case filter (\<lambda>i. i \<notin> protected_indices n em) [0..n - 1] of
         [] \<Rightarrow> Inl RuntimeError
       | c # cs \<Rightarrow> Inr (min_by (\<lambda>i. scores ! nat i) c cs)))"

definition record_eviction :: "int \<Rightarrow> eviction_manager \<Rightarrow> (int \<times> eviction_manager) res" where
  "record_eviction sid em =
     bindE (require_seq sid em) (\<lambda>st. Inr (st + 1, em\<lparr>ev_seqs := AList.update sid (st + 1) (ev_seqs em)\<rparr>))"

section \<open>Compaction of the block table\<close>

text \<open>
  One row of \<^verbatim>\<open>compact_block_table\<close>: \<open>n\<close> blocks are inside the logical length. The second component is the
  number of retained blocks.
\<close>

definition compact_row :: "int \<Rightarrow> int \<Rightarrow> int list \<Rightarrow> int list \<times> int" where
  "compact_row null_block_id n bt =
     (let cols = [0..<length bt];
          is_retained = (\<lambda>c. int c < n \<and> \<not> (int c < n \<and> bt ! c = null_block_id));
          key = map (\<lambda>c. if is_retained c then 0 else 1 :: int) cols;
          compact = map (\<lambda>i. bt ! i) (argsort key);
          retained = int (length (filter is_retained cols))
      in (map (\<lambda>c. if int c < retained then compact ! c else null_block_id) cols, retained))"

definition compact_block_table ::
  "int list list \<Rightarrow> int list \<Rightarrow> int list \<Rightarrow> int \<Rightarrow> int \<Rightarrow> (int list list \<times> int list \<times> int list) res" where
  "compact_block_table bt n sl bs null_block_id =
     bindE (guardE (\<not> (length n \<noteq> length bt \<or> length sl \<noteq> length bt)) ValueError) (\<lambda>_.
       let rows = map2 (compact_row null_block_id) n bt
       in Inr (map fst rows, map snd rows,
               map2 (\<lambda>s (k, r). s - (k - r) * bs) sl (zip n (map snd rows))))"

definition compact_block_table_torch ::
  "int list list \<Rightarrow> int list \<Rightarrow> int \<Rightarrow> int list option \<Rightarrow> int \<Rightarrow> int list list \<times> int list" where
  "compact_block_table_torch bt sl bs query_lens null_block_id =
     (let n = map (\<lambda>s. cdiv s bs) sl;
          any_null = map2 (\<lambda>k r. \<exists>c \<in> set [0..<length r]. int c < k \<and> r ! c = null_block_id) n bt;
          row_do = (case query_lens of None \<Rightarrow> any_null | Some q \<Rightarrow> map2 (\<lambda>a l. a \<and> l = 1) any_null q)
      in if \<not> (\<exists>d \<in> set row_do. d) then (bt, sl)
         else let rows = map2 (compact_row null_block_id) n bt;
                  new_seq = map2 (\<lambda>s (k, r). s - (k - r) * bs) sl (zip n (map snd rows))
              in (map2 (\<lambda>d (c, r). if d then c else r) row_do (zip (map fst rows) bt),
                  map2 (\<lambda>d (s', s). if d then s' else s) row_do (zip new_seq sl)))"

end
