(* ===== verification/Skive_Worker.thy ===== *)
theory Skive_Worker
  imports Evict_Policy Kv_Specs "HOL-Library.Sublist"
begin

text \<open>
  The worker side of eviction, \<^verbatim>\<open>vllm/kv_evict/integration.py\<close>: which KV-cache group may be evicted, the
  key/value ratio score with its cache, the eviction of one request's blocks and the hook that runs after each
  decode step. Tensors hold real numbers: rounding to 32-bit floats and the decoding of 8-bit caches are not
  modelled. The attention scores of the query-dependent metrics are computed by torch and Triton kernels from
  captured queries; they are the parameters \<open>batch_va\<close> and \<open>one_va\<close>. The lookups that the code memoises on the
  runner (group, layers) are recomputed, as their inputs do not change. Timing and debug output are left out.
\<close>

section \<open>The runner\<close>

text \<open>A cache tensor lists keys and values of each block, or has another layout that is never scored.\<close>

datatype kv_tensor = Attn_Tensor "(real list \<times> real list) list" | Other_Tensor

record block_table =
  bt_rows :: "int list list"
  num_blocks_per_row :: "int list"
  bt_block_size :: int
  use_hybrid_blocks :: bool

record attn_layer =
  layer_name :: string
  layer_class :: string
  layer_kv_cache :: "nat option"

record evict_settings =
  kv_evict_enabled :: bool
  kv_evict_budget :: "int option"
  kv_evict_num_sink_blocks :: int
  kv_evict_num_local_blocks :: int
  cache_block_size :: int

record skive_env =
  skive_metric :: "string option"
  skive_noscore :: bool
  skive_no_reclaim :: bool
  skive_protect_prompt :: bool
  skive_evict_every :: int
  skive_evict_margin :: int

type_synonym score_cache = "(string \<times> (nat \<times> int \<times> real) list) list"

record model_runner =
  mr_settings :: evict_settings
  mr_config_groups :: "(kv_cache_spec \<times> string list) list option"
  mr_attn_groups :: "(nat \<times> kv_cache_spec \<times> string list) list list option"
  mr_tables :: "block_table list"
  mr_num_reqs :: nat
  mr_req_ids :: "string option list"
  mr_num_prompt_tokens :: "int list"
  mr_layers :: "attn_layer list"
  mr_kv_caches :: "kv_tensor list"
  mr_null_zeroed :: bool
  mr_score_cache :: score_cache
  mr_va_batch :: "(nat \<times> real list) list option"
  mr_pending_free :: "(string \<times> nat \<times> nat) list"
  mr_evicted_by_req :: "(string \<times> int) list"
  mr_step :: int
  mr_evicted_total :: int

section \<open>The full-attention group\<close>

fun spec_class_name :: "kv_cache_spec \<Rightarrow> string" where
  "spec_class_name (FullAttentionSpec _ _) = ''FullAttentionSpec''"
| "spec_class_name (TQFullAttentionSpec _ _ _) = ''TQFullAttentionSpec''"
| "spec_class_name (MLAAttentionSpec _ _ _) = ''MLAAttentionSpec''"
| "spec_class_name (HiddenStateCacheSpec _ _ _) = ''HiddenStateCacheSpec''"
| "spec_class_name (ChunkedLocalAttentionSpec _ _) = ''ChunkedLocalAttentionSpec''"
| "spec_class_name (SlidingWindowSpec _ _ _) = ''SlidingWindowSpec''"
| "spec_class_name (SlidingWindowMLASpec _ _ _ _) = ''SlidingWindowMLASpec''"
| "spec_class_name (MambaSpec _) = ''MambaSpec''"
| "spec_class_name (EncoderOnlyAttentionSpec _) = ''EncoderOnlyAttentionSpec''"
| "spec_class_name (CrossAttentionSpec _) = ''CrossAttentionSpec''"
| "spec_class_name (SinkFullAttentionSpec _ _ _) = ''SinkFullAttentionSpec''"
| "spec_class_name (UniformTypeKVCacheSpecs _ _) = ''UniformTypeKVCacheSpecs''"

text \<open>\<^verbatim>\<open>getattr(spec, "sliding_window", None)\<close> and \<^verbatim>\<open>getattr(spec, "attention_chunk_size", None)\<close>.\<close>

fun attr_sliding_window :: "kv_cache_spec \<Rightarrow> int option" where
  "attr_sliding_window (FullAttentionSpec _ f) = full_sliding_window f"
| "attr_sliding_window (TQFullAttentionSpec _ f _) = full_sliding_window f"
| "attr_sliding_window (MLAAttentionSpec _ f _) = full_sliding_window f"
| "attr_sliding_window (HiddenStateCacheSpec _ f _) = full_sliding_window f"
| "attr_sliding_window (SinkFullAttentionSpec _ f _) = full_sliding_window f"
| "attr_sliding_window (SlidingWindowSpec _ w _) = Some w"
| "attr_sliding_window (SlidingWindowMLASpec _ w _ _) = Some w"
| "attr_sliding_window _ = None"

fun attr_chunk_size :: "kv_cache_spec \<Rightarrow> int option" where
  "attr_chunk_size (FullAttentionSpec _ f) = full_chunk_size f"
| "attr_chunk_size (TQFullAttentionSpec _ f _) = full_chunk_size f"
| "attr_chunk_size (MLAAttentionSpec _ f _) = full_chunk_size f"
| "attr_chunk_size (HiddenStateCacheSpec _ f _) = full_chunk_size f"
| "attr_chunk_size (SinkFullAttentionSpec _ f _) = full_chunk_size f"
| "attr_chunk_size (ChunkedLocalAttentionSpec _ c) = Some c"
| "attr_chunk_size _ = None"

definition NON_FULL_SPEC_HINTS :: "string list" where
  "NON_FULL_SPEC_HINTS =
     [''SlidingWindow'', ''Mamba'', ''Cross'', ''EncoderOnly'', ''ChunkedLocal'', ''UniformType'']"

definition is_full_attention_spec :: "kv_cache_spec \<Rightarrow> bool" where
  "is_full_attention_spec spec \<longleftrightarrow>
     (if \<exists>h \<in> set NON_FULL_SPEC_HINTS. sublist h (spec_class_name spec) then False
      else attr_sliding_window spec = None \<and> attr_chunk_size spec = None)"

text \<open>\<^verbatim>\<open>setdefault\<close> keeps the first group of an id, and the groups come out sorted by id.\<close>

definition skive_kv_groups :: "model_runner \<Rightarrow> (nat \<times> kv_cache_spec \<times> string list) list option" where
  "skive_kv_groups mr =
     (case mr_config_groups mr of
        Some gs \<Rightarrow> Some (zip [0..<length gs] gs)
      | None \<Rightarrow> map_option (\<lambda>gss. sort_key fst
          (fold (\<lambda>(gid, x) d. if map_of d gid = None then AList.update gid x d else d) (concat gss) [])) (mr_attn_groups mr))"

text \<open>The group id, its layers (\<open>None\<close>: all layers), and whether the group is unresolved.\<close>

definition skive_full_group :: "model_runner \<Rightarrow> nat \<times> string list option \<times> bool" where
  "skive_full_group mr =
     (case skive_kv_groups mr of
        Some groups \<Rightarrow>
          if length groups > 1
          then case (case find (\<lambda>(_, spec, _). is_full_attention_spec spec) groups of
                       Some g \<Rightarrow> Some g
                     | None \<Rightarrow> find (\<lambda>(_, spec, _). sublist ''FullAttention'' (spec_class_name spec) \<or>
                         sublist ''MLAAttention'' (spec_class_name spec)) groups) of
                 Some (gid, _, names) \<Rightarrow> (gid, Some names, False)
               | None \<Rightarrow> (0, None, True)
          else (0, None, False)
      | None \<Rightarrow> (0, None, length (mr_tables mr) > 1))"

definition skive_layers :: "model_runner \<Rightarrow> attn_layer list" where
  "skive_layers mr =
     (case skive_full_group mr of (_, names, _) \<Rightarrow>
        filter (\<lambda>l. (layer_class l = ''Attention'' \<or> layer_class l = ''MLAAttention'') \<and>
                    (case names of None \<Rightarrow> True | Some ns \<Rightarrow> layer_name l \<in> set ns)) (mr_layers mr))"

definition layer_kv :: "attn_layer \<Rightarrow> model_runner \<Rightarrow> nat \<Rightarrow> kv_tensor option" where
  "layer_kv layer mr li =
     (case layer_kv_cache layer of
        Some t \<Rightarrow> Some (mr_kv_caches mr ! t)
      | None \<Rightarrow>
          if fst (snd (skive_full_group mr)) = None \<and> li < length (mr_kv_caches mr) then Some (mr_kv_caches mr ! li) else None)"

fun attn_blocks :: "kv_tensor \<Rightarrow> (real list \<times> real list) list option" where
  "attn_blocks (Attn_Tensor bs) = Some bs"
| "attn_blocks Other_Tensor = None"

definition skive_full_caches :: "model_runner \<Rightarrow> (real list \<times> real list) list list" where
  "skive_full_caches mr =
     List.map_filter (\<lambda>(li, layer). Option.bind (layer_kv layer mr li) attn_blocks)
       (zip [0..<length (skive_layers mr)] (skive_layers mr))"

definition skive_block_table :: "model_runner \<Rightarrow> block_table option res" where
  "skive_block_table mr =
     (case skive_full_group mr of (gid, _, unresolved) \<Rightarrow>
        if unresolved then Inr None
        else bindE (py_index (mr_tables mr) (int gid)) (\<lambda>bt. Inr (if use_hybrid_blocks bt then None else Some bt)))"

section \<open>Scores\<close>

definition DEFAULT_EPS :: real where
  "DEFAULT_EPS = 1 / 1000000"

definition sum_squares :: "real list \<Rightarrow> real" where
  "sum_squares xs = (\<Sum>x\<leftarrow>xs. x * x)"

text \<open>The scores of blocks by the norm over all layers; no layer gives no scores.\<close>

definition score_request_blocks :: "(real list \<times> real list) list list \<Rightarrow> int list \<Rightarrow> real list res" where
  "score_request_blocks kv_caches block_ids =
     (if block_ids = [] then Inr []
      else bindE (mapE (\<lambda>kc. mapE (py_index kc) block_ids) kv_caches) (\<lambda>per_cache.
        if per_cache = [] then Inr []
        else Inr (map (\<lambda>i.
               let sum_k = (\<Sum>bs\<leftarrow>per_cache. sum_squares (fst (bs ! i)));
                   sum_v = (\<Sum>bs\<leftarrow>per_cache. sum_squares (snd (bs ! i)))
               in sqrt sum_v / (sqrt sum_k + DEFAULT_EPS)) [0..<length block_ids])))"

definition cached_score :: "(nat \<times> int \<times> real) list \<Rightarrow> nat \<Rightarrow> int \<Rightarrow> real option" where
  "cached_score rc j bid = (case map_of rc j of Some (b, s) \<Rightarrow> (if b = bid then Some s else None) | None \<Rightarrow> None)"

definition request_cache :: "string \<Rightarrow> score_cache \<Rightarrow> (nat \<times> int \<times> real) list" where
  "request_cache rid cache = (case map_of cache rid of Some rc \<Rightarrow> rc | None \<Rightarrow> [])"

definition vk_score_cached ::
  "model_runner \<Rightarrow> string \<Rightarrow> nat list \<Rightarrow> int list \<Rightarrow> (real list \<times> model_runner) res" where
  "vk_score_cached mr req_id real_pos real_block_ids =
     (let rc = request_cache req_id (mr_score_cache mr);
          entries = zip [0..<length real_block_ids] (zip real_pos real_block_ids);
          scores = fold (\<lambda>(k, j, bid) xs. case cached_score rc j bid of Some s \<Rightarrow> xs[k := s] | None \<Rightarrow> xs)
                     entries (replicate (length real_block_ids) 0);
          todo = filter (\<lambda>(k, j, bid). cached_score rc j bid = None) entries
      in bindE (if todo = [] then Inr [] else score_request_blocks (skive_full_caches mr) (map (\<lambda>(k, j, bid). bid) todo)) (\<lambda>new.
           let rc' = fold (\<lambda>((k, j, bid), s). AList.update j (bid, s)) (zip todo new) rc;
               scores' = fold (\<lambda>((k, j, bid), s) xs. xs[k := s]) (zip todo new) scores
           in Inr (scores', mr\<lparr>mr_score_cache := AList.update req_id rc' (mr_score_cache mr)\<rparr>)))"

text \<open>All blocks of the over-budget rows that have no cached score, scored in one call.\<close>

definition row_misses :: "score_cache \<Rightarrow> string \<Rightarrow> int list \<Rightarrow> int \<Rightarrow> (string \<times> nat \<times> int) list" where
  "row_misses cache rid row n =
     map (\<lambda>j. (rid, j, row ! j))
       (filter (\<lambda>j. row ! j \<noteq> NULL_BLOCK_ID \<and> cached_score (request_cache rid cache) j (row ! j) = None) [0..<nat n])"

definition batch_prescore :: "model_runner \<Rightarrow> block_table \<Rightarrow> nat list \<Rightarrow> model_runner res" where
  "batch_prescore mr bt over_rows =
     (let rows = List.map_filter (\<lambda>ri. map_option (\<lambda>rid. (rid, ri)) (mr_req_ids mr ! ri)) over_rows;
          cache = fold (\<lambda>(rid, ri) c. if map_of c rid = None then AList.update rid [] c else c) rows (mr_score_cache mr);
          misses = concat (map (\<lambda>(rid, ri). row_misses cache rid (bt_rows bt ! ri) (num_blocks_per_row bt ! ri)) rows)
      in bindE (if misses = [] then Inr [] else score_request_blocks (skive_full_caches mr) (map (\<lambda>(rid, j, bid). bid) misses)) (\<lambda>s.
           Inr (mr\<lparr>mr_score_cache := fold (\<lambda>((rid, j, bid), sc) c.
             AList.update rid (AList.update j (bid, sc) (request_cache rid c)) c) (zip misses s) cache\<rparr>)))"

section \<open>Eviction\<close>

definition QDEP_METRICS :: "string list" where
  "QDEP_METRICS = [''value_attention'', ''h2o'', ''snapkv'', ''streaming'']"

definition build_eviction_config :: "skive_env \<Rightarrow> evict_settings \<Rightarrow> eviction_config option" where
  "build_eviction_config env s =
     (if \<not> kv_evict_enabled s then None
      else case kv_evict_budget s of
        None \<Rightarrow> None
      | Some budget \<Rightarrow>
          (case new_eviction_config (cache_block_size s) budget (kv_evict_num_sink_blocks s) (kv_evict_num_local_blocks s)
                  (case skive_metric env of Some m \<Rightarrow> m | None \<Rightarrow> ''vk_ratio'') of
             Inr cfg \<Rightarrow> Some cfg
           | Inl _ \<Rightarrow> None))"

definition zero_null_block :: "kv_tensor \<Rightarrow> kv_tensor" where
  "zero_null_block t =
     (case t of Other_Tensor \<Rightarrow> t
      | Attn_Tensor bs \<Rightarrow> Attn_Tensor (bs[0 := map_prod (map (\<lambda>_. 0)) (map (\<lambda>_. 0)) (bs ! 0)]))"

definition ensure_null_zeroed :: "model_runner \<Rightarrow> model_runner" where
  "ensure_null_zeroed mr =
     (if mr_null_zeroed mr then mr
      else mr\<lparr>mr_kv_caches := map zero_null_block (mr_kv_caches mr), mr_null_zeroed := True\<rparr>)"

definition sink_blocks :: "skive_env \<Rightarrow> eviction_config \<Rightarrow> block_table \<Rightarrow> model_runner \<Rightarrow> nat \<Rightarrow> int" where
  "sink_blocks env cfg bt mr ri =
     (if skive_protect_prompt env \<and> ri < length (mr_num_prompt_tokens mr)
      then max (num_sink_blocks cfg) (cdiv (mr_num_prompt_tokens mr ! ri) (bt_block_size bt) + 1)
      else num_sink_blocks cfg)"

definition block_scores ::
  "(model_runner \<Rightarrow> nat \<Rightarrow> int list \<Rightarrow> real list option) \<Rightarrow> skive_env \<Rightarrow> eviction_config \<Rightarrow> model_runner \<Rightarrow> nat \<Rightarrow>
   nat list \<Rightarrow> int list \<Rightarrow> string \<Rightarrow> (real list \<times> model_runner) res" where
  "block_scores one_va env cfg mr ri real_pos ids req_id =
     (let fallback = vk_score_cached mr req_id real_pos ids
      in if skive_noscore env then Inr (map real [0..<length ids], mr)
         else if ec_metric cfg \<in> set QDEP_METRICS
         then case mr_va_batch mr of
                Some vb \<Rightarrow>
                  (case map_of vb ri of
                     Some s \<Rightarrow> if length s = length ids then Inr (s, mr)
                               else (case one_va mr ri ids of Some s' \<Rightarrow> Inr (s', mr) | None \<Rightarrow> fallback)
                   | None \<Rightarrow> (case one_va mr ri ids of Some s' \<Rightarrow> Inr (s', mr) | None \<Rightarrow> fallback))
              | None \<Rightarrow> (case one_va mr ri ids of Some s' \<Rightarrow> Inr (s', mr) | None \<Rightarrow> fallback)
         else fallback)"

definition set_table_row :: "nat \<Rightarrow> nat \<Rightarrow> int list \<Rightarrow> model_runner \<Rightarrow> model_runner" where
  "set_table_row gid ri row mr =
     mr\<lparr>mr_tables := (mr_tables mr)[gid := (mr_tables mr ! gid)\<lparr>bt_rows := (bt_rows (mr_tables mr ! gid))[ri := row]\<rparr>]\<rparr>"

definition forget_scores :: "string \<Rightarrow> nat list \<Rightarrow> score_cache \<Rightarrow> score_cache" where
  "forget_scores rid js cache =
     (case map_of cache rid of None \<Rightarrow> cache
      | Some rc \<Rightarrow> AList.update rid (fold AList.delete js rc) cache)"

definition evict_request_blocks ::
  "(model_runner \<Rightarrow> nat \<Rightarrow> int list \<Rightarrow> real list option) \<Rightarrow> skive_env \<Rightarrow> eviction_config \<Rightarrow> nat \<Rightarrow> string \<Rightarrow> model_runner \<Rightarrow>
   (nat list \<times> model_runner) res" where
  "evict_request_blocks one_va env cfg ri req_id mr =
     bindE (skive_block_table mr) (\<lambda>tbl. case tbl of
       None \<Rightarrow> Inr ([], mr)
     | Some bt \<Rightarrow>
         bindE (py_index (num_blocks_per_row bt) (int ri)) (\<lambda>n.
         if n = 0 then Inr ([], mr)
         else bindE (py_index (bt_rows bt) (int ri)) (\<lambda>row.
           case plan_eviction (take (nat n) row) (sink_blocks env cfg bt mr ri) (num_local_blocks cfg) (kv_budget cfg) of
             (real_pos, candidates_k, num_to_evict) \<Rightarrow>
           if num_to_evict = 0 then Inr ([], mr)
           else bindE (block_scores one_va env cfg mr ri real_pos (map (\<lambda>j. row ! j) real_pos) req_id) (\<lambda>(scores, mr1).
                bindE (choose_lowest candidates_k scores num_to_evict) (\<lambda>chosen.
                bindE (mapE (py_index real_pos) chosen) (\<lambda>nulled.
                  Inr (nulled,
                       set_table_row (fst (skive_full_group mr)) ri (fold (\<lambda>j r. r[j := NULL_BLOCK_ID]) nulled row)
                         (mr1\<lparr>mr_score_cache := forget_scores req_id nulled (mr_score_cache mr1)\<rparr>))))))))"

text \<open>The hook after a decode step. The loop over the over-budget rows carries the number of evicted blocks.\<close>

definition real_blocks :: "block_table \<Rightarrow> nat \<Rightarrow> nat" where
  "real_blocks bt ri =
     length (filter (\<lambda>c. int c < num_blocks_per_row bt ! ri \<and> bt_rows bt ! ri ! c \<noteq> NULL_BLOCK_ID) [0..<length (bt_rows bt ! ri)])"

definition evict_row ::
  "(model_runner \<Rightarrow> nat \<Rightarrow> int list \<Rightarrow> real list option) \<Rightarrow> skive_env \<Rightarrow> eviction_config \<Rightarrow> nat \<Rightarrow>
   nat \<times> model_runner \<Rightarrow> (nat \<times> model_runner) res" where
  "evict_row one_va env cfg ri s =
     (case s of (tot, mr) \<Rightarrow> case mr_req_ids mr ! ri of
        None \<Rightarrow> Inr s
      | Some req_id \<Rightarrow>
          bindE (evict_request_blocks one_va env cfg ri req_id mr) (\<lambda>(js, mr1).
            let by_req = mr_evicted_by_req mr1
            in Inr (tot + length js,
                    mr1\<lparr>mr_pending_free := mr_pending_free mr1 @ map (\<lambda>j. (req_id, j, fst (skive_full_group mr))) js,
                        mr_evicted_by_req := (if js = [] then by_req
                          else AList.update req_id ((case map_of by_req req_id of Some k \<Rightarrow> k | None \<Rightarrow> 0) + int (length js)) by_req)\<rparr>)))"

definition rows_to_evict :: "skive_env \<Rightarrow> eviction_config \<Rightarrow> block_table \<Rightarrow> nat \<Rightarrow> int \<Rightarrow> nat list res" where
  "rows_to_evict env cfg bt num_reqs step =
     (let over_rows = filter (\<lambda>ri. int (real_blocks bt ri) > kv_budget cfg) [0..<num_reqs]
      in if over_rows = [] then Inr []
         else let excess = Max (set (map (\<lambda>ri. int (real_blocks bt ri) - kv_budget cfg) over_rows))
              in bindE (guardE (skive_evict_every env \<noteq> 0) ZeroDivisionError) (\<lambda>_.
                   Inr (if step mod skive_evict_every env \<noteq> 0 \<and> excess < skive_evict_margin env then [] else over_rows)))"

definition drop_dead_scores :: "string option list \<Rightarrow> score_cache \<Rightarrow> score_cache" where
  "drop_dead_scores req_ids cache = filter (\<lambda>(rid, rc). Some rid \<in> set req_ids) cache"

definition skive_post_step ::
  "(model_runner \<Rightarrow> nat list \<Rightarrow> (nat \<times> real list) list option) \<Rightarrow>
   (model_runner \<Rightarrow> nat \<Rightarrow> int list \<Rightarrow> real list option) \<Rightarrow> skive_env \<Rightarrow> model_runner \<Rightarrow> model_runner res" where
  "skive_post_step batch_va one_va env mr0 =
     (case build_eviction_config env (mr_settings mr0) of
        None \<Rightarrow> Inr mr0
      | Some cfg \<Rightarrow>
          let mr1 = ensure_null_zeroed mr0
          in bindE (skive_block_table mr1) (\<lambda>tbl. case tbl of
               None \<Rightarrow> Inr mr1
             | Some bt \<Rightarrow>
                 let mr2 = mr1\<lparr>mr_step := mr_step mr1 + 1, mr_va_batch := None\<rparr>
                 in bindE (rows_to_evict env cfg bt (mr_num_reqs mr2) (mr_step mr2)) (\<lambda>over_rows.
                    bindE (if over_rows = [] then Inr mr2
                           else if ec_metric cfg \<in> set QDEP_METRICS then Inr (mr2\<lparr>mr_va_batch := batch_va mr2 over_rows\<rparr>)
                           else batch_prescore mr2 bt over_rows) (\<lambda>mr3.
                    bindE (foldE (evict_row one_va env cfg) over_rows (0, mr3)) (\<lambda>(tot, mr4).
                      let mr5 = mr4\<lparr>mr_score_cache := drop_dead_scores (mr_req_ids mr4) (mr_score_cache mr4)\<rparr>
                      in Inr (if tot \<noteq> 0 then mr5\<lparr>mr_evicted_total := mr_evicted_total mr5 + int tot\<rparr> else mr5))))))"

text \<open>The pending entries leave the worker once.\<close>

definition skive_pop_pending :: "skive_env \<Rightarrow> model_runner \<Rightarrow> (string \<times> nat \<times> nat) list \<times> model_runner" where
  "skive_pop_pending env mr =
     (if mr_pending_free mr = [] then ([], mr)
      else (if skive_no_reclaim env then [] else mr_pending_free mr, mr\<lparr>mr_pending_free := []\<rparr>))"

definition skive_get_evicted_by_req :: "model_runner \<Rightarrow> (string \<times> int) list" where
  "skive_get_evicted_by_req mr = mr_evicted_by_req mr"

end
