(* ===== verification/Evict_Correct.thy ===== *)
theory Evict_Correct
  imports Evict_Policy
begin

text \<open>
  Correctness of the eviction policy: selection takes the lowest scores with ties to the lowest index, the
  bookkeeping keeps a sequence within one block of its budget and always finds a block to evict when one is
  due, and compaction drops exactly the tokens of evicted blocks from the attention read.
\<close>

section \<open>Stable selection\<close>

definition before :: "('a::linorder \<Rightarrow> 's::linorder) \<Rightarrow> 'a \<Rightarrow> 'a \<Rightarrow> bool" where
  "before f a b \<longleftrightarrow> f a < f b \<or> f a = f b \<and> a < b"

lemma map_insort_key: "map g (insort_key (\<lambda>x. f (g x)) x xs) = insort_key f (g x) (map g xs)"
  by (induction xs) simp_all

lemma map_sort_key: "map g (sort_key (\<lambda>x. f (g x)) xs) = sort_key f (map g xs)"
  by (induction xs) (simp_all add: map_insort_key)

lemma insort_key_eq: "f x = g x \<Longrightarrow> \<forall>y \<in> set xs. f y = g y \<Longrightarrow> insort_key f x xs = insort_key g x xs"
  by (induction xs) simp_all

lemma sort_key_eq: "\<forall>y \<in> set xs. f y = g y \<Longrightarrow> sort_key f xs = sort_key g xs"
proof (induction xs)
  case (Cons x xs)
  thus ?case using insort_key_eq [of f x g "sort_key g xs"] by simp
qed simp

lemma argsort_nth: "map (\<lambda>i. xs ! i) (argsort (map f xs)) = sort_key f xs"
proof -
  have "argsort (map f xs) = sort_key (\<lambda>i. f (xs ! i)) [0..<length xs]"
    unfolding argsort_def length_map by (intro sort_key_eq) simp
  thus ?thesis by (simp add: map_sort_key map_nth)
qed

lemma before_insort:
  assumes "sorted_wrt (before f) ys" "\<forall>y \<in> set ys. x < y"
  shows "sorted_wrt (before f) (insort_key f x ys)"
  using assms
proof (induction ys)
  case (Cons y ys)
  show ?case
  proof (cases "f x \<le> f y")
    case True
    have "before f x z" if "z \<in> set (y # ys)" for z
    proof -
      have "f y \<le> f z" using Cons.prems(1) that by (auto simp: before_def)
      thus ?thesis using True Cons.prems(2) that by (auto simp: before_def)
    qed
    thus ?thesis using True Cons.prems(1) by simp
  next
    case False
    thus ?thesis using Cons by (auto simp: set_insort_key before_def)
  qed
qed simp

lemma sort_key_before: "sorted_wrt (<) xs \<Longrightarrow> sorted_wrt (before f) (sort_key f xs)"
  by (induction xs) (simp_all add: before_insort)

lemma mapE_total: "(\<And>x. x \<in> set xs \<Longrightarrow> f x = Inr (g x)) \<Longrightarrow> mapE f xs = Inr (map g xs)"
  by (induction xs) simp_all

lemma choose_lowest_sort:
  assumes "\<forall>k \<in> set c. 0 \<le> k \<and> k < int (length s)"
  shows "choose_lowest c s n = Inr (take (nat n) (sort_key (\<lambda>k. s ! nat k) c))"
proof -
  have "mapE (py_index s) c = Inr (map (\<lambda>k. s ! nat k) c)"
    using assms by (intro mapE_total) (auto simp: py_index_def)
  thus ?thesis using argsort_nth [of c "\<lambda>k. s ! nat k"] by (auto simp: choose_lowest_def simp flip: take_map)
qed

lemma choose_lowest_law:
  assumes "\<forall>k \<in> set c. 0 \<le> k \<and> k < int (length s)" "sorted_wrt (<) c"
  shows "\<exists>out. choose_lowest c s n = Inr out \<and> length out = min (nat n) (length c) \<and> distinct out \<and>
    set out \<subseteq> set c \<and> (\<forall>a \<in> set out. \<forall>b \<in> set c - set out. before (\<lambda>k. s ! nat k) a b)"
proof -
  let ?o = "sort_key (\<lambda>k. s ! nat k) c"
  have d: "distinct ?o" using assms(2) by (simp add: strict_sorted_iff)
  have st: "sorted_wrt (before (\<lambda>k. s ! nat k)) (take (nat n) ?o @ drop (nat n) ?o)"
    using sort_key_before [OF assms(2)] by simp
  have "before (\<lambda>k. s ! nat k) a b" if "a \<in> set (take (nat n) ?o)" "b \<in> set c - set (take (nat n) ?o)" for a b
  proof -
    have "b \<in> set (take (nat n) ?o @ drop (nat n) ?o)" using that(2) by simp
    hence "b \<in> set (drop (nat n) ?o)" using that(2) by (simp only: set_append) blast
    thus ?thesis using st that(1) unfolding sorted_wrt_append by blast
  qed
  thus ?thesis using choose_lowest_sort [OF assms(1), of n] d
    by (auto simp: min.commute dest: in_set_takeD)
qed

section \<open>The bookkeeping keeps the budget\<close>

definition config_valid :: "eviction_config \<Rightarrow> bool" where
  "config_valid c \<longleftrightarrow> 0 < ec_block_size c \<and> 0 < kv_budget c \<and> 0 \<le> num_sink_blocks c \<and> 0 \<le> num_local_blocks c \<and>
     num_sink_blocks c + num_local_blocks c \<le> kv_budget c"

lemma new_config_valid: "new_eviction_config bs b s l m = Inr c \<Longrightarrow> config_valid c"
  by (auto simp: new_eviction_config_def err_simps config_valid_def)

lemma min_by_law: "min_by f x ys \<in> set (x # ys) \<and> (\<forall>y \<in> set (x # ys). f (min_by f x ys) \<le> f y)"
proof (induction ys arbitrary: x)
  case (Cons y ys)
  have "min_by f (if f y < f x then y else x) ys \<in> set ((if f y < f x then y else x) # ys)"
    "\<forall>z \<in> set ((if f y < f x then y else x) # ys). f (min_by f (if f y < f x then y else x) ys) \<le> f z"
    using Cons.IH by blast+
  thus ?case by (auto split: if_splits)
qed simp

lemma min_by_first: "sorted_wrt (<) (x # ys) \<Longrightarrow> y \<in> set (x # ys) \<Longrightarrow> y \<noteq> min_by f x ys \<Longrightarrow> before f (min_by f x ys) y"
proof (induction ys arbitrary: x y)
  case (Cons z zs)
  let ?w = "if f z < f x then z else x"
  have s: "sorted_wrt (<) (?w # zs)" using Cons.prems(1) by auto
  show ?case
  proof (cases "y \<in> set (?w # zs)")
    case True
    thus ?thesis using Cons.IH [OF s True] Cons.prems(3) by simp
  next
    case False
    have y: "f ?w \<le> f y" "f ?w = f y \<longrightarrow> ?w < y" using False Cons.prems(1,2) by auto
    have "f (min_by f ?w zs) \<le> f ?w" using min_by_law [of f ?w zs] by simp
    moreover have "min_by f ?w zs \<le> ?w" if "f (min_by f ?w zs) = f ?w"
      using Cons.IH [OF s, of ?w] that by (cases "min_by f ?w zs = ?w") (auto simp: before_def)
    ultimately have "before f (min_by f ?w zs) y"
      using y by (cases "f (min_by f ?w zs) = f y") (auto simp: before_def order_less_le)
    thus ?thesis by simp
  qed
qed simp

lemma not_protected:
  "0 \<le> i \<Longrightarrow> i < n \<Longrightarrow> i \<notin> protected_indices n em \<longleftrightarrow>
     num_sink_blocks (ev_config em) \<le> i \<and> i < n - num_local_blocks (ev_config em)"
  by (auto simp: protected_indices_def Let_def)

lemma sorted_upto_filter: "sorted_wrt (<) (filter P [a..b :: int])"
  by (simp add: sorted_wrt_filter)

text \<open>The life of one sequence: a token arrives when no eviction is due, else a block is evicted.\<close>

inductive seq_run :: "eviction_config \<Rightarrow> int \<Rightarrow> int \<Rightarrow> eviction_manager \<Rightarrow> bool" for cfg sid where
  seq_start: "ev_config em = cfg \<Longrightarrow> seq_run cfg sid 0 (register_seq sid em)"
| seq_token: "seq_run cfg sid n em \<Longrightarrow> should_evict sid n em = Inr False \<Longrightarrow> seq_run cfg sid (n + 1) em"
| seq_evict: "seq_run cfg sid n em \<Longrightarrow> should_evict sid n em = Inr True \<Longrightarrow> record_eviction sid em = Inr (k, em') \<Longrightarrow>
    seq_run cfg sid n em'"

lemma cdiv_Suc:
  assumes "0 < b"
  shows "cdiv (n + 1) b = (if n mod b = 0 then cdiv n b + 1 else cdiv n b)"
proof -
  note m = pos_mod_bound [OF assms, of n] pos_mod_sign [OF assms, of n]
  define q r where "q = n div b" and "r = n mod b"
  have n: "n = q * b + r" by (simp add: q_def r_def)
  show ?thesis
  proof (cases "r = 0")
    case True
    have "cdiv (n + 1) b = q + 1" using assms n True by (intro cdiv_unique) (auto simp: algebra_simps)
    thus ?thesis using n True assms by (simp flip: r_def)
  next
    case False
    have "cdiv (n + 1) b = q + 1" "cdiv n b = q + 1"
      using assms n False m unfolding r_def [symmetric] by (auto intro!: cdiv_unique simp: algebra_simps)
    thus ?thesis using False by (simp flip: r_def)
  qed
qed

lemma seq_run_inv:
  assumes "seq_run cfg sid n em" "config_valid cfg"
  shows "0 \<le> n \<and> ev_config em = cfg \<and> (\<exists>k. map_of (ev_seqs em) sid = Some k \<and> 0 \<le> k \<and>
    cdiv n (ec_block_size cfg) - k \<le> kv_budget cfg + 1)"
  using assms
proof (induction rule: seq_run.induct)
  case (seq_start em)
  thus ?case by (auto simp: register_seq_def update_conv' config_valid_def cdiv_def)
next
  case (seq_token n em)
  then obtain k where k: "map_of (ev_seqs em) sid = Some k" "0 \<le> k" "cdiv n (ec_block_size cfg) - k \<le> kv_budget cfg + 1"
    "0 \<le> n" "ev_config em = cfg" by blast
  have b: "0 < ec_block_size cfg" using seq_token.prems by (simp add: config_valid_def)
  have "cdiv n (ec_block_size cfg) - k \<le> kv_budget cfg" if "n mod ec_block_size cfg = 0"
    using seq_token.hyps(2) k that seq_token.prems
    by (cases "n = 0") (auto simp: should_evict_def require_seq_def seq_num_blocks_def cdiv_def config_valid_def)
  thus ?case using k cdiv_Suc [OF b, of n] by auto
next
  case (seq_evict n em k em')
  thus ?case by (auto simp: record_eviction_def require_seq_def update_conv' split: option.splits)
qed

lemma pick_block_law:
  assumes "seq_num_blocks sid n em = Inr blocks" "int (length scores) = blocks"
    and "0 \<le> num_sink_blocks (ev_config em)" "0 \<le> num_local_blocks (ev_config em)"
    and "num_sink_blocks (ev_config em) < blocks - num_local_blocks (ev_config em)"
  shows "\<exists>i. pick_block sid n scores em = Inr i \<and> num_sink_blocks (ev_config em) \<le> i \<and>
    i < blocks - num_local_blocks (ev_config em) \<and>
    (\<forall>j. num_sink_blocks (ev_config em) \<le> j \<and> j < blocks - num_local_blocks (ev_config em) \<and> j \<noteq> i \<longrightarrow>
       before (\<lambda>k. scores ! nat k) i j)"
proof -
  let ?cs = "filter (\<lambda>i. i \<notin> protected_indices blocks em) [0..blocks - 1]"
  have mem: "j \<in> set ?cs \<longleftrightarrow> num_sink_blocks (ev_config em) \<le> j \<and> j < blocks - num_local_blocks (ev_config em)" for j
    using assms(3,4) not_protected [of j blocks em] by auto
  have "num_sink_blocks (ev_config em) \<in> set ?cs" unfolding mem using assms(5) by simp
  then obtain c cs where c: "?cs = c # cs" by (cases ?cs) auto
  let ?i = "min_by (\<lambda>i. scores ! nat i) c cs"
  have "pick_block sid n scores em = Inr ?i" using assms(1,2) c by (simp add: pick_block_def)
  moreover have "?i \<in> set ?cs" using min_by_law [of "\<lambda>i. scores ! nat i" c cs] unfolding c by blast
  moreover have "before (\<lambda>k. scores ! nat k) ?i j" if "j \<in> set ?cs" "j \<noteq> ?i" for j
    using min_by_first [of c cs j] sorted_upto_filter [of "\<lambda>i. i \<notin> protected_indices blocks em" 0 "blocks - 1"] that
    unfolding c by blast
  ultimately show ?thesis unfolding mem by blast
qed

text \<open>
  C37: A sequence whose configuration was accepted and which evicts a block whenever one is due never holds
  more than one block over its budget, and is within the budget at every block boundary where no eviction is
  due. When an eviction is due and the scores match the blocks held, the choice succeeds: it is a block
  outside the sinks and the local window, and every other such block has a higher score, or the same score
  and a higher index.
\<close>

theorem eviction_keeps_budget:
  assumes "new_eviction_config bs budget sink local metric = Inr cfg" "seq_run cfg sid n em"
  shows "\<exists>blocks. seq_num_blocks sid n em = Inr blocks \<and> blocks \<le> budget + 1 \<and>
    (0 < n \<and> n mod bs = 0 \<and> should_evict sid n em = Inr False \<longrightarrow> blocks \<le> budget) \<and>
    (should_evict sid n em = Inr True \<and> int (length scores) = blocks \<longrightarrow>
      (\<exists>i. pick_block sid n scores em = Inr i \<and> sink \<le> i \<and> i < blocks - local \<and>
        (\<forall>j. sink \<le> j \<and> j < blocks - local \<and> j \<noteq> i \<longrightarrow> before (\<lambda>k. scores ! nat k) i j)))"
proof -
  have v: "config_valid cfg" and f: "ec_block_size cfg = bs" "kv_budget cfg = budget" "num_sink_blocks cfg = sink" "num_local_blocks cfg = local"
    using assms(1) new_config_valid by (auto simp: new_eviction_config_def err_simps)
  obtain k where k: "map_of (ev_seqs em) sid = Some k" "cdiv n bs - k \<le> budget + 1" "ev_config em = cfg"
    using seq_run_inv [OF assms(2) v] f by auto
  have nb: "seq_num_blocks sid n em = Inr (cdiv n bs - k)" using k f by (simp add: seq_num_blocks_def require_seq_def)
  have due: "should_evict sid n em = Inr (0 < n \<and> n mod bs = 0 \<and> budget < cdiv n bs - k)"
    using k f nb by (auto simp: should_evict_def require_seq_def)
  have "\<exists>i. pick_block sid n scores em = Inr i \<and> sink \<le> i \<and> i < cdiv n bs - k - local \<and>
        (\<forall>j. sink \<le> j \<and> j < cdiv n bs - k - local \<and> j \<noteq> i \<longrightarrow> before (\<lambda>k. scores ! nat k) i j)"
    if "should_evict sid n em = Inr True" "int (length scores) = cdiv n bs - k"
    using pick_block_law [OF nb that(2)] that(1) v f k(3) due by (simp add: config_valid_def)
  thus ?thesis using nb k(2) due by (intro exI [of _ "cdiv n bs - k"]) auto
qed

theorem eviction_keeps_budget_witness:
  "\<exists>cfg em. new_eviction_config 1 1 0 0 ''vk_ratio'' = Inr cfg \<and> seq_run cfg 7 2 em \<and>
     should_evict 7 2 em = Inr True \<and> (\<exists>i. pick_block 7 2 [5, 3 :: int] em = Inr i \<and> 0 \<le> i \<and> i < 2)"
proof -
  let ?cfg = "\<lparr>ec_block_size = 1, kv_budget = 1, num_sink_blocks = 0, num_local_blocks = 0, ec_metric = ''vk_ratio''\<rparr>"
  let ?em = "register_seq 7 (new_eviction_manager ?cfg)"
  have c: "new_eviction_config 1 1 0 0 ''vk_ratio'' = Inr ?cfg" by (simp add: new_eviction_config_def)
  note d = should_evict_def require_seq_def seq_num_blocks_def register_seq_def new_eviction_manager_def cdiv_def
  have s: "should_evict 7 0 ?em = Inr False" "should_evict 7 1 ?em = Inr False" "should_evict 7 2 ?em = Inr True"
    by (simp_all add: d)
  have "seq_run ?cfg 7 (0 + 1 + 1) ?em"
    using s seq_start [of "new_eviction_manager ?cfg" ?cfg 7] by (intro seq_token) (simp_all add: new_eviction_manager_def)
  hence r: "seq_run ?cfg 7 2 ?em" by simp
  have n: "seq_num_blocks 7 2 ?em = Inr 2" by (simp add: d)
  show ?thesis using eviction_keeps_budget [OF c r, of "[5, 3 :: int]"] c r s(3) n by auto
qed

section \<open>Compaction\<close>

lemma sort_key_two: "sort_key (\<lambda>i. if P i then 0 else 1 :: int) xs = filter P xs @ filter (\<lambda>i. \<not> P i) xs"
proof (induction xs)
  case (Cons x xs)
  have "insort_key (\<lambda>i. if P i then 0 else 1 :: int) x (filter P xs @ filter (\<lambda>i. \<not> P i) xs) =
      filter P (x # xs) @ filter (\<lambda>i. \<not> P i) (x # xs)"
  proof (induction xs)
    case Nil
    thus ?case by simp
  next
    case (Cons y ys)
    have "insort_key (\<lambda>i. if P i then 0 else 1 :: int) x zs = x # zs" if "\<forall>z \<in> set zs. \<not> P z" "\<not> P x" for zs
      using that by (cases zs) auto
    moreover have "insort_key (\<lambda>i. if P i then 0 else 1 :: int) x zs = x # zs" if "P x" for zs
      using that by (cases zs) auto
    moreover have "insort_key (\<lambda>i. if P i then 0 else 1 :: int) x (as @ zs) = as @ insort_key (\<lambda>i. if P i then 0 else 1 :: int) x zs"
      if "\<forall>a \<in> set as. P a" "\<not> P x" for as zs
      using that by (induction as) auto
    ultimately show ?case by (cases "P x") auto
  qed
  thus ?case using Cons by simp
qed simp

definition retained_blocks :: "int \<Rightarrow> int \<Rightarrow> int list \<Rightarrow> int list" where
  "retained_blocks nb n bt = filter (\<lambda>b. b \<noteq> nb) (take (nat n) bt)"

lemma filter_nth_upt: "map (\<lambda>c. xs ! c) (filter (\<lambda>c. int c < n \<and> P (xs ! c)) [0..<length xs]) = filter P (take (nat n) xs)"
proof -
  have "filter (\<lambda>c. int c < n \<and> P (xs ! c)) [0..<length xs] = filter (\<lambda>c. P (xs ! c)) [0..<min (length xs) (nat n)]"
  proof -
    have "[0..<length xs] = [0..<min (length xs) (nat n)] @ [min (length xs) (nat n)..<length xs]"
      using upt_add_eq_append [of 0 "min (length xs) (nat n)" "length xs - min (length xs) (nat n)"] by simp
    hence "filter (\<lambda>c. int c < n \<and> P (xs ! c)) [0..<length xs] =
      filter (\<lambda>c. int c < n \<and> P (xs ! c)) [0..<min (length xs) (nat n)]" by (auto simp: filter_empty_conv)
    also have "\<dots> = filter (\<lambda>c. P (xs ! c)) [0..<min (length xs) (nat n)]" by (rule filter_cong) auto
    finally show ?thesis .
  qed
  moreover have "map (\<lambda>c. xs ! c) (filter (\<lambda>c. P (xs ! c)) [0..<min (length xs) (nat n)]) = filter P (take (nat n) xs)"
  proof -
    have "take (nat n) xs = map (\<lambda>c. xs ! c) [0..<min (length xs) (nat n)]" by (rule nth_equalityI) auto
    thus ?thesis by (simp add: filter_map comp_def)
  qed
  ultimately show ?thesis by simp
qed

lemma argsort_keys: "argsort (map (\<lambda>c. if P c then 0 else 1 :: int) [0..<k]) = filter P [0..<k] @ filter (\<lambda>c. \<not> P c) [0..<k]"
proof -
  have "sort_key (\<lambda>i. map (\<lambda>c. if P c then 0 else 1 :: int) [0..<k] ! i) [0..<k] = sort_key (\<lambda>i. if P i then 0 else 1 :: int) [0..<k]"
    by (rule sort_key_eq) simp
  thus ?thesis by (simp add: argsort_def sort_key_two)
qed

lemma pad_front: "length rs \<le> k \<Longrightarrow> map (\<lambda>c. if int c < int (length rs) then (rs @ xs) ! c else v) [0..<k] = rs @ replicate (k - length rs) v"
  by (intro nth_equalityI) (simp_all add: nth_append)

lemma compact_row_eq:
  "compact_row nb n bt = (retained_blocks nb n bt @ replicate (length bt - length (retained_blocks nb n bt)) nb,
     int (length (retained_blocks nb n bt)))"
proof -
  define ret where "ret = (\<lambda>c. int c < n \<and> \<not> (int c < n \<and> bt ! c = nb))"
  have "ret = (\<lambda>c. int c < n \<and> bt ! c \<noteq> nb)" by (auto simp: ret_def)
  hence l: "map (\<lambda>c. bt ! c) (filter ret [0..<length bt]) = retained_blocks nb n bt"
    unfolding retained_blocks_def using filter_nth_upt [of bt n "\<lambda>b. b \<noteq> nb"] by simp
  hence len: "length (filter ret [0..<length bt]) = length (retained_blocks nb n bt)" by (metis length_map)
  have le: "length (retained_blocks nb n bt) \<le> length bt"
    using length_filter_le [of "\<lambda>b. b \<noteq> nb" "take (nat n) bt"] by (simp add: retained_blocks_def)
  show ?thesis unfolding compact_row_def Let_def ret_def [symmetric] argsort_keys map_append l len
    by (simp only: pad_front [OF le])
qed

text \<open>
  What the attention kernel reads: the key of token \<open>t\<close> of the (physical) sequence is at offset
  \<open>t mod bs\<close> of the block in column \<open>t div bs\<close> of the row.
\<close>

definition gather :: "int \<Rightarrow> int list \<Rightarrow> int \<Rightarrow> (int \<times> int) list" where
  "gather bs bt seq = map (\<lambda>t. (bt ! nat (t div bs), t mod bs)) [0..seq - 1]"

lemma gather_empty [simp]: "seq \<le> 0 \<Longrightarrow> gather bs bt seq = []"
  by (simp add: gather_def)

lemma upto_shift: "[a + k..b + k] = map (\<lambda>i. i + k) [a..b :: int]"
proof (induction "nat (b - a + 1)" arbitrary: a)
  case (Suc n)
  hence "a \<le> b" "n = nat (b - (a + 1) + 1)" by simp_all
  thus ?case using Suc.hyps(1) [of "a + 1"] upto_rec1 [of a b] upto_rec1 [of "a + k" "b + k"] by (simp add: ac_simps)
qed simp

lemma gather_Cons:
  assumes "0 < bs"
  shows "gather bs (b # bt) seq = map (Pair b) [0..min seq bs - 1] @ gather bs bt (seq - bs)"
proof -
  have first: "map (\<lambda>t. ((b # bt) ! nat (t div bs), t mod bs)) [0..min seq bs - 1] = map (Pair b) [0..min seq bs - 1]"
    by (rule map_cong) (auto simp: div_pos_pos_trivial)
  have "nat ((t + bs) div bs) = Suc (nat (t div bs))" if "0 \<le> t" for t
    using assms that by (simp add: nat_add_distrib pos_imp_zdiv_nonneg_iff)
  hence rest: "map (\<lambda>t. ((b # bt) ! nat (t div bs), t mod bs)) [0 + bs..seq - bs - 1 + bs] = gather bs bt (seq - bs)"
    unfolding upto_shift gather_def using assms by (simp add: comp_def)
  show ?thesis
  proof (cases "seq \<le> bs")
    case True
    thus ?thesis using first by (simp add: gather_def min_absorb1)
  next
    case False
    hence "[0..seq - 1] = [0..bs - 1] @ [bs..seq - 1]" using assms upto_split1 [of 0 bs "seq - 1"] by simp
    thus ?thesis using False first rest by (simp add: gather_def min_absorb2)
  qed
qed

lemma cdiv_minus: "0 < b \<Longrightarrow> cdiv (a - k * b) b = cdiv a b - k"
  by (rule cdiv_unique) (use cdiv_upper [of b a] cdiv_lower [of b a] in \<open>simp_all add: algebra_simps\<close>)

definition tail_kept :: "int \<Rightarrow> int \<Rightarrow> int list \<Rightarrow> int \<Rightarrow> bool" where
  "tail_kept nb bs bt seq \<longleftrightarrow> seq mod bs = 0 \<or> bt ! nat (cdiv seq bs - 1) \<noteq> nb"

definition compact_seq_len :: "int \<Rightarrow> int \<Rightarrow> int list \<Rightarrow> int \<Rightarrow> int" where
  "compact_seq_len nb bs bt seq = seq - (cdiv seq bs - int (length (retained_blocks nb (cdiv seq bs) bt))) * bs"

lemma retained_Cons: "0 < n \<Longrightarrow> retained_blocks nb n (b # bt) = (if b = nb then [] else [b]) @ retained_blocks nb (n - 1) bt"
  by (simp add: retained_blocks_def take_Cons' nat_diff_distrib)

lemma compact_seq_len_Cons:
  assumes "0 < bs" "0 < seq"
  shows "compact_seq_len nb bs (b # bt) seq = compact_seq_len nb bs bt (seq - bs) + (if b = nb then 0 else bs)"
proof -
  have c: "cdiv (seq - bs) bs = cdiv seq bs - 1" using cdiv_minus [OF assms(1), of seq 1] by simp
  have "0 < cdiv seq bs * bs" using cdiv_upper [OF assms(1), of seq] assms(2) by linarith
  hence p: "0 < cdiv seq bs" using assms(1) by (simp add: zero_less_mult_iff)
  show ?thesis unfolding compact_seq_len_def c retained_Cons [OF p] by (simp add: algebra_simps)
qed

lemma tail_kept_Cons:
  assumes "0 < bs" "bs < seq" "tail_kept nb bs (b # bt) seq"
  shows "tail_kept nb bs bt (seq - bs)"
proof -
  have c: "cdiv (seq - bs) bs = cdiv seq bs - 1" using cdiv_minus [OF assms(1), of seq 1] by simp
  have "1 * bs < cdiv seq bs * bs" using cdiv_upper [OF assms(1), of seq] assms(2) by linarith
  hence "1 < cdiv seq bs" using assms(1) by (simp add: mult_less_cancel_right)
  hence "nat (cdiv seq bs - 1) = Suc (nat (cdiv seq bs - 1 - 1))" by simp
  thus ?thesis using assms(3) unfolding tail_kept_def c by auto
qed

lemma gather_compact:
  assumes "0 < bs" "0 \<le> seq" "cdiv seq bs \<le> int (length bt)" "tail_kept nb bs bt seq"
  shows "0 \<le> compact_seq_len nb bs bt seq \<and>
    gather bs (retained_blocks nb (cdiv seq bs) bt @ rest) (compact_seq_len nb bs bt seq) =
      filter (\<lambda>(b, off). b \<noteq> nb) (gather bs bt seq)"
  using assms(2-4)
proof (induction bt arbitrary: seq)
  case Nil
  hence "seq \<le> 0" using cdiv_upper [OF assms(1), of seq] mult_right_mono [of "cdiv seq bs" 0 bs] assms(1) by simp
  thus ?case using Nil by (simp add: compact_seq_len_def retained_blocks_def cdiv_def)
next
  case (Cons b bt)
  let ?sq = "seq - bs"
  have c: "cdiv ?sq bs = cdiv seq bs - 1" using cdiv_minus [OF assms(1), of seq 1] by simp
  consider "seq = 0" | "0 < seq" "seq \<le> bs" | "bs < seq" using Cons.prems(1) assms(1) by linarith
  thus ?case
  proof cases
    case 1
    thus ?thesis by (simp add: compact_seq_len_def retained_blocks_def cdiv_def)
  next
    case 2
    have n: "cdiv seq bs = 1" using 2 assms(1) by (intro cdiv_unique) simp_all
    have nn: "b \<noteq> nb" if "seq < bs" using Cons.prems(3) 2 that n by (simp add: tail_kept_def)
    have g: "gather bs (x # xs) seq = map (Pair x) [0..seq - 1]" for x xs using 2 assms(1) by (simp add: gather_Cons)
    show ?thesis
    proof (cases "b = nb")
      case True
      hence "seq = bs" using nn 2 by force
      thus ?thesis using True n g by (simp add: compact_seq_len_def retained_Cons retained_blocks_def comp_def)
    next
      case False
      have "filter (\<lambda>(x, off). x \<noteq> nb) (map (Pair b) ts) = map (Pair b) ts" for ts :: "int list"
        using False by (induction ts) simp_all
      thus ?thesis using False n g 2 by (simp add: compact_seq_len_def retained_Cons retained_blocks_def)
    qed
  next
    case 3
    have p: "0 < seq" using 3 assms(1) by linarith
    have "1 * bs < cdiv seq bs * bs" using cdiv_upper [OF assms(1), of seq] 3 by linarith
    hence n: "1 < cdiv seq bs" using assms(1) by (simp add: mult_less_cancel_right)
    have ih: "0 \<le> compact_seq_len nb bs bt ?sq"
      "gather bs (retained_blocks nb (cdiv seq bs - 1) bt @ rest) (compact_seq_len nb bs bt ?sq) =
        filter (\<lambda>(b, off). b \<noteq> nb) (gather bs bt ?sq)"
      using Cons.IH [of ?sq] 3 Cons.prems(2) tail_kept_Cons [OF assms(1) 3 Cons.prems(3)] c by simp_all
    have f: "filter (\<lambda>(x, off). x \<noteq> nb) (map (Pair b) ts) = (if b = nb then [] else map (Pair b) ts)" for ts :: "int list"
      by (induction ts) simp_all
    show ?thesis using n ih 3 assms(1) compact_seq_len_Cons [OF assms(1) p, of nb b bt]
      by (simp add: retained_Cons gather_Cons f min_absorb2)
  qed
qed

lemma no_null_gather:
  assumes "0 < bs" "cdiv seq bs \<le> int (length bt)" "\<forall>c < length bt. int c < cdiv seq bs \<longrightarrow> bt ! c \<noteq> nb"
  shows "filter (\<lambda>(b, off). b \<noteq> nb) (gather bs bt seq) = gather bs bt seq"
proof -
  have "bt ! nat (t div bs) \<noteq> nb" if "0 \<le> t" "t < seq" for t
  proof -
    have "t div bs * bs \<le> t" using assms(1) by (simp add: le_div_iff [symmetric])
    hence "t div bs * bs < cdiv seq bs * bs" using that cdiv_upper [OF assms(1), of seq] by linarith
    hence "t div bs < cdiv seq bs" using assms(1) by (simp add: mult_less_cancel_right)
    moreover have "0 \<le> t div bs" using that assms(1) by (simp add: pos_imp_zdiv_nonneg_iff)
    ultimately show ?thesis using assms(2,3) by simp
  qed
  thus ?thesis by (auto simp: gather_def filter_id_conv)
qed

lemma torch_nth:
  fixes bs :: int
  assumes "length sl = length bt" "length q = length bt" "i < length bt"
  defines "n \<equiv> cdiv (sl ! i) bs"
  shows "\<exists>bt' sl'. compact_block_table_torch bt sl bs (Some q) nb = (bt', sl') \<and>
    (bt' ! i, sl' ! i) = (if (\<exists>c \<in> set [0..<length (bt ! i)]. int c < n \<and> bt ! i ! c = nb) \<and> q ! i = 1
      then (fst (compact_row nb n (bt ! i)), sl ! i - (n - snd (compact_row nb n (bt ! i))) * bs) else (bt ! i, sl ! i))"
proof -
  define ns where "ns = map (\<lambda>s. cdiv s bs) sl"
  define rs where "rs = map2 (compact_row nb) ns bt"
  define ds where "ds = map2 (\<lambda>a l. a \<and> l = 1) (map2 (\<lambda>k r. \<exists>c \<in> set [0..<length r]. int c < k \<and> r ! c = nb) ns bt) q"
  define B where "B = map2 (\<lambda>x (c, r). if x then c else r) ds (zip (map fst rs) bt)"
  define S where "S = map2 (\<lambda>x (s', s). if x then s' else s) ds
    (zip (map2 (\<lambda>s (k, r). s - (k - r) * bs) sl (zip ns (map snd rs))) sl)"
  have run: "compact_block_table_torch bt sl bs (Some q) nb = (if \<not> (\<exists>x \<in> set ds. x) then (bt, sl) else (B, S))"
    unfolding compact_block_table_torch_def Let_def option.case B_def S_def ds_def rs_def ns_def by (rule refl)
  have ns: "length ns = length bt" "ns ! i = n" using assms(1-3) by (simp_all add: ns_def n_def)
  have rs: "length rs = length bt" "rs ! i = compact_row nb n (bt ! i)" using ns assms(3) by (simp_all add: rs_def)
  have ds: "length ds = length bt" "ds ! i = ((\<exists>c \<in> set [0..<length (bt ! i)]. int c < n \<and> bt ! i ! c = nb) \<and> q ! i = 1)"
    using ns assms(2,3) by (simp_all add: ds_def)
  have B: "B ! i = (if ds ! i then fst (compact_row nb n (bt ! i)) else bt ! i)"
    using ds(1) rs ns assms(3) by (simp add: B_def)
  have S: "S ! i = (if ds ! i then sl ! i - (n - snd (compact_row nb n (bt ! i))) * bs else sl ! i)"
    using ds(1) rs ns assms(1,3) by (simp add: S_def)
  show ?thesis unfolding ds(2) [symmetric]
  proof (cases "\<exists>x \<in> set ds. x")
    case False
    have "ds ! i \<in> set ds" using ds(1) assms(3) by (intro nth_mem) simp
    hence "\<not> ds ! i" using False by blast
    thus "\<exists>bt' sl'. compact_block_table_torch bt sl bs (Some q) nb = (bt', sl') \<and> (bt' ! i, sl' ! i) =
      (if ds ! i then (fst (compact_row nb n (bt ! i)), sl ! i - (n - snd (compact_row nb n (bt ! i))) * bs) else (bt ! i, sl ! i))"
      using run False by simp
  next
    case True
    thus "\<exists>bt' sl'. compact_block_table_torch bt sl bs (Some q) nb = (bt', sl') \<and> (bt' ! i, sl' ! i) =
      (if ds ! i then (fst (compact_row nb n (bt ! i)), sl ! i - (n - snd (compact_row nb n (bt ! i))) * bs) else (bt ! i, sl ! i))"
      using run B S by simp
  qed
qed

text \<open>
  C10: Compaction of the block table drops exactly the evicted tokens from the attention read. For a row whose
  blocks cover the sequence and whose last, partly filled block is not evicted, the kernel reads after
  compaction the tokens it would have read before, in the same order and without those of evicted blocks; a
  row with a query of several tokens is left as it was. The NumPy variant reads the same, and its block count
  is the number of blocks the shortened length needs.
\<close>

theorem compaction_drops_evicted:
  assumes "0 < bs" "length sl = length bt" "length q = length bt" "i < length bt" "0 \<le> sl ! i"
    "cdiv (sl ! i) bs \<le> int (length (bt ! i))" "tail_kept nb bs (bt ! i) (sl ! i)"
  defines "kept \<equiv> filter (\<lambda>(b, off). b \<noteq> nb) (gather bs (bt ! i) (sl ! i))"
  shows "(\<exists>bt' sl'. compact_block_table_torch bt sl bs (Some q) nb = (bt', sl') \<and>
      gather bs (bt' ! i) (sl' ! i) = (if q ! i = 1 then kept else gather bs (bt ! i) (sl ! i))) \<and>
    (\<exists>bt' k sl'. compact_block_table bt (map (\<lambda>s. cdiv s bs) sl) sl bs nb = Inr (bt', k, sl') \<and>
      gather bs (bt' ! i) (sl' ! i) = kept \<and> cdiv (sl' ! i) bs = k ! i)"
proof
  let ?n = "cdiv (sl ! i) bs" and ?r = "bt ! i"
  define s where "s = sl ! i - (?n - snd (compact_row nb ?n ?r)) * bs"
  have g: "gather bs (fst (compact_row nb ?n ?r)) s = kept"
    using gather_compact [OF assms(1,5-7)] by (simp add: s_def compact_row_eq compact_seq_len_def kept_def)
  have k: "cdiv s bs = snd (compact_row nb ?n ?r)" using cdiv_minus [OF assms(1)] by (simp add: s_def)
  show "\<exists>bt' k sl'. compact_block_table bt (map (\<lambda>s. cdiv s bs) sl) sl bs nb = Inr (bt', k, sl') \<and>
      gather bs (bt' ! i) (sl' ! i) = kept \<and> cdiv (sl' ! i) bs = k ! i"
    using assms(2-4) g k by (simp add: compact_block_table_def Let_def s_def)
  have same: "kept = gather bs ?r (sl ! i)" if "\<not> (\<exists>c \<in> set [0..<length ?r]. int c < ?n \<and> ?r ! c = nb)"
    unfolding kept_def using that by (intro no_null_gather [OF assms(1,6)]) auto
  show "\<exists>bt' sl'. compact_block_table_torch bt sl bs (Some q) nb = (bt', sl') \<and>
      gather bs (bt' ! i) (sl' ! i) = (if q ! i = 1 then kept else gather bs ?r (sl ! i))"
    using torch_nth [OF assms(2-4), of bs nb] g same unfolding s_def [symmetric] by (auto split: if_splits)
qed

theorem compaction_drops_evicted_witness:
  "\<exists>bt' sl'. compact_block_table_torch [[5, 0, 7]] [5] 2 (Some [1]) 0 = (bt', sl') \<and>
     gather 2 (bt' ! 0) (sl' ! 0) = filter (\<lambda>(b, off). b \<noteq> 0) (gather 2 [5, 0, 7] 5)"
  using compaction_drops_evicted [of 2 "[5]" "[[5, 0, 7]]" "[1]" 0 0] by (simp add: cdiv_def tail_kept_def)

text \<open>
  Without that hypothesis compaction misreads: with no local window the partly filled last block can be the
  one with the lowest score. Of 17 tokens in blocks 5 and 7 of size 16, evicting block 7 leaves 16 tokens in
  the cache, but the compacted length is 1.
\<close>

lemma partial_block_evicted_misread:
  "plan_eviction [5, 7] 0 0 1 = ([0, 1], [0, 1], 1)" "choose_lowest [0, 1] [2, 1 :: int] 1 = Inr [1]"
  "compact_block_table_torch [[5, 0]] [17] 16 (Some [1]) 0 = ([[5, 0]], [1])"
proof -
  show "plan_eviction [5, 7] 0 0 1 = ([0, 1], [0, 1], 1)" by code_simp
  show "choose_lowest [0, 1] [2, 1 :: int] 1 = Inr [1]" by code_simp
  show "compact_block_table_torch [[5, 0]] [17] 16 (Some [1]) 0 = ([[5, 0]], [1])" by code_simp
qed

end
