(* ===== verification/Skive_Scores.thy ===== *)
theory Skive_Scores
  imports Skive_Worker Evict_Correct
begin

text \<open>
  The key/value ratio scores: scoring a list of blocks scores each block by itself, so the per-request cache
  returns what direct scoring returns as long as its entries are current.
\<close>

definition block_score :: "(real list \<times> real list) list list \<Rightarrow> int \<Rightarrow> real" where
  "block_score caches b =
     sqrt (\<Sum>kc\<leftarrow>caches. sum_squares (snd (kc ! nat b))) / (sqrt (\<Sum>kc\<leftarrow>caches. sum_squares (fst (kc ! nat b))) + DEFAULT_EPS)"

definition ids_ok :: "(real list \<times> real list) list list \<Rightarrow> int list \<Rightarrow> bool" where
  "ids_ok caches ids \<longleftrightarrow> (\<forall>b \<in> set ids. 0 \<le> b \<and> (\<forall>kc \<in> set caches. nat b < length kc))"

lemma score_request_blocks_eq:
  assumes "ids_ok caches ids"
  shows "score_request_blocks caches ids = Inr (if caches = [] then [] else map (block_score caches) ids)"
proof (cases "ids = []")
  case False
  have "mapE (py_index kc) ids = Inr (map (\<lambda>b. kc ! nat b) ids)" if "kc \<in> set caches" for kc
    using assms that by (intro mapE_total) (auto simp: ids_ok_def py_index_def)
  hence m: "mapE (\<lambda>kc. mapE (py_index kc) ids) caches = Inr (map (\<lambda>kc. map (\<lambda>b. kc ! nat b) ids) caches)"
    by (rule mapE_total)
  have "(\<Sum>bs\<leftarrow>map (\<lambda>kc. map (\<lambda>b. kc ! nat b) ids) caches. sum_squares (f (bs ! i))) =
      (\<Sum>kc\<leftarrow>caches. sum_squares (f (kc ! nat (ids ! i))))" if "i < length ids" for i and f :: "real list \<times> real list \<Rightarrow> real list"
    using that by (simp add: comp_def)
  hence "map (\<lambda>i. let sum_k = (\<Sum>bs\<leftarrow>map (\<lambda>kc. map (\<lambda>b. kc ! nat b) ids) caches. sum_squares (fst (bs ! i)));
        sum_v = (\<Sum>bs\<leftarrow>map (\<lambda>kc. map (\<lambda>b. kc ! nat b) ids) caches. sum_squares (snd (bs ! i)))
      in sqrt sum_v / (sqrt sum_k + DEFAULT_EPS)) [0..<length ids] = map (\<lambda>i. block_score caches (ids ! i)) [0..<length ids]"
    unfolding Let_def block_score_def by (intro map_cong refl) simp
  also have "\<dots> = map (block_score caches) ids" by (rule nth_equalityI) simp_all
  finally show ?thesis using False by (simp only: score_request_blocks_def m bindE_Inr) simp
qed (simp add: score_request_blocks_def)

lemma sum_squares_nonneg: "0 \<le> sum_squares xs"
  unfolding sum_squares_def by (intro sum_list_nonneg) auto

lemma block_score_nonneg: "0 \<le> block_score caches b"
proof -
  have "0 \<le> (\<Sum>kc\<leftarrow>caches. sum_squares (f (kc ! nat b)))" for f :: "real list \<times> real list \<Rightarrow> real list"
    by (intro sum_list_nonneg) (auto simp: sum_squares_nonneg)
  thus ?thesis unfolding block_score_def DEFAULT_EPS_def by (intro divide_nonneg_pos) (simp_all add: add_nonneg_pos)
qed

section \<open>The cached scores\<close>

text \<open>An entry is current when its score is the score of the block it names.\<close>

definition cache_current :: "(real list \<times> real list) list list \<Rightarrow> (nat \<times> int \<times> real) list \<Rightarrow> bool" where
  "cache_current caches rc \<longleftrightarrow> (\<forall>j b s. map_of rc j = Some (b, s) \<longrightarrow> s = block_score caches b)"

text \<open>A loop whose steps each change one position of a list, all positions different.\<close>

lemma fold_point:
  assumes "\<And>t ys. length (h t ys) = length ys" "\<And>t ys i. i \<noteq> key t \<Longrightarrow> h t ys ! i = ys ! i"
    and "\<And>t ys. key t < length ys \<Longrightarrow> h t ys ! key t = v t (ys ! key t)" "distinct (map key ts)"
  shows "length (fold h ts xs) = length xs" "k \<notin> key ` set ts \<Longrightarrow> fold h ts xs ! k = xs ! k"
    "t \<in> set ts \<Longrightarrow> key t < length xs \<Longrightarrow> fold h ts xs ! key t = v t (xs ! key t)"
proof -
  show len: "length (fold h ts xs) = length xs" for ts xs by (induction ts arbitrary: xs) (simp_all add: assms(1))
  have out: "k \<notin> key ` set ts \<Longrightarrow> fold h ts xs ! k = xs ! k" for ts xs k
    by (induction ts arbitrary: xs) (simp_all add: assms(2))
  show "k \<notin> key ` set ts \<Longrightarrow> fold h ts xs ! k = xs ! k" by (rule out)
  show "t \<in> set ts \<Longrightarrow> key t < length xs \<Longrightarrow> fold h ts xs ! key t = v t (xs ! key t)"
    using assms(4)
  proof (induction ts arbitrary: xs)
    case (Cons u us)
    show ?case
    proof (cases "t = u")
      case True
      thus ?thesis using Cons.prems out [of "key u" us "h u xs"] assms(3) by simp
    next
      case False
      hence t: "t \<in> set us" using Cons.prems by simp
      hence "key t \<noteq> key u" using Cons.prems(3) by (metis distinct.simps(2) image_eqI list.map(2) list.set_map)
      thus ?thesis using Cons.IH [of "h u xs"] Cons.prems assms(1,2) t by simp
    qed
  qed simp
qed

lemma map_of_fold_update: "map_of (fold (\<lambda>(t, s). AList.update (f t) (g t, s)) ts rc) j = Some e \<Longrightarrow>
    map_of rc j = Some e \<or> (\<exists>t s. (t, s) \<in> set ts \<and> j = f t \<and> e = (g t, s))"
proof (induction ts arbitrary: rc)
  case (Cons x ts)
  obtain t s where x: "x = (t, s)" by force
  have "map_of (AList.update (f t) (g t, s) rc) j = Some e \<or> (\<exists>t s. (t, s) \<in> set ts \<and> j = f t \<and> e = (g t, s))"
    using Cons.IH [of "AList.update (f t) (g t, s) rc"] Cons.prems x by simp
  thus ?case using x by (auto simp: update_conv' split: if_splits)
qed simp

lemma vk_score_cached_law:
  assumes "length pos = length ids" "ids_ok (skive_full_caches mr) ids"
  shows "\<exists>scores rc'. vk_score_cached mr rid pos ids = Inr (scores, mr\<lparr>mr_score_cache := AList.update rid rc' (mr_score_cache mr)\<rparr>) \<and>
    length scores = length ids \<and>
    (cache_current (skive_full_caches mr) (request_cache rid (mr_score_cache mr)) \<and> skive_full_caches mr \<noteq> [] \<longrightarrow>
      scores = map (block_score (skive_full_caches mr)) ids \<and> cache_current (skive_full_caches mr) rc')"
proof -
  define rc where "rc = request_cache rid (mr_score_cache mr)"
  define es where "es = zip [0..<length ids] (zip pos ids)"
  define todo where "todo = filter (\<lambda>(k, j, bid). cached_score rc j bid = None) es"
  define C where "C = skive_full_caches mr"
  define new where "new = (if C = [] then [] else map (block_score C) (map (\<lambda>(k, j, bid). bid) todo))"
  define s0 where "s0 = fold (\<lambda>(k, j, bid) xs. case cached_score rc j bid of Some s \<Rightarrow> xs[k := s] | None \<Rightarrow> xs) es (replicate (length ids) (0 :: real))"
  define s1 where "s1 = fold (\<lambda>((k, j, bid), s) xs. xs[k := s]) (zip todo new) s0"
  define rc1 where "rc1 = fold (\<lambda>((k, j, bid), s). AList.update j (bid, s)) (zip todo new) rc"
  have es: "length es = length ids" "\<And>k. k < length ids \<Longrightarrow> es ! k = (k, pos ! k, ids ! k)" "distinct (map fst es)"
    using assms(1) by (simp_all add: es_def)
  have mem: "(k, j, b) \<in> set es \<longleftrightarrow> k < length ids \<and> j = pos ! k \<and> b = ids ! k" for k j b
    using es(1,2) by (fastforce simp: in_set_conv_nth)
  have "ids_ok C (map (\<lambda>(k, j, bid). bid) todo)"
    using assms(2) mem by (fastforce simp: ids_ok_def C_def todo_def)
  hence "(if todo = [] then Inr [] else score_request_blocks C (map (\<lambda>(k, j, bid). bid) todo)) = Inr new"
    by (simp add: score_request_blocks_eq new_def)
  hence run: "vk_score_cached mr rid pos ids = Inr (s1, mr\<lparr>mr_score_cache := AList.update rid rc1 (mr_score_cache mr)\<rparr>)"
    unfolding vk_score_cached_def Let_def s1_def s0_def rc1_def todo_def es_def rc_def C_def by simp
  note p0 = fold_point [of "\<lambda>(k, j, bid) xs. case cached_score rc j bid of Some s \<Rightarrow> xs[k := s] | None \<Rightarrow> xs" fst
    "\<lambda>(k, j, bid) x. case cached_score rc j bid of Some s \<Rightarrow> s | None \<Rightarrow> x" es]
  have s0: "length s0 = length ids" "k < length ids \<Longrightarrow> s0 ! k = (case cached_score rc (pos ! k) (ids ! k) of Some s \<Rightarrow> s | None \<Rightarrow> 0)" for k
    using p0(1) [of "replicate (length ids) 0"] p0(3) [of "(k, pos ! k, ids ! k)" "replicate (length ids) 0"] es(3) mem
    by (auto simp: s0_def split: option.splits)
  have dt: "distinct (map (fst \<circ> fst) (zip todo new))"
  proof -
    have "distinct (map fst todo)" unfolding todo_def using es(3) by (rule distinct_map_filter)
    hence "distinct (take (min (length todo) (length new)) (map fst todo))" by simp
    thus ?thesis by (simp flip: map_map add: take_map map_fst_zip_take)
  qed
  note p1 = fold_point [of "\<lambda>((k, j, bid), s) xs. xs[k := s]" "fst \<circ> fst" "\<lambda>(t, s) x. s" "zip todo new"]
  have len: "length s1 = length ids" using p1(1) [of s0] dt s0(1) by (auto simp: s1_def split: prod.splits)
  have cur: "s1 = map (block_score C) ids \<and> cache_current C rc1" if c: "cache_current C rc" "C \<noteq> []"
  proof
    have nw: "new = map (\<lambda>(k, j, b). block_score C b) todo" using c(2) by (auto simp: new_def)
    have zt: "(t, s) \<in> set (zip todo new) \<longleftrightarrow> t \<in> set todo \<and> s = block_score C (snd (snd t))" for t s
      unfolding nw by (auto simp: set_zip in_set_conv_nth split: prod.splits)
    show "s1 = map (block_score C) ids"
    proof (rule nth_equalityI)
      fix k assume "k < length s1"
      hence k: "k < length ids" using len by simp
      let ?t = "(k, pos ! k, ids ! k)"
      show "s1 ! k = map (block_score C) ids ! k"
      proof (cases "cached_score rc (pos ! k) (ids ! k)")
        case None
        hence "(?t, block_score C (ids ! k)) \<in> set (zip todo new)" unfolding zt using mem k by (simp add: todo_def)
        thus ?thesis using p1(3) [of "(?t, block_score C (ids ! k))" s0] dt s0(1) k by (auto simp: s1_def split: prod.splits)
      next
        case (Some s)
        have "k \<notin> (fst \<circ> fst) ` set (zip todo new)"
          using Some zt mem by (auto simp: todo_def split: prod.splits)
        hence "s1 ! k = s0 ! k" using p1(2) [of k s0] dt by (auto simp: s1_def split: prod.splits)
        moreover have "s = block_score C (ids ! k)" using Some c(1) by (auto simp: cached_score_def cache_current_def split: option.splits if_splits)
        ultimately show ?thesis using s0(2) [OF k] Some k by simp
      qed
    qed (simp add: len)
    show "cache_current C rc1" unfolding cache_current_def
    proof (intro allI impI)
      fix j b s assume "map_of rc1 j = Some (b, s)"
      moreover have "rc1 = fold (\<lambda>(t, s). AList.update (fst (snd t)) (snd (snd t), s)) (zip todo new) rc"
        unfolding rc1_def by (simp add: case_prod_beta')
      ultimately have "map_of rc j = Some (b, s) \<or> (\<exists>t s'. (t, s') \<in> set (zip todo new) \<and> j = fst (snd t) \<and> (b, s) = (snd (snd t), s'))"
        using map_of_fold_update [of "\<lambda>t. fst (snd t)" "\<lambda>t. snd (snd t)" "zip todo new" rc j "(b, s)"] by simp
      thus "s = block_score C b" using c(1) zt by (auto simp: cache_current_def)
    qed
  qed
  show ?thesis using run len cur unfolding C_def rc_def by blast
qed

text \<open>
  C38: The cached scoring of a request's blocks equals direct scoring. When the cached entries are current and
  the model has an attention layer, scoring through the cache returns the scores that scoring all blocks
  directly returns, none of them negative, and leaves current entries.
\<close>

theorem cached_scores_exact:
  assumes "length pos = length ids" "ids_ok (skive_full_caches mr) ids" "skive_full_caches mr \<noteq> []"
    and "cache_current (skive_full_caches mr) (request_cache rid (mr_score_cache mr))"
  shows "\<exists>scores mr'. vk_score_cached mr rid pos ids = Inr (scores, mr') \<and>
    score_request_blocks (skive_full_caches mr) ids = Inr scores \<and> (\<forall>s \<in> set scores. 0 \<le> s) \<and>
    cache_current (skive_full_caches mr) (request_cache rid (mr_score_cache mr'))"
proof -
  let ?C = "skive_full_caches mr"
  obtain rc' where r: "vk_score_cached mr rid pos ids =
      Inr (map (block_score ?C) ids, mr\<lparr>mr_score_cache := AList.update rid rc' (mr_score_cache mr)\<rparr>)" "cache_current ?C rc'"
    using vk_score_cached_law [OF assms(1,2), of rid] assms(3,4) by blast
  have "request_cache rid (AList.update rid rc' (mr_score_cache mr)) = rc'" by (simp add: request_cache_def update_conv')
  thus ?thesis using r assms(2,3) score_request_blocks_eq [OF assms(2)] block_score_nonneg by auto
qed

definition demo_layer :: attn_layer where
  "demo_layer = \<lparr>layer_name = ''l0'', layer_class = ''Attention'', layer_kv_cache = Some 0\<rparr>"

definition demo_runner :: model_runner where
  "demo_runner = \<lparr>mr_settings = \<lparr>kv_evict_enabled = True, kv_evict_budget = Some 1, kv_evict_num_sink_blocks = 0,
       kv_evict_num_local_blocks = 1, cache_block_size = 2\<rparr>,
     mr_config_groups = Some [], mr_attn_groups = None,
     mr_tables = [\<lparr>bt_rows = [[1, 2, 3, 0]], num_blocks_per_row = [3], bt_block_size = 2, use_hybrid_blocks = False\<rparr>],
     mr_num_reqs = 1, mr_req_ids = [Some ''a''], mr_num_prompt_tokens = [2], mr_layers = [demo_layer],
     mr_kv_caches = [Attn_Tensor [([0], [0]), ([1], [1]), ([2], [1]), ([1], [3])]], mr_null_zeroed = True,
     mr_score_cache = [], mr_va_batch = None, mr_pending_free = [], mr_evicted_by_req = [], mr_step = 7, mr_evicted_total = 0\<rparr>"

lemma demo_runner_caches: "skive_full_caches demo_runner = [[([0], [0]), ([1], [1]), ([2], [1]), ([1], [3])]]"
  by (simp add: skive_full_caches_def skive_layers_def skive_full_group_def skive_kv_groups_def demo_runner_def
      demo_layer_def layer_kv_def map_filter_simps)

theorem cached_scores_exact_witness:
  "\<exists>scores mr'. vk_score_cached demo_runner ''a'' [0, 1] [1, 2] = Inr (scores, mr') \<and>
     score_request_blocks (skive_full_caches demo_runner) [1, 2] = Inr scores"
proof -
  have "ids_ok (skive_full_caches demo_runner) [1, 2]" by (simp add: demo_runner_caches ids_ok_def)
  moreover have "cache_current (skive_full_caches demo_runner) (request_cache ''a'' (mr_score_cache demo_runner))"
    by (simp add: cache_current_def request_cache_def demo_runner_def)
  ultimately show ?thesis
    using cached_scores_exact [of "[0, 1]" "[1, 2]" demo_runner "''a''"] demo_runner_caches by auto
qed

text \<open>
  A cached score does not depend on the tensors, and every block of a row is scored, the partly filled last
  one included: the score that block had then is the one used after it is full.
\<close>

lemma cached_score_not_refreshed:
  "row_misses [] rid [b] 1 = (if b = NULL_BLOCK_ID then [] else [(rid, 0, b)])"
  "mr_score_cache mr = [(rid, [(0, b, s)])] \<Longrightarrow>
     vk_score_cached (mr\<lparr>mr_kv_caches := ts\<rparr>) rid [0] [b] = Inr ([s], mr\<lparr>mr_kv_caches := ts\<rparr>)"
  by (simp_all add: row_misses_def request_cache_def cached_score_def vk_score_cached_def)

end
