(* ===== verification/Skive_Evict.thy ===== *)
theory Skive_Evict
  imports Skive_Scores
begin

text \<open>
  The eviction hook on the worker: on a well-formed runner it raises nothing, nulls only real blocks outside
  the sinks and the local window, records exactly the nulled entries for the scheduler, and brings every row
  it evicts from back to its budget.
\<close>

section \<open>Nulling entries of a row\<close>

definition nulled :: "nat list \<Rightarrow> int list \<Rightarrow> int list" where
  "nulled js row = fold (\<lambda>j r. r[j := NULL_BLOCK_ID]) js row"

lemma length_nulled [simp]: "length (nulled js row) = length row"
  unfolding nulled_def by (induction js arbitrary: row) simp_all

lemma nth_nulled: "i < length row \<Longrightarrow> nulled js row ! i = (if i \<in> set js then NULL_BLOCK_ID else row ! i)"
  unfolding nulled_def
proof (induction js arbitrary: row)
  case (Cons j js)
  thus ?case by (auto simp: nth_list_update)
qed simp

lemma nulled_Nil [simp]: "nulled [] row = row"
  by (simp add: nulled_def)

text \<open>The positions of the real blocks among the first \<open>n\<close> entries.\<close>

definition real_positions :: "nat \<Rightarrow> int list \<Rightarrow> nat list" where
  "real_positions n row = filter (\<lambda>j. row ! j \<noteq> NULL_BLOCK_ID) [0..<n]"

lemma real_positions_take: "n \<le> length row \<Longrightarrow>
    filter (\<lambda>j. take n row ! j \<noteq> NULL_BLOCK_ID) [0..<length (take n row)] = real_positions n row"
  unfolding real_positions_def by (auto intro!: filter_cong)

lemma real_positions_nulled:
  assumes "n \<le> length row" "set js \<subseteq> set (real_positions n row)" "distinct js"
  shows "real_positions n (nulled js row) = filter (\<lambda>j. j \<notin> set js) (real_positions n row)"
    "length (real_positions n (nulled js row)) = length (real_positions n row) - length js"
proof -
  show e: "real_positions n (nulled js row) = filter (\<lambda>j. j \<notin> set js) (real_positions n row)"
    unfolding real_positions_def filter_filter using assms(1) by (intro filter_cong refl) (auto simp: nth_nulled)
  have d: "distinct (real_positions n row)" by (simp add: real_positions_def)
  have "length (filter (\<lambda>j. j \<notin> set js) (real_positions n row)) = card (set (real_positions n row) - set js)"
    using distinct_card [of "filter (\<lambda>j. j \<notin> set js) (real_positions n row)"] d by (simp add: set_diff_eq)
  also have "\<dots> = card (set (real_positions n row)) - card (set js)" using assms(2) by (intro card_Diff_subset) simp_all
  finally show "length (real_positions n (nulled js row)) = length (real_positions n row) - length js"
    using distinct_card [OF d] distinct_card [OF assms(3)] e by simp
qed

section \<open>The choice for one row\<close>

text \<open>What eviction may choose: distinct real positions outside the first \<open>sink\<close> and the last \<open>local\<close> real blocks.\<close>

definition evict_choice :: "int \<Rightarrow> int \<Rightarrow> nat \<Rightarrow> int list \<Rightarrow> nat list \<Rightarrow> bool" where
  "evict_choice sink local n row js \<longleftrightarrow> distinct js \<and> set js \<subseteq> set (real_positions n row) \<and>
     (\<forall>k < length (real_positions n row). int k < sink \<or> int (length (real_positions n row)) - local \<le> int k \<longrightarrow>
        real_positions n row ! k \<notin> set js)"

text \<open>How many blocks are evicted.\<close>

definition evict_amount :: "int \<Rightarrow> int \<Rightarrow> int \<Rightarrow> int \<Rightarrow> int" where
  "evict_amount sink local budget k = max 0 (min (k - budget) (k - local - sink))"

lemma evict_choice_Nil [simp]: "evict_choice sink local n row []"
  by (simp add: evict_choice_def)

lemma plan_choose:
  fixes scores :: "'s::linorder list"
  assumes "n \<le> length row" "0 \<le> sink" "0 \<le> local" "length scores = length (real_positions n row)"
  defines "k \<equiv> length (real_positions n row)"
  shows "\<exists>cs m. plan_eviction (take n row) sink local budget = (real_positions n row, cs, m) \<and>
    m = evict_amount sink local budget (int k) \<and>
    (\<exists>chosen. choose_lowest cs scores m = Inr chosen \<and>
       mapE (py_index (real_positions n row)) chosen = Inr (map (\<lambda>i. real_positions n row ! nat i) chosen) \<and>
       int (length chosen) = m \<and> evict_choice sink local n row (map (\<lambda>i. real_positions n row ! nat i) chosen))"
proof -
  let ?r = "real_positions n row" and ?hi = "int k - local"
  let ?cs = "if int k - budget \<le> 0 \<or> ?hi \<le> sink then [] else [sink..?hi - 1]"
  let ?m = "evict_amount sink local budget (int k)"
  have plan: "plan_eviction (take n row) sink local budget = (?r, ?cs, ?m)"
    using assms(1-3) unfolding plan_eviction_def real_positions_take [OF assms(1)] Let_def k_def evict_amount_def by auto
  have in_range: "\<forall>i \<in> set ?cs. 0 \<le> i \<and> i < int (length scores)" using assms(2-4) by (auto simp: k_def)
  have srt: "sorted_wrt (<) ?cs" by simp
  obtain chosen where c: "choose_lowest ?cs scores ?m = Inr chosen" "length chosen = min (nat ?m) (length ?cs)" "distinct chosen"
    "set chosen \<subseteq> set ?cs" using choose_lowest_law [OF in_range srt, of ?m] by blast
  have len: "int (length chosen) = ?m" using c(2) by (auto simp: evict_amount_def)
  have rng: "0 \<le> i \<and> nat i < k \<and> sink \<le> i \<and> i < ?hi" if "i \<in> set chosen" for i
  proof -
    have "i \<in> set ?cs" using that c(4) by blast
    hence "sink \<le> i" "i < ?hi" by (simp_all split: if_splits)
    thus ?thesis using assms(2,3) by simp
  qed
  have idx: "mapE (py_index ?r) chosen = Inr (map (\<lambda>i. ?r ! nat i) chosen)"
  proof (rule mapE_total)
    fix i assume "i \<in> set chosen"
    from rng [OF this] show "py_index ?r i = Inr (?r ! nat i)" by (simp add: py_index_def k_def)
  qed
  have inj: "inj_on (\<lambda>i. ?r ! nat i) (set chosen)"
  proof (rule inj_onI)
    fix a b assume ab: "a \<in> set chosen" "b \<in> set chosen" "?r ! nat a = ?r ! nat b"
    have "distinct ?r" by (simp add: real_positions_def)
    hence "nat a = nat b" using ab rng [OF ab(1)] rng [OF ab(2)] by (subst (asm) nth_eq_iff_index_eq) (simp_all add: k_def)
    thus "a = b" using rng [OF ab(1)] rng [OF ab(2)] eq_nat_nat_iff [of a b] by blast
  qed
  have "?r ! q \<notin> set (map (\<lambda>i. ?r ! nat i) chosen)" if "q < k" "int q < sink \<or> ?hi \<le> int q" for q
  proof
    assume "?r ! q \<in> set (map (\<lambda>i. ?r ! nat i) chosen)"
    then obtain i where i: "i \<in> set chosen" "?r ! q = ?r ! nat i" by auto
    have "distinct ?r" by (simp add: real_positions_def)
    hence "q = nat i" using i that(1) rng [OF i(1)] by (subst (asm) nth_eq_iff_index_eq) (simp_all add: k_def)
    thus False using that(2) rng [OF i(1)] by linarith
  qed
  hence "evict_choice sink local n row (map (\<lambda>i. ?r ! nat i) chosen)"
    using c(3) inj rng by (auto simp: evict_choice_def distinct_map k_def)
  thus ?thesis using plan c(1) idx len by blast
qed

section \<open>One request\<close>

abbreviation evict_table :: "model_runner \<Rightarrow> block_table" where
  "evict_table mr \<equiv> mr_tables mr ! fst (skive_full_group mr)"

text \<open>A well-formed runner: the group is resolved, its table covers the batch, and real blocks have cache entries.\<close>

definition runner_ok :: "model_runner \<Rightarrow> bool" where
  "runner_ok mr \<longleftrightarrow> (let bt = evict_table mr in
     \<not> snd (snd (skive_full_group mr)) \<and> fst (skive_full_group mr) < length (mr_tables mr) \<and> \<not> use_hybrid_blocks bt \<and>
     mr_num_reqs mr \<le> length (bt_rows bt) \<and> mr_num_reqs mr \<le> length (num_blocks_per_row bt) \<and>
     mr_num_reqs mr \<le> length (mr_req_ids mr) \<and>
     (\<forall>l \<in> set (mr_layers mr). \<forall>t. layer_kv_cache l = Some t \<longrightarrow> t < length (mr_kv_caches mr)) \<and>
     (\<forall>ri < mr_num_reqs mr. 0 \<le> num_blocks_per_row bt ! ri \<and> nat (num_blocks_per_row bt ! ri) \<le> length (bt_rows bt ! ri) \<and>
        (\<forall>j < nat (num_blocks_per_row bt ! ri). bt_rows bt ! ri ! j \<noteq> NULL_BLOCK_ID \<longrightarrow>
           ids_ok (skive_full_caches mr) [bt_rows bt ! ri ! j])))"

text \<open>A per-request attention scorer returns one score per block.\<close>

definition scorer_ok :: "(model_runner \<Rightarrow> nat \<Rightarrow> int list \<Rightarrow> real list option) \<Rightarrow> bool" where
  "scorer_ok one_va \<longleftrightarrow> (\<forall>mr ri ids s. one_va mr ri ids = Some s \<longrightarrow> length s = length ids)"

lemma runner_table: "runner_ok mr \<Longrightarrow> skive_block_table mr = Inr (Some (evict_table mr))"
  by (auto simp: runner_ok_def Let_def skive_block_table_def py_index_def split: prod.splits)

lemma full_group_cong:
  "mr_config_groups mr' = mr_config_groups mr \<Longrightarrow> mr_attn_groups mr' = mr_attn_groups mr \<Longrightarrow>
   length (mr_tables mr') = length (mr_tables mr) \<Longrightarrow> skive_full_group mr' = skive_full_group mr"
  unfolding skive_full_group_def skive_kv_groups_def by (simp only:)

lemma full_caches_cong:
  assumes "mr_config_groups mr' = mr_config_groups mr" "mr_attn_groups mr' = mr_attn_groups mr"
    "length (mr_tables mr') = length (mr_tables mr)" "mr_layers mr' = mr_layers mr" "mr_kv_caches mr' = mr_kv_caches mr"
  shows "skive_full_caches mr' = skive_full_caches mr"
proof -
  have "skive_layers mr' = skive_layers mr" using full_group_cong [OF assms(1-3)] assms(4) by (simp add: skive_layers_def)
  moreover have "layer_kv l mr' li = layer_kv l mr li" for l li
    unfolding layer_kv_def full_group_cong [OF assms(1-3)] assms(5) by (rule refl)
  ultimately show ?thesis by (simp add: skive_full_caches_def)
qed

text \<open>The state after some evictions: new rows of the table, new scores, pending entries and counts.\<close>

definition with_step ::
  "int list list \<Rightarrow> score_cache \<Rightarrow> (string \<times> nat \<times> nat) list \<Rightarrow> (string \<times> int) list \<Rightarrow> model_runner \<Rightarrow> model_runner" where
  "with_step rows c p e mr = mr\<lparr>mr_tables := (mr_tables mr)[fst (skive_full_group mr) := (evict_table mr)\<lparr>bt_rows := rows\<rparr>],
     mr_score_cache := c, mr_pending_free := p, mr_evicted_by_req := e\<rparr>"

lemma with_step_group [simp]: "skive_full_group (with_step rows c p e mr) = skive_full_group mr"
  by (rule full_group_cong) (simp_all add: with_step_def)

lemma with_step_caches [simp]: "skive_full_caches (with_step rows c p e mr) = skive_full_caches mr"
  by (rule full_caches_cong) (simp_all add: with_step_def)

lemma with_step_fields [simp]:
  "mr_num_reqs (with_step rows c p e mr) = mr_num_reqs mr" "mr_req_ids (with_step rows c p e mr) = mr_req_ids mr"
  "mr_num_prompt_tokens (with_step rows c p e mr) = mr_num_prompt_tokens mr"
  "mr_layers (with_step rows c p e mr) = mr_layers mr" "mr_kv_caches (with_step rows c p e mr) = mr_kv_caches mr"
  "mr_score_cache (with_step rows c p e mr) = c" "mr_pending_free (with_step rows c p e mr) = p"
  "mr_evicted_by_req (with_step rows c p e mr) = e" "length (mr_tables (with_step rows c p e mr)) = length (mr_tables mr)"
  by (simp_all add: with_step_def)

lemma with_step_table: "runner_ok mr \<Longrightarrow> evict_table (with_step rows c p e mr) = (evict_table mr)\<lparr>bt_rows := rows\<rparr>"
  by (simp add: runner_ok_def Let_def) (simp add: with_step_def)

lemma with_step_twice: "runner_ok mr \<Longrightarrow> with_step rows' c' p' e' (with_step rows c p e mr) = with_step rows' c' p' e' mr"
  using with_step_table [of mr rows c p e] with_step_group [of rows c p e mr]
  by (simp add: with_step_def [of rows' c' p' e']) (simp add: with_step_def)

lemma with_step_id: "with_step (bt_rows (evict_table mr)) (mr_score_cache mr) (mr_pending_free mr) (mr_evicted_by_req mr) mr = mr"
  by (simp add: with_step_def)

text \<open>Evicting blocks keeps the runner well-formed.\<close>

lemma runner_ok_step:
  assumes "runner_ok mr" "length rows = length (bt_rows (evict_table mr))"
    and "\<forall>ri < mr_num_reqs mr. \<exists>js. rows ! ri = nulled js (bt_rows (evict_table mr) ! ri)"
  shows "runner_ok (with_step rows c p e mr)"
proof -
  have "ids_ok (skive_full_caches mr) [rows ! ri ! j]"
    if r: "ri < mr_num_reqs mr" "j < nat (num_blocks_per_row (evict_table mr) ! ri)" "rows ! ri ! j \<noteq> NULL_BLOCK_ID" for ri j
  proof -
    obtain js where js: "rows ! ri = nulled js (bt_rows (evict_table mr) ! ri)" using assms(3) r(1) by blast
    have "j < length (bt_rows (evict_table mr) ! ri)" using assms(1) r(1,2) by (fastforce simp: runner_ok_def Let_def)
    hence "rows ! ri ! j = bt_rows (evict_table mr) ! ri ! j" "bt_rows (evict_table mr) ! ri ! j \<noteq> NULL_BLOCK_ID"
      using js r(3) by (auto simp: nth_nulled split: if_splits)
    thus ?thesis using assms(1) r(1,2) by (simp add: runner_ok_def Let_def)
  qed
  moreover have "length (rows ! ri) = length (bt_rows (evict_table mr) ! ri)" if "ri < mr_num_reqs mr" for ri
    using assms(3) that by force
  moreover have "snd (snd (skive_full_group (with_step rows c p e mr))) = snd (snd (skive_full_group mr))" by simp
  ultimately show ?thesis using assms(1,2) unfolding runner_ok_def Let_def with_step_table [OF assms(1)] by simp
qed

lemma block_scores_law:
  assumes "scorer_ok one_va" "length pos = length ids" "ids_ok (skive_full_caches mr) ids"
  shows "\<exists>s c. block_scores one_va env cfg mr ri pos ids rid = Inr (s, mr\<lparr>mr_score_cache := c\<rparr>) \<and> length s = length ids"
proof -
  define R where "R x \<longleftrightarrow> (\<exists>s c. x = Inr (s, mr\<lparr>mr_score_cache := c\<rparr>) \<and> length s = length ids)"
    for x :: "(real list \<times> model_runner) res"
  have fb: "R (vk_score_cached mr rid pos ids)"
    using vk_score_cached_law [OF assms(2,3), of rid] unfolding R_def by blast
  have vb: "R (Inr (s, mr))" if "length s = length ids" for s
    unfolding R_def using that by (intro exI [of _ s] exI [of _ "mr_score_cache mr"]) simp
  have one: "R (case one_va mr ri ids of Some s' \<Rightarrow> Inr (s', mr) | None \<Rightarrow> vk_score_cached mr rid pos ids)"
    using fb vb assms(1) by (auto simp: scorer_ok_def split: option.split)
  have one': "R (Inr (s, mr))" if "one_va mr ri ids = Some s" for s using one that by simp
  have ns: "R (Inr (map real [0..<length ids], mr))" by (rule vb) simp
  have "R (block_scores one_va env cfg mr ri pos ids rid)" unfolding block_scores_def Let_def
    using fb one' ns vb by (simp split: option.split)
  thus ?thesis by (simp add: R_def)
qed

lemma evict_request_law:
  fixes env :: skive_env
  assumes "runner_ok mr" "scorer_ok one_va" "config_valid cfg" "ri < mr_num_reqs mr"
  defines "bt \<equiv> evict_table mr"
  defines "row \<equiv> bt_rows bt ! ri" and "n \<equiv> nat (num_blocks_per_row bt ! ri)" and "sink \<equiv> sink_blocks env cfg bt mr ri"
  shows "\<exists>js c. evict_request_blocks one_va env cfg ri rid mr =
      Inr (js, with_step ((bt_rows bt)[ri := nulled js row]) c (mr_pending_free mr) (mr_evicted_by_req mr) mr) \<and>
    evict_choice sink (num_local_blocks cfg) n row js \<and>
    int (length js) = evict_amount sink (num_local_blocks cfg) (kv_budget cfg) (int (length (real_positions n row)))"
proof -
  let ?r = "real_positions n row"
  have ok: "0 \<le> num_blocks_per_row bt ! ri" "n \<le> length row" "ri < length (bt_rows bt)" "ri < length (num_blocks_per_row bt)"
    "\<forall>j < n. row ! j \<noteq> NULL_BLOCK_ID \<longrightarrow> ids_ok (skive_full_caches mr) [row ! j]"
    using assms(1,4) by (auto simp: runner_ok_def Let_def bt_def row_def n_def)
  have cfg: "0 \<le> num_local_blocks cfg" "0 < kv_budget cfg" "0 \<le> sink"
    using assms(3) by (auto simp: config_valid_def sink_def sink_blocks_def)
  have start: "evict_request_blocks one_va env cfg ri rid mr =
     (if num_blocks_per_row bt ! ri = 0 then Inr ([], mr)
      else case plan_eviction (take n row) sink (num_local_blocks cfg) (kv_budget cfg) of (real_pos, candidates_k, num_to_evict) \<Rightarrow>
        if num_to_evict = 0 then Inr ([], mr)
        else bindE (block_scores one_va env cfg mr ri real_pos (map (\<lambda>j. row ! j) real_pos) rid) (\<lambda>(scores, mr1).
             bindE (choose_lowest candidates_k scores num_to_evict) (\<lambda>chosen.
             bindE (mapE (py_index real_pos) chosen) (\<lambda>js.
               Inr (js, set_table_row (fst (skive_full_group mr)) ri (nulled js row)
                     (mr1\<lparr>mr_score_cache := forget_scores rid js (mr_score_cache mr1)\<rparr>))))))"
    unfolding evict_request_blocks_def runner_table [OF assms(1)] bt_def [symmetric] nulled_def bindE_Inr option.case
      py_index_nonneg [OF ok(4)] py_index_nonneg [OF ok(3)] row_def n_def sink_def by (rule refl)
  have same: "with_step ((bt_rows bt)[ri := nulled [] row]) (mr_score_cache mr) (mr_pending_free mr) (mr_evicted_by_req mr) mr = mr"
    using with_step_id [of mr] by (simp add: bt_def row_def)
  have idle: ?thesis if "evict_request_blocks one_va env cfg ri rid mr = Inr ([], mr)"
      "evict_amount sink (num_local_blocks cfg) (kv_budget cfg) (int (length ?r)) = 0"
    using that same by (intro exI [of _ "[]"] exI [of _ "mr_score_cache mr"]) simp
  have "ids_ok (skive_full_caches mr) (map (\<lambda>j. row ! j) ?r)"
    using ok(5) by (auto simp: ids_ok_def real_positions_def)
  then obtain s c where s: "block_scores one_va env cfg mr ri ?r (map (\<lambda>j. row ! j) ?r) rid = Inr (s, mr\<lparr>mr_score_cache := c\<rparr>)"
    "length s = length ?r" using block_scores_law [OF assms(2), of ?r "map (\<lambda>j. row ! j) ?r" mr env cfg ri rid] by auto
  obtain cs m chosen where p: "plan_eviction (take n row) sink (num_local_blocks cfg) (kv_budget cfg) = (?r, cs, m)"
    "m = evict_amount sink (num_local_blocks cfg) (kv_budget cfg) (int (length ?r))" "choose_lowest cs s m = Inr chosen"
    "mapE (py_index ?r) chosen = Inr (map (\<lambda>i. ?r ! nat i) chosen)" "int (length chosen) = m"
    "evict_choice sink (num_local_blocks cfg) n row (map (\<lambda>i. ?r ! nat i) chosen)"
    using plan_choose [OF ok(2) cfg(3,1) s(2), of "kv_budget cfg"] by blast
  show ?thesis
  proof (cases "num_blocks_per_row bt ! ri = 0 \<or> m = 0")
    case True
    have "?r = []" if "num_blocks_per_row bt ! ri = 0" using that by (simp add: real_positions_def n_def)
    hence "m = 0" using True p(2) cfg by (auto simp: evict_amount_def)
    thus ?thesis using start p(1,2) by (intro idle) simp_all
  next
    case False
    let ?js = "map (\<lambda>i. ?r ! nat i) chosen"
    have "evict_request_blocks one_va env cfg ri rid mr = Inr (?js, set_table_row (fst (skive_full_group mr)) ri (nulled ?js row)
        (mr\<lparr>mr_score_cache := forget_scores rid ?js c\<rparr>))"
      unfolding start using False p s(1) by simp
    also have "set_table_row (fst (skive_full_group mr)) ri (nulled ?js row) (mr\<lparr>mr_score_cache := forget_scores rid ?js c\<rparr>) =
        with_step ((bt_rows bt)[ri := nulled ?js row]) (forget_scores rid ?js c) (mr_pending_free mr) (mr_evicted_by_req mr) mr"
      by (simp add: set_table_row_def with_step_def bt_def)
    finally show ?thesis using p(2,5,6) by auto
  qed
qed

section \<open>All rows\<close>

definition row_evicted :: "skive_env \<Rightarrow> eviction_config \<Rightarrow> model_runner \<Rightarrow> nat \<Rightarrow> nat list \<Rightarrow> bool" where
  "row_evicted env cfg mr ri js \<longleftrightarrow>
     (let bt = evict_table mr; row = bt_rows bt ! ri; n = nat (num_blocks_per_row bt ! ri); sink = sink_blocks env cfg bt mr ri
      in evict_choice sink (num_local_blocks cfg) n row js \<and>
         (mr_req_ids mr ! ri = None \<longrightarrow> js = []) \<and>
         (mr_req_ids mr ! ri \<noteq> None \<longrightarrow>
            int (length js) = evict_amount sink (num_local_blocks cfg) (kv_budget cfg) (int (length (real_positions n row)))))"

definition row_entries :: "model_runner \<Rightarrow> nat \<Rightarrow> nat list \<Rightarrow> (string \<times> nat \<times> nat) list" where
  "row_entries mr ri js =
     (case mr_req_ids mr ! ri of None \<Rightarrow> [] | Some rid \<Rightarrow> map (\<lambda>j. (rid, j, fst (skive_full_group mr))) js)"

lemma with_step_more: "with_step rows c p e mr\<lparr>mr_pending_free := p', mr_evicted_by_req := e'\<rparr> = with_step rows c p' e' mr"
  by (simp add: with_step_def)

lemma evict_row_law:
  assumes "runner_ok mr" "scorer_ok one_va" "config_valid cfg" "ri < mr_num_reqs mr"
  shows "\<exists>js c e. evict_row one_va env cfg ri (tot, mr) = Inr (tot + length js,
      with_step ((bt_rows (evict_table mr))[ri := nulled js (bt_rows (evict_table mr) ! ri)]) c
        (mr_pending_free mr @ row_entries mr ri js) e mr) \<and> row_evicted env cfg mr ri js"
proof (cases "mr_req_ids mr ! ri")
  case None
  thus ?thesis using with_step_id [of mr]
    by (intro exI [of _ "[]"] exI [of _ "mr_score_cache mr"] exI [of _ "mr_evicted_by_req mr"])
      (simp add: evict_row_def row_entries_def row_evicted_def Let_def)
next
  case (Some rid)
  obtain js c where e: "evict_request_blocks one_va env cfg ri rid mr =
      Inr (js, with_step ((bt_rows (evict_table mr))[ri := nulled js (bt_rows (evict_table mr) ! ri)]) c (mr_pending_free mr) (mr_evicted_by_req mr) mr)"
    "evict_choice (sink_blocks env cfg (evict_table mr) mr ri) (num_local_blocks cfg) (nat (num_blocks_per_row (evict_table mr) ! ri)) (bt_rows (evict_table mr) ! ri) js"
    "int (length js) = evict_amount (sink_blocks env cfg (evict_table mr) mr ri) (num_local_blocks cfg) (kv_budget cfg)
       (int (length (real_positions (nat (num_blocks_per_row (evict_table mr) ! ri)) (bt_rows (evict_table mr) ! ri))))"
    using evict_request_law [OF assms, of env rid] by blast
  show ?thesis using Some e
    by (intro exI [of _ js]) (simp add: evict_row_def row_entries_def row_evicted_def Let_def with_step_more, blast)
qed

lemma row_evicted_step:
  assumes "runner_ok mr" "rows ! ri = bt_rows (evict_table mr) ! ri"
  shows "row_evicted env cfg (with_step rows c p e mr) ri js = row_evicted env cfg mr ri js"
    "row_entries (with_step rows c p e mr) ri js = row_entries mr ri js"
proof -
  note t = with_step_table [OF assms(1), unfolded with_step_group]
  show "row_evicted env cfg (with_step rows c p e mr) ri js = row_evicted env cfg mr ri js"
    using assms by (simp add: row_evicted_def sink_blocks_def Let_def t)
  show "row_entries (with_step rows c p e mr) ri js = row_entries mr ri js"
    by (simp add: row_entries_def split: option.split)
qed

lemma evict_loop:
  assumes "runner_ok mr" "scorer_ok one_va" "config_valid cfg" "distinct ris" "\<forall>ri \<in> set ris. ri < mr_num_reqs mr"
  defines "rows \<equiv> bt_rows (evict_table mr)"
  shows "\<exists>js c e. foldE (evict_row one_va env cfg) ris (tot, mr) = Inr (tot + (\<Sum>ri\<leftarrow>ris. length (js ri)),
      with_step (map (\<lambda>ri. nulled (js ri) (rows ! ri)) [0..<length rows]) c
        (mr_pending_free mr @ concat (map (\<lambda>ri. row_entries mr ri (js ri)) ris)) e mr) \<and>
    (\<forall>ri. ri \<notin> set ris \<longrightarrow> js ri = []) \<and> (\<forall>ri \<in> set ris. row_evicted env cfg mr ri (js ri))"
  using assms(1,4,5) unfolding rows_def
proof (induction ris arbitrary: tot mr)
  case Nil
  have "map (\<lambda>ri. nulled [] (bt_rows (evict_table mr) ! ri)) [0..<length (bt_rows (evict_table mr))] = bt_rows (evict_table mr)"
    by (simp add: map_nth)
  thus ?case using with_step_id [of mr]
    by (intro exI [of _ "\<lambda>_. []"] exI [of _ "mr_score_cache mr"] exI [of _ "mr_evicted_by_req mr"]) simp
next
  case (Cons ri ris)
  let ?rows = "bt_rows (evict_table mr)"
  obtain js0 c0 e0 where one: "evict_row one_va env cfg ri (tot, mr) = Inr (tot + length js0,
      with_step (?rows[ri := nulled js0 (?rows ! ri)]) c0 (mr_pending_free mr @ row_entries mr ri js0) e0 mr)" "row_evicted env cfg mr ri js0"
    using evict_row_law [OF Cons.prems(1) assms(2,3), of ri env tot] Cons.prems(3) by auto
  let ?rows1 = "?rows[ri := nulled js0 (?rows ! ri)]"
  let ?mr1 = "with_step ?rows1 c0 (mr_pending_free mr @ row_entries mr ri js0) e0 mr"
  have t1: "evict_table ?mr1 = (evict_table mr)\<lparr>bt_rows := ?rows1\<rparr>" by (rule with_step_table [OF Cons.prems(1)])
  have len: "mr_num_reqs mr \<le> length ?rows" using Cons.prems(1) by (simp add: runner_ok_def Let_def)
  have ok1: "runner_ok ?mr1"
  proof (rule runner_ok_step [OF Cons.prems(1)])
    show "\<forall>k < mr_num_reqs mr. \<exists>js. ?rows1 ! k = nulled js (?rows ! k)"
    proof (intro allI impI)
      fix k assume "k < mr_num_reqs mr"
      thus "\<exists>js. ?rows1 ! k = nulled js (?rows ! k)" using len
        by (cases "k = ri") (auto intro: exI [of _ js0] exI [of _ "[]"])
    qed
  qed simp
  obtain js c e where two: "foldE (evict_row one_va env cfg) ris (tot + length js0, ?mr1) = Inr (tot + length js0 + (\<Sum>ri\<leftarrow>ris. length (js ri)),
      with_step (map (\<lambda>ri. nulled (js ri) (?rows1 ! ri)) [0..<length ?rows1]) c
        (mr_pending_free ?mr1 @ concat (map (\<lambda>ri. row_entries ?mr1 ri (js ri)) ris)) e ?mr1)"
    "\<forall>ri. ri \<notin> set ris \<longrightarrow> js ri = []" "\<forall>ri \<in> set ris. row_evicted env cfg ?mr1 ri (js ri)"
    using Cons.IH [OF ok1, of "tot + length js0"] Cons.prems(2,3) unfolding t1 by auto
  define js' where "js' = js(ri := js0)"
  have nin: "ri \<notin> set ris" using Cons.prems(2) by simp
  have oth: "?rows1 ! k = ?rows ! k" if "k \<in> set ris" for k using that nin by (metis nth_list_update_neq)
  have rows: "map (\<lambda>k. nulled (js k) (?rows1 ! k)) [0..<length ?rows1] = map (\<lambda>k. nulled (js' k) (?rows ! k)) [0..<length ?rows]"
    using two(2) nin by (auto simp: js'_def nth_list_update)
  have ents: "map (\<lambda>k. row_entries ?mr1 k (js k)) ris = map (\<lambda>k. row_entries mr k (js' k)) ris"
    using row_evicted_step(2) [OF Cons.prems(1) oth] nin by (auto simp: js'_def)
  have sum: "(\<Sum>k\<leftarrow>ris. length (js k)) = (\<Sum>k\<leftarrow>ris. length (js' k))"
    using nin by (auto simp: js'_def intro!: arg_cong [of _ _ sum_list])
  have "foldE (evict_row one_va env cfg) (ri # ris) (tot, mr) = Inr (tot + (\<Sum>k\<leftarrow>ri # ris. length (js' k)),
      with_step (map (\<lambda>k. nulled (js' k) (?rows ! k)) [0..<length ?rows]) c
        (mr_pending_free mr @ concat (map (\<lambda>k. row_entries mr k (js' k)) (ri # ris))) e mr)"
    using one(1) two(1) unfolding rows ents sum with_step_twice [OF Cons.prems(1)] by (simp add: js'_def)
  moreover have "row_evicted env cfg mr k (js' k)" if "k \<in> set (ri # ris)" for k
    using that one(2) two(3) row_evicted_step(1) [OF Cons.prems(1) oth] nin by (cases "k = ri") (auto simp: js'_def)
  moreover have "js' k = []" if "k \<notin> set (ri # ris)" for k using that two(2) by (simp add: js'_def)
  ultimately show ?case by (intro exI [of _ js'] exI [of _ c] exI [of _ e]) blast
qed

section \<open>The hook\<close>

lemma real_blocks_eq:
  assumes "nat (num_blocks_per_row bt ! ri) \<le> length (bt_rows bt ! ri)"
  shows "real_blocks bt ri = length (real_positions (nat (num_blocks_per_row bt ! ri)) (bt_rows bt ! ri))"
proof -
  let ?row = "bt_rows bt ! ri" and ?n = "nat (num_blocks_per_row bt ! ri)"
  have "length (filter (\<lambda>c. int c < num_blocks_per_row bt ! ri \<and> ?row ! c \<noteq> NULL_BLOCK_ID) [0..<length ?row]) =
      length (filter (\<lambda>b. b \<noteq> NULL_BLOCK_ID) (take ?n ?row))"
    using arg_cong [OF filter_nth_upt [of ?row "num_blocks_per_row bt ! ri" "\<lambda>b. b \<noteq> NULL_BLOCK_ID"], of length]
    unfolding length_map .
  moreover have t: "take ?n ?row = map (\<lambda>j. ?row ! j) [0..<?n]" using assms by (intro nth_equalityI) simp_all
  have "length (filter (\<lambda>b. b \<noteq> NULL_BLOCK_ID) (take ?n ?row)) = length (real_positions ?n ?row)"
    unfolding t real_positions_def filter_map length_map comp_def by (rule refl)
  ultimately show ?thesis unfolding real_blocks_def by (rule trans)
qed

lemma set_map_filter: "set (List.map_filter f xs) = {y. \<exists>x \<in> set xs. f x = Some y}"
  by (induction xs) (auto simp: map_filter_simps split: option.splits)

lemma caches_zeroed:
  assumes "runner_ok mr" "kc \<in> set (skive_full_caches (ensure_null_zeroed mr))"
  shows "\<exists>kc0 \<in> set (skive_full_caches mr). length kc0 = length kc"
proof (cases "mr_null_zeroed mr")
  case False
  let ?mr = "ensure_null_zeroed mr"
  have g: "skive_full_group ?mr = skive_full_group mr" by (rule full_group_cong) (simp_all add: ensure_null_zeroed_def)
  have l: "skive_layers ?mr = skive_layers mr" using g by (simp add: skive_layers_def) (simp add: ensure_null_zeroed_def)
  obtain i layer where i: "i < length (skive_layers mr)" "layer = skive_layers mr ! i" "Option.bind (layer_kv layer ?mr i) attn_blocks = Some kc"
    using assms(2) unfolding skive_full_caches_def l by (force simp: set_map_filter set_zip)
  have "layer \<in> set (mr_layers mr)" using i(1,2) nth_mem [of i "skive_layers mr"] by (auto simp: skive_layers_def split: prod.splits)
  hence kv: "layer_kv layer ?mr i = map_option zero_null_block (layer_kv layer mr i)"
    using assms(1) g False by (auto simp: layer_kv_def ensure_null_zeroed_def runner_ok_def Let_def split: option.split)
  then obtain t where t: "layer_kv layer mr i = Some t" "attn_blocks (zero_null_block t) = Some kc" using i(3) by (cases "layer_kv layer mr i") auto
  then obtain kc0 where "attn_blocks t = Some kc0" "length kc0 = length kc" by (cases t) (auto simp: zero_null_block_def)
  moreover have "kc0 \<in> set (skive_full_caches mr)" if "attn_blocks t = Some kc0" for kc0
    using that t(1) i(1,2) unfolding skive_full_caches_def by (auto simp: set_map_filter set_zip intro!: exI [of _ i])
  ultimately show ?thesis by blast
qed (use assms in \<open>auto simp: ensure_null_zeroed_def\<close>)

lemma zeroed_ok:
  assumes "runner_ok mr"
  shows "runner_ok (ensure_null_zeroed mr)" "skive_full_group (ensure_null_zeroed mr) = skive_full_group mr"
    "mr_tables (ensure_null_zeroed mr) = mr_tables mr"
proof -
  have f: "mr_num_reqs (ensure_null_zeroed mr) = mr_num_reqs mr" "mr_req_ids (ensure_null_zeroed mr) = mr_req_ids mr"
    "mr_layers (ensure_null_zeroed mr) = mr_layers mr" "length (mr_kv_caches (ensure_null_zeroed mr)) = length (mr_kv_caches mr)"
    by (simp_all add: ensure_null_zeroed_def)
  show t: "mr_tables (ensure_null_zeroed mr) = mr_tables mr" by (simp add: ensure_null_zeroed_def)
  show g: "skive_full_group (ensure_null_zeroed mr) = skive_full_group mr" by (rule full_group_cong) (simp_all add: ensure_null_zeroed_def)
  have "ids_ok (skive_full_caches (ensure_null_zeroed mr)) ids" if "ids_ok (skive_full_caches mr) ids" for ids
    using that caches_zeroed [OF assms] by (fastforce simp: ids_ok_def)
  thus "runner_ok (ensure_null_zeroed mr)" using assms unfolding runner_ok_def Let_def g t f by blast
qed

lemma batch_prescore_law:
  assumes "runner_ok mr" "\<forall>ri \<in> set ris. ri < mr_num_reqs mr"
  shows "\<exists>c. batch_prescore mr (evict_table mr) ris = Inr (mr\<lparr>mr_score_cache := c\<rparr>)"
proof -
  let ?bt = "evict_table mr"
  define rows where "rows = List.map_filter (\<lambda>ri. map_option (\<lambda>rid. (rid, ri)) (mr_req_ids mr ! ri)) ris"
  define cache where "cache = fold (\<lambda>(rid, ri) c. if map_of c rid = None then AList.update rid [] c else c) rows (mr_score_cache mr)"
  define misses where "misses = concat (map (\<lambda>(rid, ri). row_misses cache rid (bt_rows ?bt ! ri) (num_blocks_per_row ?bt ! ri)) rows)"
  have "ids_ok (skive_full_caches mr) [b]" if m: "(rid, j, b) \<in> set misses" for rid j b
  proof -
    obtain ri where "ri \<in> set ris" "(rid, j, b) \<in> set (row_misses cache rid (bt_rows ?bt ! ri) (num_blocks_per_row ?bt ! ri))"
      using m by (auto simp: misses_def rows_def set_map_filter row_misses_def)
    thus ?thesis using assms by (auto simp: row_misses_def runner_ok_def Let_def)
  qed
  hence "ids_ok (skive_full_caches mr) (map (\<lambda>(rid, j, bid). bid) misses)" by (fastforce simp: ids_ok_def)
  hence "\<exists>s. (if misses = [] then Inr [] else score_request_blocks (skive_full_caches mr) (map (\<lambda>(rid, j, bid). bid) misses)) = Inr s"
    by (auto simp: score_request_blocks_eq)
  thus ?thesis unfolding batch_prescore_def Let_def rows_def [symmetric] cache_def [symmetric] misses_def [symmetric] by auto
qed

text \<open>The hook evicts in this step: the period is over or some row exceeds its budget by the margin.\<close>

definition evict_due :: "skive_env \<Rightarrow> eviction_config \<Rightarrow> model_runner \<Rightarrow> bool" where
  "evict_due env cfg mr \<longleftrightarrow> (mr_step mr + 1) mod skive_evict_every env = 0 \<or>
     (\<exists>ri < mr_num_reqs mr. kv_budget cfg + skive_evict_margin env \<le> int (real_blocks (evict_table mr) ri) \<and>
        kv_budget cfg < int (real_blocks (evict_table mr) ri))"

lemma rows_to_evict_law:
  assumes "skive_evict_every env \<noteq> 0"
  shows "\<exists>ris. rows_to_evict env cfg bt n step = Inr ris \<and> (ris = filter (\<lambda>ri. kv_budget cfg < int (real_blocks bt ri)) [0..<n] \<or>
    ris = [] \<and> step mod skive_evict_every env \<noteq> 0 \<and>
      (\<forall>ri < n. kv_budget cfg < int (real_blocks bt ri) \<longrightarrow> int (real_blocks bt ri) < kv_budget cfg + skive_evict_margin env))"
proof -
  let ?over = "filter (\<lambda>ri. kv_budget cfg < int (real_blocks bt ri)) [0..<n]"
  let ?ex = "set (map (\<lambda>ri. int (real_blocks bt ri) - kv_budget cfg) ?over)"
  have small: "int (real_blocks bt ri) < kv_budget cfg + skive_evict_margin env"
    if "Max ?ex < skive_evict_margin env" "ri < n" "kv_budget cfg < int (real_blocks bt ri)" for ri
  proof -
    have "int (real_blocks bt ri) - kv_budget cfg \<in> ?ex" using that(2,3) by simp
    hence "int (real_blocks bt ri) - kv_budget cfg \<le> Max ?ex" by (intro Max_ge) simp_all
    thus ?thesis using that(1) by linarith
  qed
  show ?thesis
  proof (cases "?over = []")
    case True
    thus ?thesis by (auto simp: rows_to_evict_def Let_def)
  next
    case False
    hence "rows_to_evict env cfg bt n step =
        Inr (if step mod skive_evict_every env \<noteq> 0 \<and> Max ?ex < skive_evict_margin env then [] else ?over)"
      unfolding rows_to_evict_def Let_def if_not_P [OF False] using assms by simp
    thus ?thesis using small by (cases "step mod skive_evict_every env \<noteq> 0 \<and> Max ?ex < skive_evict_margin env") auto
  qed
qed

text \<open>Input fields that the hook itself writes do not matter for the choice.\<close>

lemma prepared_ok:
  assumes "runner_ok mr"
  shows "runner_ok (mr\<lparr>mr_step := st, mr_va_batch := vb\<rparr>)" "runner_ok (mr\<lparr>mr_va_batch := vb\<rparr>)" "runner_ok (mr\<lparr>mr_score_cache := c\<rparr>)"
proof -
  let ?a = "mr\<lparr>mr_step := st, mr_va_batch := vb\<rparr>" and ?b = "mr\<lparr>mr_va_batch := vb\<rparr>" and ?c = "mr\<lparr>mr_score_cache := c\<rparr>"
  have g: "skive_full_group ?a = skive_full_group mr" "skive_full_group ?b = skive_full_group mr" "skive_full_group ?c = skive_full_group mr"
    by (rule full_group_cong; simp)+
  have f: "skive_full_caches ?a = skive_full_caches mr" "skive_full_caches ?b = skive_full_caches mr" "skive_full_caches ?c = skive_full_caches mr"
    by (rule full_caches_cong; simp)+
  show "runner_ok ?a" "runner_ok ?b" "runner_ok ?c" using assms unfolding runner_ok_def Let_def g f by simp_all
qed

lemma concat_filter_Nil: "(\<And>x. x \<in> set xs \<Longrightarrow> \<not> P x \<Longrightarrow> f x = []) \<Longrightarrow> concat (map f (filter P xs)) = concat (map f xs)"
  by (induction xs) auto

lemma row_evicted_cong:
  assumes "mr_tables mr' = mr_tables mr" "skive_full_group mr' = skive_full_group mr" "mr_req_ids mr' = mr_req_ids mr"
    "mr_num_prompt_tokens mr' = mr_num_prompt_tokens mr"
  shows "row_evicted env cfg mr' ri js = row_evicted env cfg mr ri js" "row_entries mr' ri js = row_entries mr ri js"
  unfolding row_evicted_def row_entries_def sink_blocks_def assms by simp_all

lemma row_within_budget:
  assumes "runner_ok mr" "ri < mr_num_reqs mr" "int (real_blocks (evict_table mr) ri) \<le> kv_budget cfg" 
  shows "row_evicted env cfg mr ri []"
proof -
  have "real_blocks (evict_table mr) ri =
      length (real_positions (nat (num_blocks_per_row (evict_table mr) ! ri)) (bt_rows (evict_table mr) ! ri))"
    using assms(1,2) by (intro real_blocks_eq) (simp add: runner_ok_def Let_def)
  thus ?thesis using assms(3) by (simp add: row_evicted_def Let_def evict_amount_def)
qed

lemma post_step_run:
  assumes "runner_ok mr" "scorer_ok one_va" "config_valid cfg" "set ris \<subseteq> {0..<mr_num_reqs mr}" "distinct ris" "ec_metric cfg = mt"
  shows "\<exists>mr3 js c e. (if ris = [] then Inr mr else if mt \<in> set QDEP_METRICS then Inr (mr\<lparr>mr_va_batch := batch_va mr ris\<rparr>)
       else batch_prescore mr (evict_table mr) ris) = Inr mr3 \<and>
    foldE (evict_row one_va env cfg) ris (0, mr3) = Inr (\<Sum>ri\<leftarrow>ris. length (js ri),
      with_step (map (\<lambda>ri. nulled (js ri) (bt_rows (evict_table mr) ! ri)) [0..<length (bt_rows (evict_table mr))]) c
        (mr_pending_free mr @ concat (map (\<lambda>ri. row_entries mr ri (js ri)) ris)) e mr3) \<and>
    mr_tables mr3 = mr_tables mr \<and> skive_full_group mr3 = skive_full_group mr \<and> mr_num_reqs mr3 = mr_num_reqs mr \<and>
    mr_req_ids mr3 = mr_req_ids mr \<and> mr_evicted_total mr3 = mr_evicted_total mr \<and>
    mr_layers mr3 = mr_layers mr \<and> mr_kv_caches mr3 = mr_kv_caches mr \<and>
    mr_config_groups mr3 = mr_config_groups mr \<and> mr_attn_groups mr3 = mr_attn_groups mr \<and>
    (\<forall>ri. ri \<notin> set ris \<longrightarrow> js ri = []) \<and> (\<forall>ri \<in> set ris. row_evicted env cfg mr ri (js ri))"
proof -
  have lt: "\<forall>ri \<in> set ris. ri < mr_num_reqs mr" using assms(4) by auto
  obtain c0 where pre: "batch_prescore mr (evict_table mr) ris = Inr (mr\<lparr>mr_score_cache := c0\<rparr>)"
    using batch_prescore_law [OF assms(1) lt] by blast
  obtain mr3 where m: "(if ris = [] then Inr mr else if mt \<in> set QDEP_METRICS then Inr (mr\<lparr>mr_va_batch := batch_va mr ris\<rparr>)
      else batch_prescore mr (evict_table mr) ris) = Inr mr3"
    "mr3 = mr \<or> mr3 = mr\<lparr>mr_va_batch := batch_va mr ris\<rparr> \<or> (\<exists>c. mr3 = mr\<lparr>mr_score_cache := c\<rparr>)"
    unfolding pre by (cases "ris = []"; cases "mt \<in> set QDEP_METRICS") auto
  have ok: "runner_ok mr3" using m(2) assms(1) prepared_ok(2,3) [OF assms(1)] by blast
  have f: "mr_tables mr3 = mr_tables mr" "mr_req_ids mr3 = mr_req_ids mr" "mr_num_prompt_tokens mr3 = mr_num_prompt_tokens mr"
    "mr_num_reqs mr3 = mr_num_reqs mr" "mr_pending_free mr3 = mr_pending_free mr" "mr_evicted_total mr3 = mr_evicted_total mr"
    "mr_config_groups mr3 = mr_config_groups mr" "mr_attn_groups mr3 = mr_attn_groups mr"
    "mr_layers mr3 = mr_layers mr" "mr_kv_caches mr3 = mr_kv_caches mr"
    using m(2) by auto
  have g: "skive_full_group mr3 = skive_full_group mr" using f(1,7,8) by (intro full_group_cong) simp_all
  note cg = row_evicted_cong [OF f(1) g f(2,3)]
  obtain js c e where "foldE (evict_row one_va env cfg) ris (0, mr3) = Inr (0 + (\<Sum>ri\<leftarrow>ris. length (js ri)),
      with_step (map (\<lambda>ri. nulled (js ri) (bt_rows (evict_table mr3) ! ri)) [0..<length (bt_rows (evict_table mr3))]) c
        (mr_pending_free mr3 @ concat (map (\<lambda>ri. row_entries mr3 ri (js ri)) ris)) e mr3)"
    "\<forall>ri. ri \<notin> set ris \<longrightarrow> js ri = []" "\<forall>ri \<in> set ris. row_evicted env cfg mr3 ri (js ri)"
    using evict_loop [OF ok assms(2,3,5), of env 0] assms(4) f(4) by fastforce
  hence "foldE (evict_row one_va env cfg) ris (0, mr3) = Inr (\<Sum>ri\<leftarrow>ris. length (js ri),
      with_step (map (\<lambda>ri. nulled (js ri) (bt_rows (evict_table mr) ! ri)) [0..<length (bt_rows (evict_table mr))]) c
        (mr_pending_free mr @ concat (map (\<lambda>ri. row_entries mr ri (js ri)) ris)) e mr3) \<and>
    (\<forall>ri. ri \<notin> set ris \<longrightarrow> js ri = []) \<and> (\<forall>ri \<in> set ris. row_evicted env cfg mr ri (js ri))"
    unfolding cg f(1,5) g by simp
  thus ?thesis using m(1) f g by (intro exI [of _ mr3] exI [of _ js] exI [of _ c] exI [of _ e]) simp
qed

lemma post_step_law:
  assumes "build_eviction_config env (mr_settings mr) = Some cfg" "runner_ok mr" "scorer_ok one_va" "skive_evict_every env \<noteq> 0"
  defines "rows \<equiv> bt_rows (evict_table mr)"
  shows "\<exists>mr' js. skive_post_step batch_va one_va env mr = Inr mr' \<and>
    mr_tables mr' = (mr_tables mr)[fst (skive_full_group mr) := (evict_table mr)\<lparr>bt_rows := map (\<lambda>ri. nulled (js ri) (rows ! ri)) [0..<length rows]\<rparr>] \<and>
    skive_full_group mr' = skive_full_group mr \<and> mr_num_reqs mr' = mr_num_reqs mr \<and> mr_req_ids mr' = mr_req_ids mr \<and>
    skive_full_caches mr' = skive_full_caches (ensure_null_zeroed mr) \<and> mr_layers mr' = mr_layers mr \<and>
    length (mr_kv_caches mr') = length (mr_kv_caches mr) \<and>
    mr_pending_free mr' = mr_pending_free mr @ concat (map (\<lambda>ri. row_entries mr ri (js ri)) [0..<mr_num_reqs mr]) \<and>
    mr_evicted_total mr' = mr_evicted_total mr + int (\<Sum>ri\<leftarrow>[0..<mr_num_reqs mr]. length (js ri)) \<and>
    (\<forall>ri. mr_num_reqs mr \<le> ri \<longrightarrow> js ri = []) \<and> (\<forall>ri < mr_num_reqs mr. js ri = [] \<or> row_evicted env cfg mr ri (js ri)) \<and>
    (evict_due env cfg mr \<longrightarrow> (\<forall>ri < mr_num_reqs mr. row_evicted env cfg mr ri (js ri)))"
proof -
  have v: "config_valid cfg"
    using assms(1) new_config_valid by (auto simp: build_eviction_config_def split: if_splits option.splits sum.splits)
  define mr2 where "mr2 = (ensure_null_zeroed mr)\<lparr>mr_step := mr_step (ensure_null_zeroed mr) + 1, mr_va_batch := None\<rparr>"
  note z = zeroed_ok [OF assms(2)]
  have ok2: "runner_ok mr2" unfolding mr2_def by (rule prepared_ok(1) [OF z(1)])
  have f: "mr_tables mr2 = mr_tables mr" "mr_req_ids mr2 = mr_req_ids mr" "mr_num_prompt_tokens mr2 = mr_num_prompt_tokens mr"
    "mr_num_reqs mr2 = mr_num_reqs mr" "mr_pending_free mr2 = mr_pending_free mr" "mr_evicted_total mr2 = mr_evicted_total mr"
    "mr_step mr2 = mr_step mr + 1" by (simp_all add: mr2_def ensure_null_zeroed_def)
  have g: "skive_full_group mr2 = skive_full_group mr" unfolding mr2_def z(2) [symmetric] by (rule full_group_cong) simp_all
  note cg = row_evicted_cong [OF f(1) g f(2,3)]
  have bt: "skive_block_table (ensure_null_zeroed mr) = Inr (Some (evict_table mr))" using runner_table [OF z(1)] z(2,3) by simp
  let ?over = "filter (\<lambda>ri. kv_budget cfg < int (real_blocks (evict_table mr) ri)) [0..<mr_num_reqs mr]"
  obtain ris where ris: "rows_to_evict env cfg (evict_table mr) (mr_num_reqs mr2) (mr_step mr2) = Inr ris"
    "ris = ?over \<or> ris = [] \<and> \<not> evict_due env cfg mr"
    using rows_to_evict_law [OF assms(4), of cfg "evict_table mr" "mr_num_reqs mr" "mr_step mr + 1"] f(4,7)
    by (fastforce simp: evict_due_def)
  have rd: "distinct ris" "set ris \<subseteq> {0..<mr_num_reqs mr2}" using ris(2) f(4) by auto
  obtain mr3 js c e where r: "(if ris = [] then Inr mr2 else if ec_metric cfg \<in> set QDEP_METRICS then Inr (mr2\<lparr>mr_va_batch := batch_va mr2 ris\<rparr>)
       else batch_prescore mr2 (evict_table mr2) ris) = Inr mr3"
    "foldE (evict_row one_va env cfg) ris (0, mr3) = Inr (\<Sum>ri\<leftarrow>ris. length (js ri),
      with_step (map (\<lambda>ri. nulled (js ri) (bt_rows (evict_table mr2) ! ri)) [0..<length (bt_rows (evict_table mr2))]) c
        (mr_pending_free mr2 @ concat (map (\<lambda>ri. row_entries mr2 ri (js ri)) ris)) e mr3)"
    "mr_tables mr3 = mr_tables mr2" "skive_full_group mr3 = skive_full_group mr2" "mr_num_reqs mr3 = mr_num_reqs mr2"
    "mr_req_ids mr3 = mr_req_ids mr2" "mr_evicted_total mr3 = mr_evicted_total mr2"
    "mr_layers mr3 = mr_layers mr2" "mr_kv_caches mr3 = mr_kv_caches mr2"
    "mr_config_groups mr3 = mr_config_groups mr2" "mr_attn_groups mr3 = mr_attn_groups mr2"
    "\<forall>ri. ri \<notin> set ris \<longrightarrow> js ri = []" "\<forall>ri \<in> set ris. row_evicted env cfg mr2 ri (js ri)"
    using post_step_run [OF ok2 assms(3) v rd(2,1) refl, of batch_va env] by blast
  have et: "evict_table mr2 = evict_table mr" using f(1) g by simp
  define mr4 where "mr4 = with_step (map (\<lambda>ri. nulled (js ri) (rows ! ri)) [0..<length rows]) c
        (mr_pending_free mr @ concat (map (\<lambda>ri. row_entries mr ri (js ri)) ris)) e mr3"
  have loop: "foldE (evict_row one_va env cfg) ris (0, mr3) = Inr (\<Sum>ri\<leftarrow>ris. length (js ri), mr4)"
    using r(2) unfolding et cg f(5) mr4_def rows_def .
  define mr5 where "mr5 = mr4\<lparr>mr_score_cache := drop_dead_scores (mr_req_ids mr4) (mr_score_cache mr4)\<rparr>"
  define mr' where "mr' = (if (\<Sum>ri\<leftarrow>ris. length (js ri)) \<noteq> 0 then mr5\<lparr>mr_evicted_total := mr_evicted_total mr5 + int (\<Sum>ri\<leftarrow>ris. length (js ri))\<rparr> else mr5)"
  have run: "skive_post_step batch_va one_va env mr = Inr mr'"
    unfolding skive_post_step_def assms(1) option.case Let_def bt bindE_Inr mr2_def [symmetric] ris(1)
    using r(1) loop unfolding et by (simp add: mr'_def mr5_def Let_def)
  have tot: "(\<Sum>ri\<leftarrow>ris. length (js ri)) = (\<Sum>ri\<leftarrow>[0..<mr_num_reqs mr]. length (js ri))"
    "concat (map (\<lambda>ri. row_entries mr ri (js ri)) ris) = concat (map (\<lambda>ri. row_entries mr ri (js ri)) [0..<mr_num_reqs mr])"
  proof -
    have off: "js ri = []" if "ris = []" for ri using r(12) that by simp
    have "(\<Sum>ri\<leftarrow>?over. length (js ri)) = (\<Sum>ri\<leftarrow>[0..<mr_num_reqs mr]. length (js ri))" if "ris = ?over"
      using r(12) that by (intro sum_list_map_filter) auto
    thus "(\<Sum>ri\<leftarrow>ris. length (js ri)) = (\<Sum>ri\<leftarrow>[0..<mr_num_reqs mr]. length (js ri))" using ris(2) off by auto
    have "concat (map (\<lambda>ri. row_entries mr ri (js ri)) ?over) = concat (map (\<lambda>ri. row_entries mr ri (js ri)) [0..<mr_num_reqs mr])" if "ris = ?over"
      using r(12) that by (intro concat_filter_Nil) (auto simp: row_entries_def split: option.split)
    thus "concat (map (\<lambda>ri. row_entries mr ri (js ri)) ris) = concat (map (\<lambda>ri. row_entries mr ri (js ri)) [0..<mr_num_reqs mr])"
      using ris(2) off by (auto simp: row_entries_def split: option.split)
  qed
  have ev: "row_evicted env cfg mr ri (js ri)" if "ri < mr_num_reqs mr" "evict_due env cfg mr" for ri
  proof (cases "ri \<in> set ris")
    case True
    thus ?thesis using r(13) cg(1) by blast
  next
    case False
    hence "int (real_blocks (evict_table mr) ri) \<le> kv_budget cfg" using ris(2) that by auto
    thus ?thesis using row_within_budget [OF assms(2) that(1)] r(12) False by simp
  qed
  have "mr_tables mr' = mr_tables mr4" "mr_num_reqs mr' = mr_num_reqs mr4" "mr_req_ids mr' = mr_req_ids mr4"
    "mr_pending_free mr' = mr_pending_free mr4" "mr_evicted_total mr' = mr_evicted_total mr4 + int (\<Sum>ri\<leftarrow>ris. length (js ri))"
    "mr_config_groups mr' = mr_config_groups mr4" "mr_attn_groups mr' = mr_attn_groups mr4"
    by (simp_all add: mr'_def mr5_def)
  moreover have "skive_full_group mr' = skive_full_group mr4" using calculation by (intro full_group_cong) simp_all
  moreover have lk: "mr_layers mr' = mr_layers (ensure_null_zeroed mr)" "mr_kv_caches mr' = mr_kv_caches (ensure_null_zeroed mr)"
    using r(8,9) by (simp_all add: mr'_def mr5_def mr4_def mr2_def with_step_def)
  moreover have "mr_tables mr4 = (mr_tables mr)[fst (skive_full_group mr) := (evict_table mr)\<lparr>bt_rows := map (\<lambda>ri. nulled (js ri) (rows ! ri)) [0..<length rows]\<rparr>]"
    "mr_evicted_total mr4 = mr_evicted_total mr"
    unfolding mr4_def with_step_def r(3,4) f(1) g using r(7) f(6) by simp_all
  moreover have "skive_full_group mr4 = skive_full_group mr" "mr_num_reqs mr4 = mr_num_reqs mr" "mr_req_ids mr4 = mr_req_ids mr"
    "mr_pending_free mr4 = mr_pending_free mr @ concat (map (\<lambda>ri. row_entries mr ri (js ri)) ris)"
    using r(4-6) f g by (simp_all add: mr4_def)
  moreover have "js ri = []" if "mr_num_reqs mr \<le> ri" for ri using r(12) rd(2) f(4) that by auto
  moreover have "js ri = [] \<or> row_evicted env cfg mr ri (js ri)" for ri using r(12,13) cg(1) by blast
  moreover have "skive_full_caches mr' = skive_full_caches (ensure_null_zeroed mr)"
  proof -
    have "mr_config_groups mr' = mr_config_groups (ensure_null_zeroed mr)" "mr_attn_groups mr' = mr_attn_groups (ensure_null_zeroed mr)"
      using r(10,11) by (simp_all add: mr'_def mr5_def mr4_def mr2_def with_step_def)
    moreover have "length (mr_tables mr') = length (mr_tables (ensure_null_zeroed mr))"
      using r(3) by (simp add: mr'_def mr5_def mr4_def mr2_def)
    ultimately show ?thesis using lk by (intro full_caches_cong)
  qed
  moreover have "mr_layers (ensure_null_zeroed mr) = mr_layers mr" "length (mr_kv_caches (ensure_null_zeroed mr)) = length (mr_kv_caches mr)"
    by (simp_all add: ensure_null_zeroed_def)
  ultimately show ?thesis using run ev unfolding tot by (intro exI [of _ mr'] exI [of _ js]) simp
qed

lemma evicted_within_budget:
  assumes "runner_ok mr" "ri < mr_num_reqs mr" "row_evicted env cfg mr ri js" "mr_req_ids mr ! ri \<noteq> None" "config_valid cfg"
    "\<not> skive_protect_prompt env"
  shows "int (length (real_positions (nat (num_blocks_per_row (evict_table mr) ! ri)) (nulled js (bt_rows (evict_table mr) ! ri)))) \<le> kv_budget cfg"
proof -
  let ?n = "nat (num_blocks_per_row (evict_table mr) ! ri)" and ?row = "bt_rows (evict_table mr) ! ri"
  have n: "?n \<le> length ?row" using assms(1,2) by (simp add: runner_ok_def Let_def)
  have e: "distinct js" "set js \<subseteq> set (real_positions ?n ?row)"
    "int (length js) = evict_amount (num_sink_blocks cfg) (num_local_blocks cfg) (kv_budget cfg) (int (length (real_positions ?n ?row)))"
    using assms(3,4,6) by (simp_all add: row_evicted_def Let_def evict_choice_def sink_blocks_def)
  have "length js \<le> length (real_positions ?n ?row)" using e(1,2) card_mono [OF _ e(2)] distinct_card [of js]
      distinct_card [of "real_positions ?n ?row"] by (simp add: real_positions_def)
  thus ?thesis using real_positions_nulled(2) [OF n e(2,1)] e(3) assms(5) by (auto simp: evict_amount_def config_valid_def)
qed

text \<open>
  C9: The eviction hook keeps the budget and the protected blocks. On a well-formed runner it raises nothing
  and changes a row only by nulling distinct real entries, none of them among the first sink blocks or the
  last local blocks. The pending list grows by exactly the nulled entries, in row order, and the total by
  their number. In a step in which eviction is due, and with the prompt not specially protected, every live
  row ends within the budget.
\<close>

theorem post_step_keeps_budget:
  assumes "build_eviction_config env (mr_settings mr) = Some cfg" "runner_ok mr" "scorer_ok one_va" "skive_evict_every env \<noteq> 0"
  shows "\<exists>mr' js. skive_post_step batch_va one_va env mr = Inr mr' \<and>
    (\<forall>ri < mr_num_reqs mr. bt_rows (evict_table mr') ! ri = nulled (js ri) (bt_rows (evict_table mr) ! ri) \<and>
       evict_choice (sink_blocks env cfg (evict_table mr) mr ri) (num_local_blocks cfg)
         (nat (num_blocks_per_row (evict_table mr) ! ri)) (bt_rows (evict_table mr) ! ri) (js ri)) \<and>
    mr_pending_free mr' = mr_pending_free mr @ concat (map (\<lambda>ri. row_entries mr ri (js ri)) [0..<mr_num_reqs mr]) \<and>
    mr_evicted_total mr' = mr_evicted_total mr + int (\<Sum>ri\<leftarrow>[0..<mr_num_reqs mr]. length (js ri)) \<and>
    (evict_due env cfg mr \<and> \<not> skive_protect_prompt env \<longrightarrow>
       (\<forall>ri < mr_num_reqs mr. mr_req_ids mr ! ri \<noteq> None \<longrightarrow>
          int (real_blocks (evict_table mr') ri) \<le> kv_budget cfg))"
proof -
  have v: "config_valid cfg"
    using assms(1) new_config_valid by (auto simp: build_eviction_config_def split: if_splits option.splits sum.splits)
  let ?rows = "bt_rows (evict_table mr)" and ?gid = "fst (skive_full_group mr)"
  obtain mr' js where p: "skive_post_step batch_va one_va env mr = Inr mr'"
    "mr_tables mr' = (mr_tables mr)[?gid := (evict_table mr)\<lparr>bt_rows := map (\<lambda>ri. nulled (js ri) (?rows ! ri)) [0..<length ?rows]\<rparr>]"
    "skive_full_group mr' = skive_full_group mr"
    "mr_pending_free mr' = mr_pending_free mr @ concat (map (\<lambda>ri. row_entries mr ri (js ri)) [0..<mr_num_reqs mr])"
    "mr_evicted_total mr' = mr_evicted_total mr + int (\<Sum>ri\<leftarrow>[0..<mr_num_reqs mr]. length (js ri))"
    "\<forall>ri < mr_num_reqs mr. js ri = [] \<or> row_evicted env cfg mr ri (js ri)"
    "evict_due env cfg mr \<longrightarrow> (\<forall>ri < mr_num_reqs mr. row_evicted env cfg mr ri (js ri))"
    using post_step_law [OF assms(1-4), of batch_va] by blast
  have g: "?gid < length (mr_tables mr)" "mr_num_reqs mr \<le> length ?rows"
    "\<And>ri. ri < mr_num_reqs mr \<Longrightarrow> nat (num_blocks_per_row (evict_table mr) ! ri) \<le> length (?rows ! ri)"
    using assms(2) by (simp_all add: runner_ok_def Let_def)
  have t: "evict_table mr' = (evict_table mr)\<lparr>bt_rows := map (\<lambda>ri. nulled (js ri) (?rows ! ri)) [0..<length ?rows]\<rparr>"
    using p(2,3) g(1) by simp
  have rb: "real_blocks (evict_table mr') ri = length (real_positions (nat (num_blocks_per_row (evict_table mr) ! ri)) (nulled (js ri) (?rows ! ri)))"
    if "ri < mr_num_reqs mr" for ri
    using real_blocks_eq [of "evict_table mr'" ri] t g(2) g(3) [OF that] that by simp
  have bud: "int (real_blocks (evict_table mr') ri) \<le> kv_budget cfg"
    if "evict_due env cfg mr" "\<not> skive_protect_prompt env" "ri < mr_num_reqs mr" "mr_req_ids mr ! ri \<noteq> None" for ri
    unfolding rb [OF that(3)] using p(7) that by (intro evicted_within_budget [OF assms(2) _ _ _ v]) blast+
  have row: "bt_rows (evict_table mr') ! ri = nulled (js ri) (?rows ! ri)" if "ri < mr_num_reqs mr" for ri
    using t g(2) that by simp
  have "evict_choice (sink_blocks env cfg (evict_table mr) mr ri) (num_local_blocks cfg)
      (nat (num_blocks_per_row (evict_table mr) ! ri)) (?rows ! ri) (js ri)" if "ri < mr_num_reqs mr" for ri
    using p(6) that by (auto simp: row_evicted_def Let_def)
  thus ?thesis using p(1,4,5) row bud by (intro exI [of _ mr'] exI [of _ js]) blast
qed

definition demo_env :: skive_env where
  "demo_env = \<lparr>skive_metric = None, skive_noscore = True, skive_no_reclaim = False, skive_protect_prompt = False,
     skive_evict_every = 8, skive_evict_margin = 4\<rparr>"

definition demo_cfg :: eviction_config where
  "demo_cfg = \<lparr>ec_block_size = 2, kv_budget = 1, num_sink_blocks = 0, num_local_blocks = 1, ec_metric = ''vk_ratio''\<rparr>"

lemma demo_config: "build_eviction_config demo_env (mr_settings demo_runner) = Some demo_cfg"
  by (simp add: build_eviction_config_def demo_env_def demo_runner_def new_eviction_config_def demo_cfg_def)

lemma demo_group: "skive_full_group demo_runner = (0, None, False)"
  by (simp add: skive_full_group_def skive_kv_groups_def demo_runner_def)

lemma demo_runner_ok: "runner_ok demo_runner"
proof -
  have n: "mr_num_reqs demo_runner = 1" "length (mr_tables demo_runner) = 1" "length (mr_req_ids demo_runner) = 1"
    "mr_layers demo_runner = [demo_layer]" "length (mr_kv_caches demo_runner) = 1"
    and t: "mr_tables demo_runner ! 0 = \<lparr>bt_rows = [[1, 2, 3, 0]], num_blocks_per_row = [3], bt_block_size = 2, use_hybrid_blocks = False\<rparr>"
    by (simp_all add: demo_runner_def)
  have j: "j = 0 \<or> j = 1 \<or> j = 2" if "j < 3" for j :: nat using that by linarith
  show ?thesis unfolding runner_ok_def Let_def demo_group fst_conv snd_conv t n
    by (auto simp: demo_layer_def ids_ok_def demo_runner_caches dest!: j)
qed

theorem post_step_keeps_budget_witness:
  "\<exists>mr'. skive_post_step (\<lambda>_ _. None) (\<lambda>_ _ _. None) demo_env demo_runner = Inr mr' \<and>
     int (real_blocks (evict_table mr') 0) \<le> 1"
proof -
  have "evict_due demo_env demo_cfg demo_runner" by (simp add: evict_due_def demo_env_def demo_runner_def)
  moreover have "mr_num_reqs demo_runner = 1" "mr_req_ids demo_runner ! 0 \<noteq> None" "kv_budget demo_cfg = 1"
    "\<not> skive_protect_prompt demo_env" "skive_evict_every demo_env \<noteq> 0"
    by (simp_all add: demo_runner_def demo_cfg_def demo_env_def)
  moreover have "scorer_ok (\<lambda>_ _ _. None)" by (simp add: scorer_ok_def)
  ultimately show ?thesis
    using post_step_keeps_budget [OF demo_config demo_runner_ok, of "\<lambda>_ _ _. None" "\<lambda>_ _. None"] by auto
qed

lemma runner_ok_cong:
  assumes "skive_full_group mr' = skive_full_group mr" "mr_tables mr' ! fst (skive_full_group mr) = evict_table mr"
    "length (mr_tables mr') = length (mr_tables mr)" "mr_num_reqs mr' = mr_num_reqs mr" "length (mr_req_ids mr') = length (mr_req_ids mr)"
    "mr_layers mr' = mr_layers mr" "length (mr_kv_caches mr') = length (mr_kv_caches mr)" "skive_full_caches mr' = skive_full_caches mr"
  shows "runner_ok mr' = runner_ok mr"
  unfolding runner_ok_def Let_def assms by (rule refl)

text \<open>
  C39: The eviction hook keeps the runner well formed. It leaves the number of tables, the tables of other
  groups, the block counts, the width of every row and the batch as they were, and every real block it leaves
  still has cache entries.
\<close>

theorem post_step_well_formed:
  assumes "build_eviction_config env (mr_settings mr) = Some cfg" "runner_ok mr" "scorer_ok one_va" "skive_evict_every env \<noteq> 0"
  shows "\<exists>mr'. skive_post_step batch_va one_va env mr = Inr mr' \<and> runner_ok mr' \<and>
    length (mr_tables mr') = length (mr_tables mr) \<and> mr_num_reqs mr' = mr_num_reqs mr \<and> mr_req_ids mr' = mr_req_ids mr \<and>
    (\<forall>g. g \<noteq> fst (skive_full_group mr) \<longrightarrow> mr_tables mr' ! g = mr_tables mr ! g) \<and>
    num_blocks_per_row (evict_table mr') = num_blocks_per_row (evict_table mr) \<and>
    map length (bt_rows (evict_table mr')) = map length (bt_rows (evict_table mr))"
proof -
  let ?rows = "bt_rows (evict_table mr)" and ?gid = "fst (skive_full_group mr)" and ?z = "ensure_null_zeroed mr"
  obtain mr' js where p: "skive_post_step batch_va one_va env mr = Inr mr'"
    "mr_tables mr' = (mr_tables mr)[?gid := (evict_table mr)\<lparr>bt_rows := map (\<lambda>ri. nulled (js ri) (?rows ! ri)) [0..<length ?rows]\<rparr>]"
    "skive_full_group mr' = skive_full_group mr" "mr_num_reqs mr' = mr_num_reqs mr" "mr_req_ids mr' = mr_req_ids mr"
    "skive_full_caches mr' = skive_full_caches ?z" "mr_layers mr' = mr_layers mr" "length (mr_kv_caches mr') = length (mr_kv_caches mr)"
    using post_step_law [OF assms(1-4), of batch_va] by blast
  let ?new = "map (\<lambda>ri. nulled (js ri) (?rows ! ri)) [0..<length ?rows]"
  have gid: "?gid < length (mr_tables mr)" "mr_num_reqs mr \<le> length ?rows" using assms(2) by (simp_all add: runner_ok_def Let_def)
  have t: "evict_table mr' = (evict_table mr)\<lparr>bt_rows := ?new\<rparr>" using p(2,3) gid(1) by simp
  note z = zeroed_ok [OF assms(2)]
  have zt: "evict_table ?z = evict_table mr" using z(2,3) by simp
  have zf: "mr_num_reqs ?z = mr_num_reqs mr" "mr_req_ids ?z = mr_req_ids mr" "mr_layers ?z = mr_layers mr"
    "length (mr_kv_caches ?z) = length (mr_kv_caches mr)" by (simp_all add: ensure_null_zeroed_def)
  have w: "runner_ok (with_step ?new [] [] [] ?z)"
    using gid(2) by (intro runner_ok_step [OF z(1)]) (auto simp: zt zf(1))
  have wt: "evict_table (with_step ?new [] [] [] ?z) = (evict_table mr)\<lparr>bt_rows := ?new\<rparr>" using with_step_table [OF z(1)] zt by simp
  have "runner_ok mr' = runner_ok (with_step ?new [] [] [] ?z)"
    using p t wt zf z(2,3) gid(1) by (intro runner_ok_cong) simp_all
  hence "runner_ok mr'" using w by simp
  moreover have "map length ?new = map length ?rows" by (rule nth_equalityI) simp_all
  ultimately show ?thesis using p t by (intro exI [of _ mr']) simp
qed

theorem post_step_well_formed_witness:
  "\<exists>mr'. skive_post_step (\<lambda>_ _. None) (\<lambda>_ _ _. None) demo_env demo_runner = Inr mr' \<and> runner_ok mr' \<and>
     map length (bt_rows (evict_table mr')) = [4]"
proof -
  have "scorer_ok (\<lambda>_ _ _. None)" "skive_evict_every demo_env \<noteq> 0" by (simp_all add: scorer_ok_def demo_env_def)
  moreover have "map length (bt_rows (evict_table demo_runner)) = [4]" unfolding demo_group by (simp add: demo_runner_def)
  ultimately show ?thesis
    using post_step_well_formed [OF demo_config demo_runner_ok, of "\<lambda>_ _ _. None" "\<lambda>_ _. None"] by auto
qed

section \<open>Which group is evicted\<close>

definition full_family :: "kv_cache_spec \<Rightarrow> bool" where
  "full_family spec = (case spec of FullAttentionSpec _ _ \<Rightarrow> True | TQFullAttentionSpec _ _ _ \<Rightarrow> True | MLAAttentionSpec _ _ _ \<Rightarrow> True
     | HiddenStateCacheSpec _ _ _ \<Rightarrow> True | SinkFullAttentionSpec _ _ _ \<Rightarrow> True | _ \<Rightarrow> False)"

lemma hint_names:
  "sublist ''SlidingWindow'' ''SlidingWindowSpec''" "sublist ''SlidingWindow'' ''SlidingWindowMLASpec''" "sublist ''Mamba'' ''MambaSpec''"
  "sublist ''Cross'' ''CrossAttentionSpec''" "sublist ''EncoderOnly'' ''EncoderOnlyAttentionSpec''"
  "sublist ''ChunkedLocal'' ''ChunkedLocalAttentionSpec''" "sublist ''UniformType'' ''UniformTypeKVCacheSpecs''"
  by code_simp+

lemma fallback_names:
  assumes "n \<in> {''SlidingWindowSpec'', ''SlidingWindowMLASpec'', ''MambaSpec'', ''CrossAttentionSpec'', ''EncoderOnlyAttentionSpec'',
    ''ChunkedLocalAttentionSpec'', ''UniformTypeKVCacheSpecs''}"
  shows "\<not> sublist ''FullAttention'' n" "\<not> sublist ''MLAAttention'' n"
proof -
  have "\<not> sublist f m" if "f \<in> {''FullAttention'', ''MLAAttention''}" "m \<in> {''SlidingWindowSpec'', ''SlidingWindowMLASpec'', ''MambaSpec'',
    ''CrossAttentionSpec'', ''EncoderOnlyAttentionSpec'', ''ChunkedLocalAttentionSpec'', ''UniformTypeKVCacheSpecs''}" for f m
    using that by (elim insertE emptyE; simp only:) code_simp+
  thus "\<not> sublist ''FullAttention'' n" "\<not> sublist ''MLAAttention'' n" using assms by simp_all
qed

lemma find_SomeD: "find P xs = Some x \<Longrightarrow> x \<in> set xs \<and> P x"
  by (induction xs) (auto split: if_splits)

lemma is_full_family: "is_full_attention_spec spec \<Longrightarrow> full_family spec"
  by (cases spec) (simp_all add: is_full_attention_spec_def NON_FULL_SPEC_HINTS_def full_family_def hint_names)

lemma fallback_family:
  "sublist ''FullAttention'' (spec_class_name spec) \<or> sublist ''MLAAttention'' (spec_class_name spec) \<Longrightarrow> full_family spec"
  using fallback_names by (cases spec) (simp_all add: full_family_def)

text \<open>
  C40: With several KV-cache groups, the group that is evicted is never a sliding-window, chunked, Mamba,
  cross-attention or encoder group. When some group is full attention without window and chunk, the evicted
  group is one of those.
\<close>

theorem evicted_group_full:
  assumes "skive_kv_groups mr = Some groups" "1 < length groups" "skive_full_group mr = (gid, names, False)"
  shows "\<exists>spec ns. (gid, spec, ns) \<in> set groups \<and> names = Some ns \<and> full_family spec \<and>
    ((\<exists>(g, s, l) \<in> set groups. is_full_attention_spec s) \<longrightarrow> is_full_attention_spec spec)"
proof -
  let ?pure = "find (\<lambda>(_, spec, _). is_full_attention_spec spec) groups"
  let ?named = "find (\<lambda>(_, spec, _). sublist ''FullAttention'' (spec_class_name spec) \<or> sublist ''MLAAttention'' (spec_class_name spec)) groups"
  show ?thesis
  proof (cases ?pure)
    case (Some x)
    then obtain g s l where x: "x = (g, s, l)" "(g, s, l) \<in> set groups" "is_full_attention_spec s"
      using find_SomeD [OF Some] by (cases x) auto
    hence "gid = g" "names = Some l" using assms Some by (simp_all add: skive_full_group_def)
    thus ?thesis using x is_full_family by blast
  next
    case None
    hence no: "\<not> (\<exists>(g, s, l) \<in> set groups. is_full_attention_spec s)" by (auto simp: find_None_iff)
    then obtain x where n: "?named = Some x" using assms None by (auto simp: skive_full_group_def split: option.splits)
    obtain g s l where x: "x = (g, s, l)" "(g, s, l) \<in> set groups"
      "sublist ''FullAttention'' (spec_class_name s) \<or> sublist ''MLAAttention'' (spec_class_name s)"
      using find_SomeD [OF n] by (cases x) auto
    have "gid = g" "names = Some l" using assms None n x(1) by (simp_all add: skive_full_group_def)
    thus ?thesis using x no fallback_family by blast
  qed
qed

definition demo_hybrid :: model_runner where
  "demo_hybrid = demo_runner\<lparr>mr_config_groups := Some [(SlidingWindowSpec \<lparr>spec_block_size = 16, num_kv_heads = 1, head_size = 8,
     spec_dtype = ''bf16'', spec_quant_mode = Quant_None, page_size_padded = None\<rparr> 128 None, [''l0'']),
     (FullAttentionSpec \<lparr>spec_block_size = 16, num_kv_heads = 1, head_size = 8, spec_dtype = ''bf16'', spec_quant_mode = Quant_None,
       page_size_padded = None\<rparr> \<lparr>head_size_v = 8, full_sliding_window = None, full_chunk_size = None\<rparr>, [''l1''])]\<rparr>"

lemma plain_full_names: "\<forall>h \<in> set NON_FULL_SPEC_HINTS. \<not> sublist h ''FullAttentionSpec''"
  by code_simp

theorem evicted_group_full_witness:
  "\<exists>groups names spec ns. skive_kv_groups demo_hybrid = Some groups \<and> skive_full_group demo_hybrid = (1, names, False) \<and>
     (1, spec, ns) \<in> set groups \<and> full_family spec"
proof -
  define a where "a = fst (the (mr_config_groups demo_hybrid) ! 0)"
  define b where "b = fst (the (mr_config_groups demo_hybrid) ! 1)"
  have g: "skive_kv_groups demo_hybrid = Some [(0, a, [''l0'']), (1, b, [''l1''])]"
    by (simp add: skive_kv_groups_def demo_hybrid_def a_def b_def upt_rec)
  have "\<not> is_full_attention_spec a" by (auto simp: a_def demo_hybrid_def is_full_attention_spec_def)
  moreover have "is_full_attention_spec b" using plain_full_names by (simp add: b_def demo_hybrid_def is_full_attention_spec_def)
  ultimately have "skive_full_group demo_hybrid = (1, Some [''l1''], False)" using g by (simp add: skive_full_group_def)
  from evicted_group_full [OF g _ this] show ?thesis using g \<open>skive_full_group demo_hybrid = _\<close> by auto
qed

text \<open>A model whose only group has a sliding window is evicted as if it were full attention.\<close>

lemma single_window_group_evicted:
  "mr_config_groups mr = Some [(SlidingWindowSpec a w d, names)] \<Longrightarrow> skive_full_group mr = (0, None, False)"
  by (simp add: skive_full_group_def skive_kv_groups_def)

end
