(* ===== verification/Manager_Invariant.thy ===== *)
theory Manager_Invariant
  imports Kv_Managers
begin

text \<open>
  The ownership invariant of a manager over the shared pool: the reference count of a block is the number
  of times the rows of this manager hold it plus what other owners hold (the argument \<open>E\<close>), no row holds
  a block twice, and every held block is a block of the pool. Each operation of the manager keeps it, for
  every \<open>E\<close>, which is what lets several managers share one pool.
\<close>

section \<open>Rows\<close>

definition row_in :: "(string \<times> bref list) list \<Rightarrow> string \<Rightarrow> bref list" where
  "row_in rows rid = (case map_of rows rid of None \<Rightarrow> [] | Some bs \<Rightarrow> bs)"

definition held :: "(string \<times> bref list) list \<Rightarrow> bref \<Rightarrow> nat" where
  "held rows b = sum_list (map (\<lambda>e. count_list (snd e) b) rows)"

lemma row_of_row_in: "row_of m rid = row_in (req_to_blocks m) rid"
  by (simp add: row_of_def row_in_def)

lemma held_update:
  assumes "distinct (map fst rows)"
  shows "held (AList.update k v rows) b + count_list (row_in rows k) b = held rows b + count_list v b"
  using assms
proof (induction rows)
  case (Cons e rows)
  have "map_of rows k = None" if "fst e = k" using Cons.prems that by (auto simp: map_of_eq_None_iff)
  thus ?case using Cons by (cases e) (auto simp: held_def row_in_def)
qed (simp add: held_def row_in_def)

lemma held_delete:
  assumes "distinct (map fst rows)"
  shows "held (AList.delete k rows) b + count_list (row_in rows k) b = held rows b"
  using assms
proof (induction rows)
  case (Cons e rows)
  have "AList.delete k rows = rows \<and> map_of rows k = None" if "fst e = k"
    using Cons.prems that by (auto simp: map_of_eq_None_iff image_def intro!: delete_idem)
  thus ?case using Cons by (cases e) (auto simp: held_def row_in_def)
qed (simp add: held_def row_in_def)

lemma row_in_update [simp]: "row_in (AList.update k v rows) r = (if r = k then v else row_in rows r)"
  by (simp add: row_in_def update_conv')

lemma row_in_delete [simp]: "row_in (AList.delete k rows) r = (if r = k then [] else row_in rows r)"
  by (simp add: row_in_def delete_conv')

lemma held_0_notin: "held rows b = 0 \<Longrightarrow> b \<notin> set (row_in rows r)"
proof -
  assume h: "held rows b = 0"
  show ?thesis
  proof (cases "map_of rows r")
    case (Some bs)
    hence "(r, bs) \<in> set rows" by (rule map_of_SomeD)
    hence "count_list bs b = 0" using h by (force simp: held_def sum_list_eq_0_iff)
    thus ?thesis using Some by (simp add: row_in_def count_list_0_iff)
  qed (simp add: row_in_def)
qed

section \<open>The invariant\<close>

definition row_ok :: "block_pool \<Rightarrow> bref list \<Rightarrow> bool" where
  "row_ok p bs \<longleftrightarrow> (\<forall>b \<in> set bs. valid_block p b) \<and> distinct (filter (\<lambda>b. b \<noteq> Blk 0) bs)"

definition mgr_inv :: "(bref \<Rightarrow> int) \<Rightarrow> kv_manager \<Rightarrow> block_pool \<Rightarrow> bref list \<Rightarrow> bool" where
  "mgr_inv E m p fl \<longleftrightarrow> pool_inv p fl \<and> mgr_null m = Blk 0 \<and> distinct (map fst (req_to_blocks m)) \<and>
     (\<forall>r. row_ok p (row_of m r)) \<and>
     (\<forall>b \<in> usable p. 0 \<le> E b \<and> refc p b = E b + int (held (req_to_blocks m) b))"

text \<open>What no operation on a request changes: the configuration, and the rows of other requests.\<close>

definition mgr_config :: "kv_manager \<Rightarrow> manager_class \<times> kv_cache_spec \<times> int \<times> int \<times> int \<times> bref \<times> bool \<times> int option" where
  "mgr_config m = (mgr_class m, mgr_spec m, scheduler_block_size m, mgr_block_size m, kv_cache_group_id m,
     mgr_null m, mgr_enable_caching m, max_admission m)"

definition only_row :: "string \<Rightarrow> kv_manager \<Rightarrow> kv_manager \<Rightarrow> bool" where
  "only_row rid m m' \<longleftrightarrow> mgr_config m' = mgr_config m \<and> (\<forall>r. r \<noteq> rid \<longrightarrow> row_of m' r = row_of m r)"

lemma only_row_refl [simp]: "only_row rid m m"
  by (simp add: only_row_def)

lemma row_of_set_row [simp]: "row_of (set_row rid bs m) r = (if r = rid then bs else row_of m r)"
  by (simp add: row_of_row_in set_row_def)

lemma row_of_ensure_row [simp]: "row_of (ensure_row rid m) r = row_of m r"
  by (auto simp: ensure_row_def) (auto simp: row_of_def)

lemma row_of_add_new_ids [simp]: "row_of (add_new_ids p bs m) r = row_of m r"
  by (simp add: add_new_ids_def row_of_def)

lemma row_of_drop_request [simp]: "row_of (drop_request rid m) r = (if r = rid then [] else row_of m r)"
  by (simp add: row_of_row_in drop_request_def)

lemma mgr_config_simps [simp]:
  "mgr_config (set_row rid bs m) = mgr_config m" "mgr_config (ensure_row rid m) = mgr_config m"
  "mgr_config (add_new_ids p bs m) = mgr_config m" "mgr_config (drop_request rid m) = mgr_config m"
  "mgr_config (m\<lparr>num_cached_block := d\<rparr>) = mgr_config m"
  by (simp_all add: mgr_config_def set_row_def ensure_row_def add_new_ids_def drop_request_def)

lemma rows_simps [simp]:
  "req_to_blocks (set_row rid bs m) = AList.update rid bs (req_to_blocks m)"
  "req_to_blocks (add_new_ids p bs m) = req_to_blocks m"
  "req_to_blocks (drop_request rid m) = AList.delete rid (req_to_blocks m)"
  "mgr_null (set_row rid bs m) = mgr_null m" "mgr_null (add_new_ids p bs m) = mgr_null m"
  "mgr_null (drop_request rid m) = mgr_null m"
  "num_cached_block (set_row rid bs m) = num_cached_block m"
  "num_cached_block (add_new_ids p bs m) = num_cached_block m"
  "num_cached_block (drop_request rid m) = AList.delete rid (num_cached_block m)"
  "num_cached_block (ensure_row rid m) = num_cached_block m"
  by (simp_all add: set_row_def add_new_ids_def drop_request_def ensure_row_def)

lemma row_of_num_cached [simp]: "row_of (m\<lparr>num_cached_block := d\<rparr>) r = row_of m r"
  by (simp add: row_of_def)

lemma row_ok_config: "same_config p p' \<Longrightarrow> row_ok p' = row_ok p"
  by (simp add: row_ok_def valid_block_config fun_eq_iff)

lemma row_ok_Nil [simp]: "row_ok p []"
  by (simp add: row_ok_def)

text \<open>The invariant depends on the manager only through its rows and its null block.\<close>

lemma mgr_inv_cong:
  "req_to_blocks m' = req_to_blocks m \<Longrightarrow> mgr_null m' = mgr_null m \<Longrightarrow> mgr_inv E m' p fl = mgr_inv E m p fl"
  by (simp add: mgr_inv_def row_of_row_in)

lemma mgr_inv_add_new_ids [simp]: "mgr_inv E (add_new_ids q bs m) p fl = mgr_inv E m p fl"
  by (rule mgr_inv_cong) simp_all

lemma mgr_inv_num_cached [simp]: "mgr_inv E (m\<lparr>num_cached_block := d\<rparr>) p fl = mgr_inv E m p fl"
  by (rule mgr_inv_cong) simp_all

text \<open>Replacing a row together with the matching change of reference counts.\<close>

lemma mgr_inv_set_row:
  assumes "mgr_inv E m p fl" "pool_inv p' fl'" "same_config p p'" "row_ok p bs"
    and "\<And>b. b \<in> usable p \<Longrightarrow> refc p' b + int (count_list (row_of m rid) b) = refc p b + int (count_list bs b)"
  shows "mgr_inv E (set_row rid bs m) p' fl'"
proof -
  have d: "distinct (map fst (req_to_blocks m))" using assms(1) by (simp add: mgr_inv_def)
  have us: "usable p' = usable p" using assms(3) by (rule same_config_usable)
  have "refc p' b = E b + int (held (AList.update rid bs (req_to_blocks m)) b)" if "b \<in> usable p" for b
    using assms(1) assms(5) [OF that] held_update [OF d, of rid bs b] that
    by (auto simp: mgr_inv_def row_of_row_in)
  thus ?thesis using assms d us row_ok_config [OF assms(3)]
    by (auto simp: mgr_inv_def distinct_update)
qed

lemma mgr_inv_ensure_row [simp]: "mgr_inv E m p fl \<Longrightarrow> mgr_inv E (ensure_row rid m) p fl"
proof -
  assume i: "mgr_inv E m p fl"
  have "mgr_inv E (set_row rid [] m) p fl" if "map_of (req_to_blocks m) rid = None"
    using i that by (intro mgr_inv_set_row [OF i]) (auto simp: mgr_inv_def row_of_def)
  thus ?thesis using i by (auto simp: ensure_row_def)
qed

lemma mgr_inv_drop_request:
  assumes "mgr_inv E m p fl" "pool_inv p' fl'" "same_config p p'"
    and "\<And>b. b \<in> usable p \<Longrightarrow> refc p' b + int (count_list (row_of m rid) b) = refc p b"
  shows "mgr_inv E (drop_request rid m) p' fl'"
proof -
  have d: "distinct (map fst (req_to_blocks m))" using assms(1) by (simp add: mgr_inv_def)
  have us: "usable p' = usable p" using assms(3) by (rule same_config_usable)
  have "refc p' b = E b + int (held (AList.delete rid (req_to_blocks m)) b)" if "b \<in> usable p" for b
    using assms(1) assms(4) [OF that] held_delete [OF d, of rid b] that
    by (auto simp: mgr_inv_def row_of_row_in)
  thus ?thesis using assms d us row_ok_config [OF assms(3)]
    by (auto simp: mgr_inv_def distinct_delete)
qed

text \<open>A free block is in no row; a held block has a positive count.\<close>

lemma free_not_held:
  assumes "mgr_inv E m p fl" "b \<in> set fl"
  shows "b \<in> usable p" "refc p b = 0" "b \<notin> set (row_of m r)" "E b = 0"
proof -
  show u: "b \<in> usable p" and z: "refc p b = 0"
    using assms by (auto simp: mgr_inv_def pool_inv_def counts_ok_def)
  have e: "0 \<le> E b" "refc p b = E b + int (held (req_to_blocks m) b)" using assms(1) u by (auto simp: mgr_inv_def)
  have "held (req_to_blocks m) b = 0" using e z by linarith
  thus "b \<notin> set (row_of m r)" unfolding row_of_row_in by (rule held_0_notin)
  show "E b = 0" using e z by linarith
qed

lemma row_positive:
  assumes "mgr_inv E m p fl" "b \<in> set (row_of m r)" "b \<noteq> Blk 0"
  shows "b \<in> usable p" "1 \<le> refc p b"
proof -
  show u: "b \<in> usable p" using assms by (auto simp: mgr_inv_def row_ok_def valid_block_def)
  have "held (req_to_blocks m) b \<noteq> 0" using assms(2) held_0_notin unfolding row_of_row_in by metis
  thus "1 \<le> refc p b" using assms(1) u by (fastforce simp: mgr_inv_def)
qed

section \<open>Allocation\<close>

lemma row_ok_append_free:
  assumes "mgr_inv E m p fl" "row_ok p (row_of m rid)"
  shows "row_ok p (row_of m rid @ take k fl)"
proof -
  have "distinct fl" using assms(1) by (simp add: mgr_inv_def pool_inv_def queue_rep_def)
  moreover have "\<forall>b \<in> set (take k fl). b \<in> usable p \<and> b \<notin> set (row_of m rid)"
    using free_not_held [OF assms(1)] by (auto dest: in_set_takeD)
  ultimately show ?thesis using assms(2) by (auto simp: row_ok_def valid_block_def distinct_filter)
qed

lemma count_list_take_free:
  assumes "mgr_inv E m p fl" "b \<in> set (take k fl)"
  shows "count_list (take k fl) b = 1"
proof -
  have "distinct (take k fl)" using assms(1) by (simp add: mgr_inv_def pool_inv_def queue_rep_def)
  thus ?thesis using distinct_count_list [of "\<lambda>_. True" "take k fl" b] assms(2) by simp
qed

lemma append_new_law:
  assumes "mgr_inv E m p fl" "0 \<le> n" "n \<le> int (length fl)"
  shows "\<exists>p'. get_new_blocks n p = Inr (take (nat n) fl, p') \<and>
    mgr_inv E (set_row rid (row_of m rid @ take (nat n) fl) m) p' (drop (nat n) fl) \<and> same_config p p' \<and>
    (\<forall>c. refc p' c = (if c \<in> set (take (nat n) fl) then 1 else refc p c)) \<and>
    (\<forall>c. bhash p' c = (if c \<in> set (take (nat n) fl) \<and> enable_caching p then None else bhash p c))"
proof -
  have inv: "pool_inv p fl" "row_ok p (row_of m rid)" using assms(1) by (simp_all add: mgr_inv_def)
  let ?bs = "take (nat n) fl"
  obtain p' where p': "get_new_blocks n p = Inr (?bs, p')" "pool_inv p' (drop (nat n) fl)" "same_config p p'"
    "\<forall>c. refc p' c = (if c \<in> set ?bs then 1 else refc p c)"
    "\<forall>c. bhash p' c = (if c \<in> set ?bs \<and> enable_caching p then None else bhash p c)"
    using get_new_blocks_law [OF inv(1) assms(2,3)] by auto
  have "mgr_inv E (set_row rid (row_of m rid @ ?bs) m) p' (drop (nat n) fl)"
  proof (rule mgr_inv_set_row [OF assms(1) p'(2,3) row_ok_append_free [OF assms(1) inv(2)]])
    fix b assume "b \<in> usable p"
    have "b \<in> set ?bs \<Longrightarrow> refc p b = 0" using free_not_held(2) [OF assms(1)] by (auto dest: in_set_takeD)
    thus "refc p' b + int (count_list (row_of m rid) b) = refc p b + int (count_list (row_of m rid @ ?bs) b)"
      using p'(4) count_list_take_free [OF assms(1), of b "nat n"] by (cases "b \<in> set ?bs") simp_all
  qed
  thus ?thesis using p' by blast
qed

lemma base_allocate_law:
  fixes ntok :: int and rid :: string
  assumes "mgr_inv E m p fl"
  defines "n \<equiv> cdiv ntok (mgr_block_size m) - int (length (row_of m rid))"
  assumes "n \<le> int (length fl)"
  shows "\<exists>m' p'. base_allocate_new_blocks rid ntok (m, p) = Inr (take (nat n) fl, m', p') \<and>
    mgr_inv E m' p' (drop (nat n) fl) \<and> row_of m' rid = row_of m rid @ take (nat n) fl \<and> only_row rid m m' \<and>
    num_cached_block m' = num_cached_block m \<and> same_config p p' \<and>
    (\<forall>c. refc p' c = (if c \<in> set (take (nat n) fl) then 1 else refc p c)) \<and>
    (\<forall>c. bhash p' c = (if c \<in> set (take (nat n) fl) \<and> enable_caching p then None else bhash p c))"
proof (cases "n \<le> 0")
  case True
  have "base_allocate_new_blocks rid ntok (m, p) = Inr ([], ensure_row rid m, p)"
    using True by (simp add: base_allocate_new_blocks_def n_def)
  thus ?thesis using True assms(1) by (simp add: only_row_def)
next
  case False
  let ?bs = "take (nat n) fl"
  obtain p' where p': "get_new_blocks n p = Inr (?bs, p')"
    "mgr_inv E (set_row rid (row_of m rid @ ?bs) m) p' (drop (nat n) fl)" "same_config p p'"
    "\<forall>c. refc p' c = (if c \<in> set ?bs then 1 else refc p c)"
    "\<forall>c. bhash p' c = (if c \<in> set ?bs \<and> enable_caching p then None else bhash p c)"
    using append_new_law [OF assms(1) _ assms(3), of rid] False by auto
  have "base_allocate_new_blocks rid ntok (m, p) =
      Inr (?bs, add_new_ids p' ?bs (set_row rid (row_of m rid @ ?bs) m), p')"
    using False p'(1) unfolding n_def by (simp add: base_allocate_new_blocks_def Let_def)
  thus ?thesis using p' by (simp add: only_row_def)
qed

lemma base_allocate_short:
  assumes "mgr_inv E m p fl" "int (length fl) < cdiv ntok (mgr_block_size m) - int (length (row_of m rid))"
  shows "base_allocate_new_blocks rid ntok (m, p) = Inl ValueError"
  using assms get_new_blocks_short [of p fl "cdiv ntok (mgr_block_size m) - int (length (row_of m rid))"]
  by (auto simp: base_allocate_new_blocks_def mgr_inv_def)

section \<open>Releasing\<close>

lemma row_release:
  assumes "mgr_inv E m p fl"
  shows "\<forall>b \<in> set (row_of m rid). valid_block p b" "distinct (filter (\<lambda>b. b \<noteq> Blk 0) (row_of m rid))"
    "\<forall>b \<in> set (row_of m rid). b \<noteq> Blk 0 \<longrightarrow> 1 \<le> refc p b"
  using assms row_positive(2) [OF assms] by (auto simp: mgr_inv_def row_ok_def)

lemma distinct_filter_rev: "distinct (filter P (rev xs)) = distinct (filter P xs)"
  by (simp add: rev_filter [symmetric])

lemma base_free_law:
  assumes "mgr_inv E m p fl"
  shows "\<exists>p'. base_free rid (m, p) = Inr (drop_request rid m, p') \<and>
    mgr_inv E (drop_request rid m) p' (fl @ filter (\<lambda>b. b \<noteq> Blk 0 \<and> refc p b = 1) (rev (row_of m rid))) \<and>
    same_config p p' \<and> (\<forall>c. refc p' c = refc p c - int (count_list (row_of m rid) c)) \<and> (\<forall>c. bhash p' c = bhash p c)"
proof -
  have inv: "pool_inv p fl" using assms by (simp add: mgr_inv_def)
  note rel = row_release [OF assms, of rid]
  obtain p' where p': "free_blocks (rev (row_of m rid)) False p = Inr p'"
    "pool_inv p' (fl @ filter (\<lambda>b. b \<noteq> Blk 0 \<and> refc p b = 1) (rev (row_of m rid)))" "same_config p p'"
    "\<forall>c. refc p' c = refc p c - int (count_list (row_of m rid) c)" "\<forall>c. bhash p' c = bhash p c"
    using free_blocks_law [OF inv, of "rev (row_of m rid)" False] rel by (auto simp: distinct_filter_rev)
  have "mgr_inv E (drop_request rid m) p' (fl @ filter (\<lambda>b. b \<noteq> Blk 0 \<and> refc p b = 1) (rev (row_of m rid)))"
    using p'(4) by (intro mgr_inv_drop_request [OF assms p'(2,3)]) simp
  thus ?thesis using p' by (simp add: base_free_def)
qed

text \<open>Cached blocks go to the back of the free list, uncached ones to the front.\<close>

lemma free_partitioned_law:
  assumes "pool_inv p fl" "\<forall>b \<in> set (cs @ us). valid_block p b" "distinct (filter (\<lambda>b. b \<noteq> Blk 0) (cs @ us))"
    and "\<forall>b \<in> set (cs @ us). b \<noteq> Blk 0 \<longrightarrow> 1 \<le> refc p b"
  defines "freed \<equiv> filter (\<lambda>b. b \<noteq> Blk 0 \<and> refc p b = 1)"
  shows "\<exists>p'. free_partitioned cs us p = Inr p' \<and> pool_inv p' (freed us @ fl @ freed cs) \<and> same_config p p' \<and>
    (\<forall>c. refc p' c = refc p c - int (count_list (cs @ us) c)) \<and> (\<forall>c. bhash p' c = bhash p c)"
proof -
  obtain p1 where p1: "free_blocks cs False p = Inr p1" "pool_inv p1 (fl @ freed cs)" "same_config p p1"
    "\<forall>c. refc p1 c = refc p c - int (count_list cs c)" "\<forall>c. bhash p1 c = bhash p c"
    using free_blocks_law [OF assms(1), of cs False] assms(2-4) by (auto simp: freed_def)
  have same: "refc p1 b = refc p b" if "b \<in> set us" "b \<noteq> Blk 0" for b
    using assms(3) p1(4) that by (auto simp: count_list_0_iff)
  have "filter (\<lambda>b. b \<noteq> Blk 0 \<and> refc p1 b = 1) us = freed us"
    unfolding freed_def using same by (auto intro: filter_cong)
  then obtain p2 where p2: "free_blocks us True p1 = Inr p2" "pool_inv p2 (freed us @ fl @ freed cs)" "same_config p1 p2"
    "\<forall>c. refc p2 c = refc p1 c - int (count_list us c)" "\<forall>c. bhash p2 c = bhash p1 c"
    using free_blocks_law [OF p1(2), of us True] assms(2-4) valid_block_config [OF p1(3)] same by auto
  show ?thesis using p1 p2 same_config_trans by (auto simp: free_partitioned_def)
qed

lemma count_list_partition: "count_list (filter P xs) b + count_list (filter (\<lambda>x. \<not> P x) xs) b = count_list xs b"
  by (induction xs) auto

lemma distinct_filter_count: "distinct (filter P xs) \<longleftrightarrow> (\<forall>b. P b \<longrightarrow> count_list xs b \<le> 1)"
proof (induction xs)
  case (Cons x xs)
  have "count_list xs x = 0 \<longleftrightarrow> x \<notin> set xs" by (simp add: count_list_0_iff)
  thus ?case using Cons by (auto simp: le_Suc_eq split: if_splits)
qed simp

lemma sliding_free_law:
  assumes "mgr_inv E m p fl"
  shows "\<exists>p' fl'. sliding_free rid (m, p) = Inr (drop_request rid m, p') \<and> mgr_inv E (drop_request rid m) p' fl' \<and>
    same_config p p' \<and> (\<forall>c. refc p' c = refc p c - int (count_list (row_of m rid) c)) \<and> (\<forall>c. bhash p' c = bhash p c)"
proof -
  let ?row = "rev (row_of m rid)" and ?u = "is_uncached (pheap p)"
  let ?cs = "filter (\<lambda>b. \<not> ?u b) ?row" and ?us = "filter ?u ?row"
  have cnt: "count_list (?cs @ ?us) b = count_list (row_of m rid) b" for b
    using count_list_partition [of ?u ?row b] by simp
  have inv: "pool_inv p fl" using assms by (simp add: mgr_inv_def)
  have "distinct (filter (\<lambda>b. b \<noteq> Blk 0) (?cs @ ?us))"
    using row_release(2) [OF assms, of rid] unfolding distinct_filter_count cnt .
  then obtain p' fl' where p': "free_partitioned ?cs ?us p = Inr p'" "pool_inv p' fl'" "same_config p p'"
    "\<forall>c. refc p' c = refc p c - int (count_list (row_of m rid) c)" "\<forall>c. bhash p' c = bhash p c"
    using free_partitioned_law [OF inv, of ?cs ?us] row_release(1,3) [OF assms, of rid] unfolding cnt by auto
  have "mgr_inv E (drop_request rid m) p' fl'" using p'(4) by (intro mgr_inv_drop_request [OF assms p'(2,3)]) simp
  moreover have "sliding_free rid (m, p) = Inr (drop_request rid m, p')"
  proof (cases "row_of m rid = []")
    case True
    hence "p' = p" using p'(1) by (simp add: free_partitioned_def free_blocks_def append_n_def prepend_n_def)
    thus ?thesis using True by (simp add: sliding_free_def)
  qed (use p'(1) in \<open>simp add: sliding_free_def\<close>)
  ultimately show ?thesis using p' by blast
qed

section \<open>Blocks that left the window\<close>

lemma count_list_update:
  "i < length xs \<Longrightarrow> count_list (xs[i := v]) b + of_bool (xs ! i = b) = count_list xs b + of_bool (v = b)"
proof (induction xs arbitrary: i)
  case (Cons x xs)
  thus ?case by (cases i) auto
qed simp

lemma skip_loop_law:
  assumes "skip_loop h nb n row = (cs, us, row')" "n \<le> length row"
  shows "length row' = length row \<and> drop n row' = drop n row \<and>
    (\<forall>b. b \<noteq> nb \<longrightarrow> count_list row' b + count_list (cs @ us) b = count_list row b) \<and>
    nb \<notin> set (cs @ us) \<and> (\<forall>b \<in> set us. is_uncached h b) \<and> (\<forall>b \<in> set cs. \<not> is_uncached h b) \<and>
    (\<forall>i. row' ! i = row ! i \<or> row' ! i = nb)"
  using assms
proof (induction n arbitrary: row cs us row')
  case (Suc n)
  show ?case
  proof (cases "row ! n = nb")
    case False
    obtain c u r where rec: "skip_loop h nb n (row[n := nb]) = (c, u, r)" by (metis prod_cases3)
    note ih = Suc.IH [OF rec] 
    have cnt: "count_list (row[n := nb]) b + of_bool (row ! n = b) = count_list row b" if "b \<noteq> nb" for b
      using count_list_update [of n row nb b] Suc.prems(2) that by simp
    have drop: "drop (Suc n) r = drop (Suc n) row"
    proof -
      have "drop n r = drop n (row[n := nb])" using ih Suc.prems(2) by simp
      hence "drop 1 (drop n r) = drop 1 (drop n (row[n := nb]))" by simp
      thus ?thesis by (simp add: drop_update_cancel)
    qed
    have nth: "r ! i = row ! i \<or> r ! i = nb" for i
    proof -
      have "r ! i = row[n := nb] ! i \<or> r ! i = nb" using ih Suc.prems(2) by simp
      thus ?thesis using Suc.prems(2) by (cases "i = n") simp_all
    qed
    have res: "row' = r \<and> (cs, us) = (if is_uncached h (row ! n) then (c, row ! n # u) else (row ! n # c, u))"
      using Suc.prems(1) False rec by (auto split: if_splits)
    have "count_list r b + count_list (cs @ us) b = count_list row b" if "b \<noteq> nb" for b
      using ih Suc.prems(2) cnt [OF that] that res by (auto split: if_splits)
    thus ?thesis using ih Suc.prems(2) False drop nth res by (auto split: if_splits)
  qed (use Suc.prems in simp)
qed simp

text \<open>When the null blocks of a row are a prefix of it, the loop empties all of the skipped part.\<close>

definition nulls_first :: "bref \<Rightarrow> bref list \<Rightarrow> bool" where
  "nulls_first nb row \<longleftrightarrow> (\<forall>i j. i < j \<and> j < length row \<and> row ! j = nb \<longrightarrow> row ! i = nb)"

lemma skip_loop_all:
  assumes "skip_loop h nb n row = (cs, us, row')" "n \<le> length row"
    and "\<forall>i j. i < j \<and> j < n \<and> row ! j = nb \<longrightarrow> row ! i = nb"
  shows "\<forall>i < n. row' ! i = nb"
  using assms
proof (induction n arbitrary: row cs us row')
  case (Suc n)
  show ?case
  proof (cases "row ! n = nb")
    case True
    hence "row' = row" using Suc.prems(1) by simp
    thus ?thesis using Suc.prems(3) True by (metis less_Suc_eq)
  next
    case False
    obtain c u r where rec: "skip_loop h nb n (row[n := nb]) = (c, u, r)" by (metis prod_cases3)
    have r: "row' = r" using Suc.prems(1) False rec by (auto split: if_splits)
    have "\<forall>i < n. r ! i = nb"
    proof (rule Suc.IH [OF rec])
      show "n \<le> length (row[n := nb])" using Suc.prems(2) by simp
      show "\<forall>i j. i < j \<and> j < n \<and> row[n := nb] ! j = nb \<longrightarrow> row[n := nb] ! i = nb"
        using Suc.prems(3) by (metis less_SucI less_trans nat_neq_iff nth_list_update_neq)
    qed
    moreover have "r ! n = nb"
    proof -
      have "drop n r = drop n (row[n := nb])" "length r = length row"
        using skip_loop_law [OF rec] Suc.prems(2) by simp_all
      hence "hd (drop n r) = nb" using Suc.prems(2) by (simp add: hd_drop_conv_nth)
      thus ?thesis using \<open>length r = length row\<close> Suc.prems(2) by (simp add: hd_drop_conv_nth)
    qed
    ultimately show ?thesis using r by (auto simp: less_Suc_eq)
  qed
qed simp

definition skipped_blocks :: "kv_manager \<Rightarrow> string \<Rightarrow> int \<Rightarrow> nat" where
  "skipped_blocks m rid tot =
     nat (min (get_num_skipped_tokens m tot div mgr_block_size m) (int (length (row_of m rid))))"

lemma base_remove_skipped_law:
  assumes "mgr_inv E m p fl"
  shows "\<exists>m' p' fl'. base_remove_skipped_blocks rid tot (m, p) = Inr (m', p') \<and> mgr_inv E m' p' fl' \<and>
    only_row rid m m' \<and> num_cached_block m' = num_cached_block m \<and> same_config p p' \<and>
    (\<forall>c. bhash p' c = bhash p c) \<and> length (row_of m' rid) = length (row_of m rid) \<and>
    (\<forall>i. row_of m' rid ! i = row_of m rid ! i \<or> row_of m' rid ! i = Blk 0) \<and>
    (\<forall>i. skipped_blocks m rid tot \<le> i \<and> i < length (row_of m rid) \<longrightarrow> row_of m' rid ! i = row_of m rid ! i) \<and>
    (\<forall>c. c \<noteq> Blk 0 \<longrightarrow> refc p' c + int (count_list (row_of m rid) c) = refc p c + int (count_list (row_of m' rid) c)) \<and>
    length fl \<le> length fl'"
proof (cases "get_num_skipped_tokens m tot \<le> 0")
  case True
  hence "base_remove_skipped_blocks rid tot (m, p) = Inr (m, p)" by (simp add: base_remove_skipped_blocks_def)
  thus ?thesis using assms by auto
next
  case False
  let ?row = "row_of m rid" and ?n = "skipped_blocks m rid tot"
  obtain cs us row' where loop: "skip_loop (pheap p) (mgr_null m) ?n ?row = (cs, us, row')" by (metis prod_cases3)
  have n: "?n \<le> length ?row" by (simp add: skipped_blocks_def)
  have nb: "mgr_null m = Blk 0" and inv: "pool_inv p fl" using assms by (simp_all add: mgr_inv_def)
  note law = skip_loop_law [OF loop n, unfolded nb]
  have rows: "length row' = length ?row" "drop ?n row' = drop ?n ?row" "Blk 0 \<notin> set (cs @ us)"
    "\<forall>i. row' ! i = ?row ! i \<or> row' ! i = Blk 0" using law by simp_all
  have cnt: "count_list row' b + count_list (cs @ us) b = count_list ?row b" if "b \<noteq> Blk 0" for b
    using law that by blast
  have sub: "b \<in> set ?row \<and> b \<noteq> Blk 0" if "b \<in> set (cs @ us)" for b
  proof -
    have "b \<noteq> Blk 0" using rows(3) that by blast
    moreover have "count_list (cs @ us) b \<noteq> 0" using that by (simp only: count_list_0_iff) simp
    ultimately show ?thesis using cnt [of b] count_list_0_iff [of ?row b] by linarith
  qed
  note rel = row_release [OF assms, of rid]
  have one: "count_list ?row b \<le> 1" if "b \<noteq> Blk 0" for b using rel(2) that unfolding distinct_filter_count by blast
  have dist: "distinct (filter (\<lambda>b. b \<noteq> Blk 0) (cs @ us))" "distinct (filter (\<lambda>b. b \<noteq> Blk 0) row')"
    unfolding distinct_filter_count using one cnt by (metis le_trans le_add1 le_add2)+
  obtain p' where p': "free_partitioned cs us p = Inr p'" "same_config p p'"
    "pool_inv p' (filter (\<lambda>b. b \<noteq> Blk 0 \<and> refc p b = 1) us @ fl @ filter (\<lambda>b. b \<noteq> Blk 0 \<and> refc p b = 1) cs)"
    "\<forall>c. refc p' c = refc p c - int (count_list (cs @ us) c)" "\<forall>c. bhash p' c = bhash p c"
    using free_partitioned_law [OF inv _ dist(1)] sub rel(1,3) by blast
  have "set row' \<subseteq> insert (Blk 0) (set ?row)" using rows(1,4) by (metis in_set_conv_nth insertCI nth_mem subsetI)
  hence ok: "row_ok p row'" using rel(1) dist(2) by (auto simp: row_ok_def valid_block_def)
  have refs: "refc p' b + int (count_list ?row b) = refc p b + int (count_list row' b)" if "b \<noteq> Blk 0" for b
    using p'(4) cnt [OF that] by simp
  have inv': "mgr_inv E (set_row rid row' m) p'
      (filter (\<lambda>b. b \<noteq> Blk 0 \<and> refc p b = 1) us @ fl @ filter (\<lambda>b. b \<noteq> Blk 0 \<and> refc p b = 1) cs)"
    by (rule mgr_inv_set_row [OF assms p'(3,2) ok]) (metis refs usable_neq_0)
  have run: "base_remove_skipped_blocks rid tot (m, p) = Inr (set_row rid row' m, p')"
    using False loop p'(1) by (simp add: base_remove_skipped_blocks_def Let_def flip: skipped_blocks_def)
  have keep: "row' ! i = ?row ! i" if "?n \<le> i" "i < length ?row" for i
    using rows(1,2) that nth_drop [of ?n row' "i - ?n"] nth_drop [of ?n ?row "i - ?n"] by simp
  show ?thesis using run inv' p'(2,5) rows refs keep
    by (intro exI [of _ "set_row rid row' m"] exI [of _ p'] exI) (auto simp: only_row_def)
qed

end
