(* ===== verification/Manager_Steps.thy ===== *)
theory Manager_Steps
  imports Manager_Invariant
begin

text \<open>
  The effect of one manager operation on one request, in the form the coordinator composes: the
  operation keeps the ownership invariant, changes only the row of its request, and keeps fresh blocks
  fresh. A block is fresh when exactly one row holds it and it carries no hash yet; the blocks of a row
  that were not handed to the prefix cache are fresh, which is why caching them later cannot fail.
\<close>

section \<open>Fresh blocks\<close>

definition fresh :: "block_pool \<Rightarrow> bref \<Rightarrow> bool" where
  "fresh p b \<longleftrightarrow> (enable_caching p \<longrightarrow> bhash p b = None) \<and> refc p b = 1"

definition tail_blocks :: "kv_manager \<Rightarrow> string \<Rightarrow> bref set" where
  "tail_blocks m rid = set (drop (cached_count m rid) (row_of m rid)) - {Blk 0}"

lemma tail_blocks_in_row: "b \<in> tail_blocks m rid \<Longrightarrow> b \<in> set (row_of m rid) \<and> b \<noteq> Blk 0"
  by (auto simp: tail_blocks_def dest: in_set_dropD)

lemma cached_count_cong: "num_cached_block m' = num_cached_block m \<Longrightarrow> cached_count m' r = cached_count m r"
  by (simp add: cached_count_def)

lemma cached_count_update [simp]:
  "cached_count (m\<lparr>num_cached_block := AList.update rid n (num_cached_block m)\<rparr>) r = (if r = rid then n else cached_count m r)"
  by (simp add: cached_count_def update_conv')

lemma cached_count_simps [simp]:
  "cached_count (set_row rid bs m) r = cached_count m r" "cached_count (add_new_ids p bs m) r = cached_count m r"
  "cached_count (ensure_row rid m) r = cached_count m r"
  "cached_count (drop_request rid m) r = (if r = rid then 0 else cached_count m r)"
  by (simp_all add: cached_count_def delete_conv')

definition op_ok ::
  "(bref \<Rightarrow> int) \<Rightarrow> string \<Rightarrow> kv_manager \<Rightarrow> block_pool \<Rightarrow> bref list \<Rightarrow> kv_manager \<Rightarrow> block_pool \<Rightarrow> bref list \<Rightarrow> bool" where
  "op_ok E rid m p fl m' p' fl' \<longleftrightarrow> mgr_inv E m' p' fl' \<and> only_row rid m m' \<and> same_config p p' \<and>
     (\<forall>r. r \<noteq> rid \<longrightarrow> cached_count m' r = cached_count m r) \<and>
     (\<forall>c. c \<noteq> Blk 0 \<and> c \<notin> set (row_of m rid) \<and> c \<notin> set fl \<and> fresh p c \<longrightarrow> fresh p' c) \<and>
     ((\<forall>b \<in> tail_blocks m rid. fresh p b) \<longrightarrow> (\<forall>b \<in> tail_blocks m' rid. fresh p' b))"

lemma only_row_trans: "only_row rid m m1 \<Longrightarrow> only_row rid m1 m2 \<Longrightarrow> only_row rid m m2"
  by (simp add: only_row_def)

lemma fresh_config: "same_config p p' \<Longrightarrow> bhash p' b = bhash p b \<Longrightarrow> refc p' b = refc p b \<Longrightarrow> fresh p' b = fresh p b"
  by (simp add: fresh_def same_config_def)

section \<open>The operations\<close>

lemma count_row_1:
  assumes "mgr_inv E m p fl" "b \<in> set (row_of m rid)" "b \<noteq> Blk 0"
  shows "count_list (row_of m rid) b = 1"
proof -
  have "count_list (row_of m rid) b \<le> 1"
    using row_release(2) [OF assms(1), of rid] assms(3) unfolding distinct_filter_count by blast
  moreover have "count_list (row_of m rid) b \<noteq> 0" using assms(2) by (simp add: count_list_0_iff)
  ultimately show ?thesis by linarith
qed

lemma allocate_ok:
  assumes "mgr_inv E m p fl" "cdiv ntok (mgr_block_size m) - int (length (row_of m rid)) \<le> int (length fl)"
  shows "\<exists>bs m' p' fl'. base_allocate_new_blocks rid ntok (m, p) = Inr (bs, m', p') \<and> op_ok E rid m p fl m' p' fl' \<and>
    row_of m' rid = row_of m rid @ bs \<and> fl = bs @ fl' \<and> num_cached_block m' = num_cached_block m \<and>
    int (length bs) = max 0 (cdiv ntok (mgr_block_size m) - int (length (row_of m rid)))"
proof -
  define n where "n = cdiv ntok (mgr_block_size m) - int (length (row_of m rid))"
  let ?bs = "take (nat n) fl"
  obtain m' p' where a: "base_allocate_new_blocks rid ntok (m, p) = Inr (?bs, m', p')"
    "mgr_inv E m' p' (drop (nat n) fl)" "row_of m' rid = row_of m rid @ ?bs" "only_row rid m m'"
    "num_cached_block m' = num_cached_block m" "same_config p p'"
    "\<forall>c. refc p' c = (if c \<in> set ?bs then 1 else refc p c)"
    "\<forall>c. bhash p' c = (if c \<in> set ?bs \<and> enable_caching p then None else bhash p c)"
    using base_allocate_law [OF assms(1), of ntok rid] assms(2) unfolding n_def by blast
  have ec: "enable_caching p' = enable_caching p" using a(6) by (simp add: same_config_def)
  have new: "fresh p' b" if "b \<in> set ?bs" for b using that a(7,8) ec by (simp add: fresh_def)
  have old: "fresh p' b" if "fresh p b" for b using that a(7,8) ec by (simp add: fresh_def)
  have "fresh p' b" if "\<forall>b \<in> tail_blocks m rid. fresh p b" "b \<in> tail_blocks m' rid" for b
  proof -
    have "b \<in> set (drop (cached_count m rid) (row_of m rid @ ?bs))" "b \<noteq> Blk 0"
      using that(2) a(3) cached_count_cong [OF a(5), of rid] by (auto simp: tail_blocks_def)
    hence "b \<in> tail_blocks m rid \<or> b \<in> set ?bs" by (auto simp: tail_blocks_def dest: in_set_dropD)
    thus ?thesis using that(1) new old by blast
  qed
  hence "op_ok E rid m p fl m' p' (drop (nat n) fl)"
    using a old cached_count_cong [OF a(5)] by (auto simp: op_ok_def)
  moreover have "int (length ?bs) = max 0 n" using assms(2) by (simp add: n_def)
  ultimately show ?thesis using a unfolding n_def [symmetric] by (metis append_take_drop_id)
qed

lemma free_ok:
  assumes "mgr_inv E m p fl" "mgr_class m \<noteq> MambaManager"
  shows "\<exists>p' fl'. manager_free rid (m, p) = Inr (drop_request rid m, p') \<and>
    op_ok E rid m p fl (drop_request rid m) p' fl' \<and> (\<forall>c. refc p' c = refc p c - int (count_list (row_of m rid) c))"
proof -
  obtain p' fl' where f: "manager_free rid (m, p) = Inr (drop_request rid m, p')" "mgr_inv E (drop_request rid m) p' fl'"
    "same_config p p'" "\<forall>c. refc p' c = refc p c - int (count_list (row_of m rid) c)" "\<forall>c. bhash p' c = bhash p c"
    using base_free_law [OF assms(1), of rid] sliding_free_law [OF assms(1), of rid] assms(2)
    by (cases "mgr_class m") (fastforce simp: manager_free_def)+
  have "fresh p' c" if "c \<notin> set (row_of m rid)" "fresh p c" for c
    using that f(3-5) by (simp add: fresh_def same_config_def count_list_0_iff)
  hence "op_ok E rid m p fl (drop_request rid m) p' fl'"
    using f by (auto simp: op_ok_def only_row_def tail_blocks_def)
  thus ?thesis using f by blast
qed

lemma remove_skipped_ok:
  assumes "mgr_inv E m p fl"
  shows "\<exists>m' p' fl'. base_remove_skipped_blocks rid tot (m, p) = Inr (m', p') \<and> op_ok E rid m p fl m' p' fl' \<and>
    length (row_of m' rid) = length (row_of m rid) \<and> num_cached_block m' = num_cached_block m \<and>
    (\<forall>i. row_of m' rid ! i = row_of m rid ! i \<or> row_of m' rid ! i = Blk 0) \<and>
    (\<forall>i. skipped_blocks m rid tot \<le> i \<and> i < length (row_of m rid) \<longrightarrow> row_of m' rid ! i = row_of m rid ! i) \<and>
    length fl \<le> length fl' \<and> (\<forall>c. bhash p' c = bhash p c)"
proof -
  obtain m' p' fl' where r: "base_remove_skipped_blocks rid tot (m, p) = Inr (m', p')" "mgr_inv E m' p' fl'"
    "only_row rid m m'" "num_cached_block m' = num_cached_block m" "same_config p p'" "\<forall>c. bhash p' c = bhash p c"
    "length (row_of m' rid) = length (row_of m rid)"
    and rows: "\<forall>i. row_of m' rid ! i = row_of m rid ! i \<or> row_of m' rid ! i = Blk 0"
      "\<forall>i. skipped_blocks m rid tot \<le> i \<and> i < length (row_of m rid) \<longrightarrow> row_of m' rid ! i = row_of m rid ! i"
    and refs: "\<forall>c. c \<noteq> Blk 0 \<longrightarrow> refc p' c + int (count_list (row_of m rid) c) = refc p c + int (count_list (row_of m' rid) c)"
    and len: "length fl \<le> length fl'"
    using base_remove_skipped_law [OF assms, of rid tot] by blast
  have sub: "b \<in> set (row_of m' rid) \<Longrightarrow> b \<noteq> Blk 0 \<Longrightarrow> b \<in> set (row_of m rid)" for b
    using rows(1) r(7) by (metis in_set_conv_nth)
  have keep: "fresh p' c" if "fresh p c" "c \<noteq> Blk 0" "c \<notin> set (row_of m rid) \<or> c \<in> set (row_of m' rid)" for c
  proof -
    have "count_list (row_of m' rid) c = count_list (row_of m rid) c"
      using that(2,3) sub [of c] count_row_1 [OF assms, of c rid] count_row_1 [OF r(2), of c rid]
      by (cases "c \<in> set (row_of m' rid)") (auto simp: count_list_0_iff)
    hence "refc p' c = refc p c" using refs that(2) by force
    thus ?thesis using that(1) fresh_config [OF r(5)] r(6) by blast
  qed
  have tail: "fresh p' b" if "\<forall>b \<in> tail_blocks m rid. fresh p b" "b \<in> tail_blocks m' rid" for b
  proof -
    let ?k = "cached_count m rid"
    have b: "b \<in> set (drop ?k (row_of m' rid))" "b \<noteq> Blk 0"
      using that(2) cached_count_cong [OF r(4), of rid] by (auto simp: tail_blocks_def)
    then obtain i where i: "?k \<le> i" "i < length (row_of m' rid)" "row_of m' rid ! i = b"
      by (auto simp: in_set_conv_nth) (metis add.commute le_add1 less_diff_conv nth_drop)
    hence "row_of m rid ! i = b" using rows(1) b(2) by metis
    hence "b \<in> tail_blocks m rid" using i b(2) r(7)
      by (auto simp: tail_blocks_def in_set_conv_nth intro!: exI [of _ "i - ?k"])
    thus ?thesis using that(1) keep b i nth_mem by metis
  qed
  hence "op_ok E rid m p fl m' p' fl'"
    using r keep cached_count_cong [OF r(4)] by (auto simp: op_ok_def)
  thus ?thesis using r rows len by blast
qed

text \<open>
  Adopting computed blocks: the hits that are still in the window are touched and follow the null blocks
  of the skipped part; blocks for external tokens are allocated behind them.
\<close>

definition adopted_row :: "kv_manager \<Rightarrow> bref list \<Rightarrow> int \<Rightarrow> bref list" where
  "adopted_row m new_computed tot =
     (let k = nat (get_num_skipped_tokens m tot div mgr_block_size m)
      in replicate k (mgr_null m) @ drop k new_computed)"

definition adopted_external :: "kv_manager \<Rightarrow> int \<Rightarrow> int \<Rightarrow> int" where
  "adopted_external m tot ext =
     (if get_num_skipped_tokens m tot div mgr_block_size m > 0
      then min (tot - get_num_skipped_tokens m tot) ext else ext)"

definition hits_ok :: "block_pool \<Rightarrow> bref list \<Rightarrow> bool" where
  "hits_ok p bs \<longleftrightarrow> row_ok p bs \<and> (\<forall>b \<in> set bs. b = Blk 0 \<or> bhash p b \<noteq> None)"

lemma hits_ok_drop: "hits_ok p bs \<Longrightarrow> hits_ok p (drop k bs)"
proof -
  assume h: "hits_ok p bs"
  have "filter P (drop k bs) = drop (length (filter P (take k bs))) (filter P bs)" for P
    by (metis append_eq_conv_conj append_take_drop_id filter_append)
  thus ?thesis using h by (auto simp: hits_ok_def row_ok_def dest: in_set_dropD)
qed

lemma row_ok_nulls: "row_ok p bs \<Longrightarrow> row_ok p (replicate k (Blk 0) @ bs)"
  by (auto simp: row_ok_def valid_block_def)

lemma count_list_nulls: "b \<noteq> Blk 0 \<Longrightarrow> count_list (replicate k (Blk 0) @ bs) b = count_list bs b"
  by (induction k) auto

lemma adopt_touch:
  fixes k :: nat
  assumes "mgr_inv E m p fl" "row_of m rid = []" "hits_ok p hits" "hits = [] \<or> enable_caching p"
  defines "row \<equiv> replicate k (Blk 0) @ hits"
  shows "\<exists>p'. touch hits p = Inr p' \<and> mgr_inv E (set_row rid row m) p' (filter (\<lambda>b. b \<notin> set hits) fl) \<and>
    same_config p p' \<and> (\<forall>c. c \<noteq> Blk 0 \<and> fresh p c \<longrightarrow> fresh p' c) \<and> (\<forall>c. bhash p' c = bhash p c \<and> refc p c \<le> refc p' c)"
proof -
  have inv: "pool_inv p fl" using assms(1) by (simp add: mgr_inv_def)
  have ok: "row_ok p hits" "row_ok p row" using assms(3) row_ok_nulls by (auto simp: hits_ok_def row_def)
  obtain p' where p': "touch hits p = Inr p'" "pool_inv p' (filter (\<lambda>b. b \<notin> set hits) fl)" "same_config p p'"
    "\<forall>c. refc p' c = refc p c + int (count_list hits c)" "\<forall>c. bhash p' c = bhash p c"
    using touch_law [OF inv, of hits] ok(1) by (auto simp: row_ok_def)
  have "mgr_inv E (set_row rid row m) p' (filter (\<lambda>b. b \<notin> set hits) fl)"
  proof (rule mgr_inv_set_row [OF assms(1) p'(2,3) ok(2)])
    fix b assume "b \<in> usable p"
    hence "b \<noteq> Blk 0" by auto
    thus "refc p' b + int (count_list (row_of m rid) b) = refc p b + int (count_list row b)"
      using p'(4) assms(2) by (simp add: row_def count_list_nulls)
  qed
  moreover have "fresh p' c" if "c \<noteq> Blk 0" "fresh p c" for c
  proof -
    have "c \<notin> set hits" using that assms(3,4) by (auto simp: hits_ok_def fresh_def)
    hence "refc p' c = refc p c" using p'(4) by (simp add: count_list_0_iff)
    thus ?thesis using that(2) fresh_config [OF p'(3)] p'(5) by blast
  qed
  moreover have "\<forall>c. bhash p' c = bhash p c \<and> refc p c \<le> refc p' c" using p'(4,5) by simp
  ultimately show ?thesis using p'(1,3) by (intro exI [of _ p'] conjI) blast+
qed

lemma computed_unfold:
  fixes loc ext :: int
  assumes "map_of (num_cached_block m) rid = None" "row_of m rid = []" "mgr_enable_caching m \<or> hits = []"
  defines "k \<equiv> nat (get_num_skipped_tokens m (loc + ext) div mgr_block_size m)"
  shows "base_allocate_new_computed_blocks rid hits loc ext (m, p) =
    bindE (touch (drop k hits) p) (\<lambda>p1.
      let row = adopted_row m hits (loc + ext);
          m1 = set_row rid row (m\<lparr>num_cached_block := AList.update rid (length row) (num_cached_block m)\<rparr>)
      in if adopted_external m (loc + ext) ext > 0
         then bindE (get_new_blocks (cdiv (loc + ext) (mgr_block_size m) - int (length row)) p1)
                (\<lambda>(bs, p2). Inr (add_new_ids p2 bs (set_row rid (row @ bs) m1), p2))
         else Inr (m1, p1))"
proof -
  let ?sk = "get_num_skipped_tokens m (loc + ext) div mgr_block_size m"
  have drop: "(if ?sk > 0 then drop (nat ?sk) hits else hits) = drop (nat ?sk) hits" by simp
  have touch: "(if mgr_enable_caching m then touch (drop (nat ?sk) hits) p
      else bindE (guardE (drop (nat ?sk) hits = []) AssertionError) (\<lambda>_. Inr p)) = touch (drop (nat ?sk) hits) p"
    using assms(3) by (auto simp: touch_def)
  show ?thesis
    unfolding base_allocate_new_computed_blocks_def Let_def prod.case drop touch k_def adopted_row_def
      adopted_external_def assms(1,2) by simp
qed

lemma computed_ok:
  fixes loc ext :: int
  assumes "mgr_inv E m p fl" "map_of (num_cached_block m) rid = None" "row_of m rid = []" "hits_ok p hits"
    and "hits = [] \<or> enable_caching p" "hits = [] \<or> mgr_enable_caching m"
  defines "row \<equiv> adopted_row m hits (loc + ext)"
  defines "n \<equiv> cdiv (loc + ext) (mgr_block_size m) - int (length row)"
  defines "rest \<equiv> filter (\<lambda>b. b \<notin> set row) fl"
  assumes "adopted_external m (loc + ext) ext > 0 \<Longrightarrow> 0 \<le> n \<and> n \<le> int (length rest)"
  shows "\<exists>m' p' fl' bs. base_allocate_new_computed_blocks rid hits loc ext (m, p) = Inr (m', p') \<and>
    op_ok E rid m p fl m' p' fl' \<and> row_of m' rid = row @ bs \<and> rest = bs @ fl' \<and>
    int (length bs) = (if adopted_external m (loc + ext) ext > 0 then n else 0) \<and>
    cached_count m' rid = length row \<and>
    (\<not> adopted_external m (loc + ext) ext > 0 \<longrightarrow> (\<forall>c. bhash p' c = bhash p c \<and> refc p c \<le> refc p' c))"
proof -
  let ?k = "nat (get_num_skipped_tokens m (loc + ext) div mgr_block_size m)"
  let ?comp = "drop ?k hits" and ?ext = "adopted_external m (loc + ext) ext"
  have nb: "mgr_null m = Blk 0" using assms(1) by (simp add: mgr_inv_def)
  have row: "row = replicate ?k (Blk 0) @ ?comp" by (simp add: row_def adopted_row_def Let_def nb)
  have free: "Blk 0 \<notin> set fl" using assms(1) by (auto simp: mgr_inv_def pool_inv_def counts_ok_def)
  hence rest: "rest = filter (\<lambda>b. b \<notin> set ?comp) fl" unfolding rest_def row by (intro filter_cong) auto
  obtain p1 where p1: "touch ?comp p = Inr p1" "mgr_inv E (set_row rid row m) p1 rest" "same_config p p1"
    "\<forall>c. c \<noteq> Blk 0 \<and> fresh p c \<longrightarrow> fresh p1 c" "\<forall>c. bhash p1 c = bhash p c \<and> refc p c \<le> refc p1 c"
    using adopt_touch [OF assms(1,3) hits_ok_drop [OF assms(4), of ?k], of ?k] assms(5) unfolding row rest by auto
  define m1 where "m1 = set_row rid row (m\<lparr>num_cached_block := AList.update rid (length row) (num_cached_block m)\<rparr>)"
  have m1: "mgr_inv E m1 p1 rest" "row_of m1 rid = row" "cached_count m1 rid = length row" "only_row rid m m1"
    "\<And>r. r \<noteq> rid \<Longrightarrow> cached_count m1 r = cached_count m r"
    using p1(2) mgr_inv_cong [of m1 "set_row rid row m" E p1 rest] by (simp_all add: m1_def only_row_def)
  have run: "base_allocate_new_computed_blocks rid hits loc ext (m, p) =
      (if ?ext > 0 then bindE (get_new_blocks n p1) (\<lambda>(bs, p2). Inr (add_new_ids p2 bs (set_row rid (row @ bs) m1), p2))
       else Inr (m1, p1))"
    using computed_unfold [OF assms(2,3), of hits loc ext p] assms(6) p1(1)
    by (auto simp: Let_def m1_def n_def row_def)
  show ?thesis
  proof (cases "?ext > 0")
    case False
    have "op_ok E rid m p fl m1 p1 rest" using m1 p1(3,4) by (auto simp: op_ok_def tail_blocks_def)
    thus ?thesis using run False m1 p1(5) by (intro exI [of _ m1] exI [of _ p1] exI [of _ rest] exI [of _ "[]"]) simp
  next
    case True
    let ?bs = "take (nat n) rest"
    obtain p2 where p2: "get_new_blocks n p1 = Inr (?bs, p2)"
      "mgr_inv E (set_row rid (row @ ?bs) m1) p2 (drop (nat n) rest)" "same_config p1 p2"
      "\<forall>c. refc p2 c = (if c \<in> set ?bs then 1 else refc p1 c)"
      "\<forall>c. bhash p2 c = (if c \<in> set ?bs \<and> enable_caching p1 then None else bhash p1 c)"
      using append_new_law [OF m1(1), of n rid] assms(10) True m1(2) by auto
    let ?m = "add_new_ids p2 ?bs (set_row rid (row @ ?bs) m1)"
    have ec: "enable_caching p2 = enable_caching p1" using p2(3) by (simp add: same_config_def)
    have old: "fresh p2 c" if "fresh p1 c" for c using that p2(4,5) ec by (simp add: fresh_def)
    have new: "fresh p2 c" if "c \<in> set ?bs" for c using that p2(4,5) ec by (simp add: fresh_def)
    have tail: "tail_blocks ?m rid \<subseteq> set ?bs" using m1(3) by (auto simp: tail_blocks_def)
    have "op_ok E rid m p fl ?m p2 (drop (nat n) rest)"
      using m1(4,5) p2(2) same_config_trans [OF p1(3) p2(3)] p1(4) old new tail
      by (auto simp: op_ok_def only_row_def)
    moreover have "int (length ?bs) = n" using assms(10) True by (auto simp: min_def)
    ultimately show ?thesis using run True p2(1) m1(3)
      by (intro exI [of _ ?m] exI [of _ p2] exI [of _ "drop (nat n) rest"] exI [of _ ?bs]) simp
  qed
qed

text \<open>Caching the full blocks of a request.\<close>

lemma to_cache_distinct:
  "distinct (filter (\<lambda>b. b \<noteq> Blk 0) (map snd ibs)) \<Longrightarrow> distinct (map snd (to_cache msk ibs))"
proof (induction ibs)
  case (Cons ib ibs)
  have "set (map snd (to_cache msk ibs)) \<subseteq> set (filter (\<lambda>b. b \<noteq> Blk 0) (map snd ibs))"
    by (auto simp: to_cache_def)
  thus ?case using Cons by (cases ib) (auto simp: to_cache_def split: if_splits)
qed (simp add: to_cache_def)

lemma enumerate_mem: "(i, b) \<in> set (enumerate 0 xs) \<Longrightarrow> b \<in> set xs \<and> i < length xs"
  by (auto simp: in_set_enumerate_eq)

lemma distinct_filter_drop_take:
  "distinct (filter P xs) \<Longrightarrow> distinct (filter P (take i (drop j xs)))"
  by (metis append_take_drop_id distinct_append filter_append)

lemma sliding_block_mask_length:
  "sliding_block_mask s f al bs w eg ret np = Inr (Some l) \<Longrightarrow> length l = f - s"
  by (auto simp: sliding_block_mask_def Let_def err_simps split: option.splits if_splits)

lemma reachable_block_mask_length:
  assumes "reachable_block_mask m s f ret np = Inr msk"
  shows "case msk of None \<Rightarrow> True | Some l \<Rightarrow> length l = f - s"
  using assms by (auto simp: reachable_block_mask_def dest: sliding_block_mask_length split: if_splits option.splits)

lemma sliding_block_mask_total:
  "al mod bs = 0 \<Longrightarrow> \<exists>msk. sliding_block_mask s f (Some al) bs w eg ret np = Inr msk"
  by (cases ret) (simp_all add: sliding_block_mask_def Let_def)

lemma reachable_block_mask_total:
  assumes "mgr_class m = SlidingWindowManager \<longrightarrow> scheduler_block_size m mod block_size_of (mgr_spec m) = 0"
  shows "\<exists>msk. reachable_block_mask m s f ret np = Inr msk"
  using assms sliding_block_mask_total by (simp add: reachable_block_mask_def)

lemma cache_row_law:
  assumes "mgr_inv E m p fl" "enable_caching p" "0 \<le> g" "g < 2 ^ 32" "nf \<le> length (row_of m rid)"
    and "nf \<le> length (block_hashes r)" "\<forall>b \<in> tail_blocks m rid. fresh p b"
    and "case msk of None \<Rightarrow> True | Some l \<Rightarrow> length l = nf - cached_count m rid"
  shows "\<exists>p' r'. cache_full_blocks eh r (row_of m rid) (cached_count m rid) nf (hash_block_size p) g msk p = Inr (p', r') \<and>
    pool_inv p' fl \<and> same_config p p' \<and> (\<forall>c. refc p' c = refc p c) \<and>
    (\<forall>c. c \<notin> set (take nf (row_of m rid)) \<or> c = Blk 0 \<longrightarrow> bhash p' c = bhash p c)"
proof -
  let ?row = "row_of m rid" and ?nc = "cached_count m rid"
  define sel where "sel = to_cache msk (enumerate 0 (take (nf - ?nc) (drop ?nc ?row)))"
  let ?hs = "drop ?nc (block_hashes r)"
  have inv: "pool_inv p fl" and valid: "\<forall>b \<in> set ?row. valid_block p b"
    and dist: "distinct (filter (\<lambda>b. b \<noteq> Blk 0) ?row)"
    using assms(1) row_release [OF assms(1), of rid] by (simp_all add: mgr_inv_def)
  have dsel: "distinct (map snd sel)"
    unfolding sel_def using distinct_filter_drop_take [OF dist] by (intro to_cache_distinct) simp
  have sel: "b \<in> set (take (nf - ?nc) (drop ?nc ?row)) \<and> b \<noteq> Blk 0 \<and> i < nf - ?nc" if "(i, b) \<in> set sel" for i b
    using enumerate_mem [of i b "take (nf - ?nc) (drop ?nc ?row)"] that assms(5) by (auto simp: sel_def to_cache_def)
  have ok: "\<forall>(i, b) \<in> set sel. bhash p b = None \<and> i < length ?hs"
  proof clarify
    fix i b assume "(i, b) \<in> set sel"
    note ib = sel [OF this]
    hence "b \<in> tail_blocks m rid" by (auto simp: tail_blocks_def dest: in_set_takeD)
    thus "bhash p b = None \<and> i < length ?hs" using assms(2,6,7) ib by (auto simp: fresh_def)
  qed
  have parent: "\<exists>x. hash_at (?nc - 1) (Plain (block_hashes r)) = Inr x" if "0 < ?nc" "?nc < nf"
    using that assms(6) py_index_nonneg [of "?nc - 1" "block_hashes r"] by (simp add: hash_at_def)
  show ?thesis
  proof (cases "nf \<le> ?nc")
    case True
    thus ?thesis using inv by (simp add: cache_full_blocks_def)
  next
    case False
    obtain p' r' where p': "cache_full_blocks eh r ?row ?nc nf (hash_block_size p) g msk p = Inr (p', r')"
      "pool_inv p' fl" "same_config p p'" "\<forall>c. refc p' c = refc p c"
      "\<forall>c. c \<notin> snd ` set sel \<longrightarrow> bhash p' c = bhash p c"
      using cache_full_blocks_law [where p = p and fl = fl and g = g and blocks = ?row and nf = nf and nc = ?nc
          and msk = msk and bs = "hash_block_size p" and hl = "Plain (block_hashes r)" and hs = ?hs and r = r and eh = eh]
        inv assms(3-6,8) valid dsel ok parent False
      unfolding sel_def [symmetric] by (auto simp: hashes_at_size_def hashes_from_def)
    have sub: "snd ` set sel \<subseteq> set (take nf ?row) - {Blk 0}"
    proof clarify
      fix i b assume "(i, b) \<in> set sel"
      from sel [OF this] show "snd (i, b) \<in> set (take nf ?row) - {Blk 0}"
        by (auto simp: take_drop dest: in_set_dropD)
    qed
    have "bhash p' c = bhash p c" if "c \<notin> set (take nf ?row) \<or> c = Blk 0" for c
      using that sub p'(5) by blast
    thus ?thesis using p'(1-4) by blast
  qed
qed

lemma cache_ok:
  assumes "mgr_inv E m p fl" "enable_caching p" "0 \<le> kv_cache_group_id m" "kv_cache_group_id m < 2 ^ 32"
    and "mgr_block_size m = hash_block_size p"
    and "nat (ntok div mgr_block_size m) \<le> length (row_of m (request_id r))"
    and "nat (ntok div mgr_block_size m) \<le> length (block_hashes r)" "\<forall>b \<in> tail_blocks m (request_id r). fresh p b"
    and "mgr_class m = SlidingWindowManager \<longrightarrow> scheduler_block_size m mod block_size_of (mgr_spec m) = 0"
  shows "\<exists>m' p' r'. base_cache_blocks eh r ntok ret (m, p) = Inr ((m', p'), r') \<and>
    op_ok E (request_id r) m p fl m' p' fl \<and> row_of m' (request_id r) = row_of m (request_id r) \<and>
    cached_count m' (request_id r) = max (cached_count m (request_id r)) (nat (ntok div mgr_block_size m))"
proof -
  define rid where "rid = request_id r"
  define nf where "nf = nat (ntok div mgr_block_size m)"
  let ?nc = "cached_count m rid"
  show ?thesis
  proof (cases "nf \<le> ?nc")
    case True
    hence "base_cache_blocks eh r ntok ret (m, p) = Inr ((m, p), r)"
      by (simp add: base_cache_blocks_def nf_def rid_def)
    thus ?thesis using assms(1,8) True by (auto simp: op_ok_def nf_def rid_def max_def)
  next
    case False
    obtain msk where msk: "reachable_block_mask m ?nc nf ret (Some (num_prompt_tokens r)) = Inr msk"
      using reachable_block_mask_total [of m ?nc nf ret "Some (num_prompt_tokens r)"] assms(9) by blast
    obtain p' r' where p': "cache_full_blocks eh r (row_of m rid) ?nc nf (hash_block_size p) (kv_cache_group_id m) msk p = Inr (p', r')"
      "pool_inv p' fl" "same_config p p'" "\<forall>c. refc p' c = refc p c"
      "\<forall>c. c \<notin> set (take nf (row_of m rid)) \<or> c = Blk 0 \<longrightarrow> bhash p' c = bhash p c"
      using cache_row_law [OF assms(1-4) assms(6-8) [folded rid_def nf_def] reachable_block_mask_length [OF msk], of eh] by blast
    let ?m = "(ensure_row rid m)\<lparr>num_cached_block := AList.update rid nf (num_cached_block m)\<rparr>"
    have run: "base_cache_blocks eh r ntok ret (m, p) = Inr ((?m, p'), r')"
      using False msk p'(1) unfolding base_cache_blocks_def Let_def prod.case rid_def [symmetric] nf_def [symmetric]
        assms(5) [symmetric] by simp
    have count: "cached_count ?m q = (if q = rid then nf else cached_count m q)" for q
      by (simp add: cached_count_def update_conv')
    have "mgr_inv E m p' fl"
      using assms(1) p'(2,4) row_ok_config [OF p'(3)] same_config_usable [OF p'(3)] by (simp add: mgr_inv_def)
    hence inv: "mgr_inv E ?m p' fl" by simp
    have keep: "fresh p' c" if "fresh p c" "c \<notin> set (take nf (row_of m rid)) \<or> c = Blk 0" for c
      using that p'(4,5) fresh_config [OF p'(3)] by blast
    have "fresh p' b" if "b \<in> tail_blocks ?m rid" for b
    proof -
      have b: "b \<in> set (drop nf (row_of m rid))" "b \<noteq> Blk 0" using that count by (auto simp: tail_blocks_def)
      hence t: "b \<in> tail_blocks m rid"
        using False set_drop_subset_set_drop [of ?nc nf "row_of m rid"] by (auto simp: tail_blocks_def)
      have "count_list (row_of m rid) b = 1"
        using count_row_1 [OF assms(1) _ b(2)] tail_blocks_in_row [OF t] by blast
      hence "b \<notin> set (take nf (row_of m rid))"
        using b(1) count_list_append [of "take nf (row_of m rid)" "drop nf (row_of m rid)" b]
        by (simp add: count_list_0_iff) (metis One_nat_def add_is_1 count_list_0_iff)
      thus ?thesis using keep assms(8) t by (simp add: rid_def)
    qed
    hence "op_ok E rid m p fl ?m p' fl"
      using inv p'(3) count keep by (auto simp: op_ok_def only_row_def dest: in_set_takeD)
    thus ?thesis using run count False by (auto simp: rid_def nf_def)
  qed
qed

end
