(* ===== verification/Coordinator_Invariant.thy ===== *)
theory Coordinator_Invariant
  imports Manager_Steps Kv_Cache_Manager
begin

text \<open>
  The managers of all groups over one pool. The reference count of a block is the number of times the
  rows of all managers hold it, and the blocks a row has not handed to the prefix cache are fresh. One
  manager operation on one request keeps this (\<open>coord_update\<close>); the loops of the coordinator are runs of
  such operations (\<open>each_manager_run\<close>).
\<close>

section \<open>The invariant\<close>

definition held_all :: "kv_manager list \<Rightarrow> bref \<Rightarrow> int" where
  "held_all ms b = (\<Sum>m\<leftarrow>ms. int (held (req_to_blocks m) b))"

definition rows_ok :: "block_pool \<Rightarrow> kv_manager \<Rightarrow> bool" where
  "rows_ok p m \<longleftrightarrow> mgr_null m = Blk 0 \<and> distinct (map fst (req_to_blocks m)) \<and> (\<forall>r. row_ok p (row_of m r))"

definition tails_fresh :: "kv_manager list \<Rightarrow> block_pool \<Rightarrow> bool" where
  "tails_fresh ms p \<longleftrightarrow> (\<forall>m \<in> set ms. \<forall>r. \<forall>b \<in> tail_blocks m r. fresh p b)"

definition coord_inv :: "kv_manager list \<Rightarrow> block_pool \<Rightarrow> bref list \<Rightarrow> bool" where
  "coord_inv ms p fl \<longleftrightarrow> pool_inv p fl \<and> (\<forall>m \<in> set ms. rows_ok p m) \<and>
     (\<forall>b \<in> usable p. refc p b = held_all ms b) \<and> tails_fresh ms p"

lemma held_all_simps [simp]:
  "held_all [] b = 0" "held_all (m # ms) b = int (held (req_to_blocks m) b) + held_all ms b"
  "held_all (xs @ ys) b = held_all xs b + held_all ys b"
  by (simp_all add: held_all_def)

lemma held_all_nonneg [simp]: "0 \<le> held_all ms b"
  by (induction ms) simp_all

lemma held_all_ge: "m \<in> set ms \<Longrightarrow> int (held (req_to_blocks m) b) \<le> held_all ms b"
proof (induction ms)
  case (Cons a ms)
  thus ?case using held_all_nonneg [of ms b] by (auto intro: order_trans)
qed simp

definition others :: "kv_manager list \<Rightarrow> kv_manager list \<Rightarrow> bref \<Rightarrow> int" where
  "others xs ys b = held_all xs b + held_all ys b"

lemma coord_inv_mgr:
  assumes "coord_inv (xs @ m # ys) p fl"
  shows "mgr_inv (others xs ys) m p fl"
  using assms by (auto simp: coord_inv_def mgr_inv_def rows_ok_def others_def)

section \<open>One operation of one manager\<close>

lemma elem_le_sum_list_mem: "x \<in> set xs \<Longrightarrow> f x \<le> (sum_list (map f xs) :: nat)"
  by (induction xs) auto

lemma held_ge_row: "count_list (row_in rows r) b \<le> held rows b"
proof (cases "map_of rows r")
  case (Some bs)
  hence "(r, bs) \<in> set rows" by (rule map_of_SomeD)
  hence "count_list bs b \<le> held rows b"
    using elem_le_sum_list_mem [of "(r, bs)" rows "\<lambda>e. count_list (snd e) b"] by (simp add: held_def)
  thus ?thesis using Some by (simp add: row_in_def)
qed (simp add: row_in_def)

lemma held_two_rows:
  assumes "distinct (map fst rows)" "r \<noteq> q"
  shows "count_list (row_in rows r) b + count_list (row_in rows q) b \<le> held rows b"
  using held_delete [OF assms(1), of r b] held_ge_row [of "AList.delete r rows" q b] assms(2) by simp

text \<open>A fresh block lies in one row only: not in another row of its manager, not in another manager.\<close>

lemma fresh_one_row:
  assumes "coord_inv ms p fl" "m \<in> set ms" "b \<in> set (row_of m r)" "b \<noteq> Blk 0" "fresh p b" "r \<noteq> q"
  shows "b \<notin> set (row_of m q)"
proof
  assume "b \<in> set (row_of m q)"
  hence "2 \<le> count_list (row_of m r) b + count_list (row_of m q) b"
    using assms(3) count_list_0_iff [of "row_of m r" b] count_list_0_iff [of "row_of m q" b] by linarith
  hence "2 \<le> held (req_to_blocks m) b"
    using held_two_rows [of "req_to_blocks m" r q b] assms(1,2,6) by (auto simp: coord_inv_def rows_ok_def row_of_row_in)
  moreover have "b \<in> usable p" using assms(1-4) by (auto simp: coord_inv_def rows_ok_def row_ok_def valid_block_def)
  ultimately show False using assms(1,5) held_all_ge [OF assms(2), of b] by (auto simp: coord_inv_def fresh_def)
qed

lemma held_pos: "b \<in> set (row_of m r) \<Longrightarrow> 1 \<le> held (req_to_blocks m) b"
  using held_ge_row [of "req_to_blocks m" r b] count_list_0_iff [of "row_of m r" b] by (simp add: row_of_row_in)

lemma fresh_one_manager:
  assumes "coord_inv (xs @ m # ys) p fl" "m' \<in> set xs \<union> set ys" "b \<in> set (row_of m' r)" "b \<noteq> Blk 0" "fresh p b"
  shows "b \<notin> set (row_of m q)"
proof
  assume b: "b \<in> set (row_of m q)"
  have "1 \<le> int (held (req_to_blocks m') b)" using held_pos [OF assms(3)] by simp
  moreover have "int (held (req_to_blocks m') b) \<le> held_all (xs @ ys) b" using assms(2) by (intro held_all_ge) simp
  ultimately have "1 \<le> held_all xs b + held_all ys b" by simp
  moreover have "b \<in> usable p" using assms(1,4) b by (auto simp: coord_inv_def rows_ok_def row_ok_def valid_block_def)
  hence "refc p b = held_all xs b + int (held (req_to_blocks m) b) + held_all ys b"
    using assms(1) by (auto simp: coord_inv_def)
  ultimately show False using held_pos [OF b] assms(5) by (auto simp: fresh_def)
qed

lemma row_usable: "coord_inv ms p fl \<Longrightarrow> m \<in> set ms \<Longrightarrow> b \<in> set (row_of m r) \<Longrightarrow> b \<noteq> Blk 0 \<Longrightarrow> b \<in> usable p"
  by (auto simp: coord_inv_def rows_ok_def row_ok_def valid_block_def)

lemma fresh_not_free: "coord_inv ms p fl \<Longrightarrow> fresh p b \<Longrightarrow> b \<notin> set fl"
  by (auto simp: coord_inv_def pool_inv_def counts_ok_def fresh_def)

lemma coord_update:
  assumes "coord_inv (xs @ m # ys) p fl" "op_ok (others xs ys) rid m p fl m' p' fl'"
  shows "coord_inv (xs @ m' # ys) p' fl'"
proof -
  have op: "mgr_inv (others xs ys) m' p' fl'" "only_row rid m m'" "same_config p p'"
    "\<And>r. r \<noteq> rid \<Longrightarrow> cached_count m' r = cached_count m r"
    and keep: "\<And>c. c \<noteq> Blk 0 \<Longrightarrow> c \<notin> set (row_of m rid) \<Longrightarrow> c \<notin> set fl \<Longrightarrow> fresh p c \<Longrightarrow> fresh p' c"
    and own: "(\<forall>b \<in> tail_blocks m rid. fresh p b) \<longrightarrow> (\<forall>b \<in> tail_blocks m' rid. fresh p' b)"
    using assms(2) by (auto simp: op_ok_def)
  have us: "usable p' = usable p" by (rule same_config_usable [OF op(3)])
  have tails: "fresh p b" if "a \<in> set (xs @ m # ys)" "b \<in> tail_blocks a r" for a r b
    using assms(1) that unfolding coord_inv_def tails_fresh_def by blast
  have other: "fresh p' b" if "a \<in> set xs \<union> set ys" "b \<in> tail_blocks a r" for a r b
  proof -
    note t = tail_blocks_in_row [OF that(2)]
    have f: "fresh p b" using tails [of a b r] that by auto
    show ?thesis using keep [of b] t f fresh_one_manager [OF assms(1) that(1), of b r rid] fresh_not_free [OF assms(1) f]
      by blast
  qed
  have mine: "fresh p' b" if "b \<in> tail_blocks m' r" for r b
  proof (cases "r = rid")
    case True
    thus ?thesis using own tails [of m _ rid] that by auto
  next
    case False
    hence t: "b \<in> tail_blocks m r" using that op(2) op(4) [OF False] by (simp add: tail_blocks_def only_row_def)
    have f: "fresh p b" using tails [of m b r] t by auto
    show ?thesis
      using keep [of b] tail_blocks_in_row [OF t] f fresh_one_row [OF assms(1), of m b r rid] False
        fresh_not_free [OF assms(1) f] by auto
  qed
  have "rows_ok p' a" if "a \<in> set (xs @ m' # ys)" for a
    using that op(1) assms(1) row_ok_config [OF op(3)] by (auto simp: coord_inv_def rows_ok_def mgr_inv_def)
  moreover have "refc p' b = held_all (xs @ m' # ys) b" if "b \<in> usable p'" for b
    using op(1) that by (auto simp: mgr_inv_def others_def)
  moreover have "tails_fresh (xs @ m' # ys) p'" using other mine by (auto simp: tails_fresh_def)
  ultimately show ?thesis using op(1) by (auto simp: coord_inv_def mgr_inv_def)
qed

section \<open>Runs over all managers\<close>

text \<open>
  The loop over the managers, for one request. \<open>I i ms p fl\<close> is what the remaining managers need at
  position \<open>i\<close>, \<open>R i m x m'\<close> relates a manager, its result and its new state.
\<close>

definition mgr_step ::
  "(nat \<Rightarrow> kv_manager list \<Rightarrow> block_pool \<Rightarrow> bref list \<Rightarrow> bool) \<Rightarrow>
   (nat \<Rightarrow> kv_manager \<times> block_pool \<Rightarrow> ('a \<times> kv_manager \<times> block_pool) res) \<Rightarrow> string \<Rightarrow>
   (nat \<Rightarrow> kv_manager \<Rightarrow> 'a \<Rightarrow> kv_manager \<Rightarrow> bool) \<Rightarrow> bool" where
  "mgr_step I f rid R \<longleftrightarrow> (\<forall>i xs m ms p fl. coord_inv (xs @ m # ms) p fl \<and> I i (m # ms) p fl \<longrightarrow>
     (\<exists>x m' p' fl'. f i (m, p) = Inr (x, m', p') \<and> op_ok (others xs ms) rid m p fl m' p' fl' \<and> R i m x m' \<and>
        I (Suc i) ms p' fl'))"

lemma each_manager_run:
  assumes step: "mgr_step I f rid R"
    and "coord_inv (xs @ ms) p fl" "I i ms p fl"
  shows "\<exists>rs ms' p' fl'. each_manager f i ms p = Inr (rs, ms', p') \<and> coord_inv (xs @ ms') p' fl' \<and> same_config p p' \<and>
    length rs = length ms \<and> length ms' = length ms \<and> I (i + length ms) [] p' fl' \<and>
    (\<forall>j < length ms. only_row rid (ms ! j) (ms' ! j) \<and> R (i + j) (ms ! j) (rs ! j) (ms' ! j))"
  using assms(2,3)
proof (induction ms arbitrary: xs p fl i)
  case (Cons m ms)
  obtain x m' p' fl' where m': "f i (m, p) = Inr (x, m', p')" "op_ok (others xs ms) rid m p fl m' p' fl'" "R i m x m'"
    "I (Suc i) ms p' fl'" using step Cons.prems unfolding mgr_step_def by blast
  have "coord_inv ((xs @ [m']) @ ms) p' fl'" using coord_update [OF Cons.prems(1) m'(2)] by simp
  from Cons.IH [OF this m'(4)] obtain rs ms' p'' fl'' where r: "each_manager f (Suc i) ms p' = Inr (rs, ms', p'')"
    "coord_inv ((xs @ [m']) @ ms') p'' fl''" "same_config p' p''" "length rs = length ms" "length ms' = length ms"
    "I (Suc i + length ms) [] p'' fl''"
    "\<forall>j < length ms. only_row rid (ms ! j) (ms' ! j) \<and> R (Suc i + j) (ms ! j) (rs ! j) (ms' ! j)" by blast
  have op: "only_row rid m m'" "same_config p p'" using m'(2) by (simp_all add: op_ok_def)
  have "\<forall>j < length (m # ms). only_row rid ((m # ms) ! j) ((m' # ms') ! j) \<and>
      R (i + j) ((m # ms) ! j) ((x # rs) ! j) ((m' # ms') ! j)"
    using r(7) m'(3) op(1) by (auto simp: less_Suc_eq_0_disj)
  thus ?case using m'(1) r same_config_trans [OF op(2) r(3)]
    by (intro exI [of _ "x # rs"] exI [of _ "m' # ms'"] exI [of _ p''] exI [of _ fl'']) simp
qed auto

text \<open>What the coordinator needs of the configuration; no operation on a request changes it.\<close>

definition attn_class :: "manager_class \<Rightarrow> bool" where
  "attn_class c \<longleftrightarrow> c \<in> {FullAttentionManager, SlidingWindowManager, ChunkedLocalAttentionManager}"

definition mgr_wf :: "block_pool \<Rightarrow> kv_manager \<Rightarrow> bool" where
  "mgr_wf p m \<longleftrightarrow> attn_class (mgr_class m) \<and> 0 < mgr_block_size m \<and> 0 \<le> kv_cache_group_id m \<and>
     kv_cache_group_id m < 2 ^ 32 \<and> mgr_enable_caching m = enable_caching p \<and>
     (enable_caching p \<longrightarrow> mgr_block_size m = hash_block_size p) \<and>
     (mgr_class m = SlidingWindowManager \<longrightarrow> scheduler_block_size m mod block_size_of (mgr_spec m) = 0)"

lemma mgr_wf_keep: "mgr_config m' = mgr_config m \<Longrightarrow> same_config p p' \<Longrightarrow> mgr_wf p' m' = mgr_wf p m"
  by (simp add: mgr_wf_def mgr_config_def same_config_def)

lemma mgr_wf_run:
  assumes "\<forall>m \<in> set ms. mgr_wf p m" "same_config p p'" "length ms' = length ms"
    and "\<forall>j < length ms. only_row rid (ms ! j) (ms' ! j)"
  shows "\<forall>m \<in> set ms'. mgr_wf p' m"
proof
  fix m assume "m \<in> set ms'"
  then obtain j where j: "j < length ms" "m = ms' ! j" using assms(3) by (metis in_set_conv_nth)
  have "mgr_wf p (ms ! j)" using assms(1) j(1) by simp
  thus "mgr_wf p' m" using mgr_wf_keep [of m "ms ! j" p p'] assms(2,4) j by (simp add: only_row_def)
qed

lemma attn_not_other [simp]: "attn_class c \<Longrightarrow> c \<noteq> MambaManager" "attn_class c \<Longrightarrow> c \<noteq> CrossAttentionManager"
  by (auto simp: attn_class_def)

lemma mgr_wf_class [simp]: "mgr_wf p m \<Longrightarrow> mgr_class m \<noteq> MambaManager" "mgr_wf p m \<Longrightarrow> mgr_class m \<noteq> CrossAttentionManager"
  by (auto simp: mgr_wf_def)

abbreviation all_wf :: "kv_manager list \<Rightarrow> block_pool \<Rightarrow> bool" where
  "all_wf ms p \<equiv> (\<forall>m \<in> set ms. mgr_wf p m)"

lemma all_wf_step: "op_ok E rid m p fl m' p' fl' \<Longrightarrow> all_wf (m # ms) p \<Longrightarrow> all_wf ms p'"
  using mgr_wf_keep [OF refl] by (auto simp: op_ok_def)

lemma free_run:
  assumes "coord_inv ms p fl" "all_wf ms p"
  shows "\<exists>rs p' fl'. each_manager (\<lambda>_ mp. with_unit (manager_free rid mp)) 0 ms p = Inr (rs, map (drop_request rid) ms, p') \<and>
    coord_inv (map (drop_request rid) ms) p' fl' \<and> same_config p p'"
proof -
  let ?f = "\<lambda>_ mp. with_unit (manager_free rid mp)"
  let ?I = "\<lambda>_ ms p _. all_wf ms p" and ?R = "\<lambda>_ m _ m'. m' = drop_request rid m"
  have "mgr_step ?I ?f rid ?R"
    unfolding mgr_step_def
  proof (intro allI impI, elim conjE)
    fix i :: nat and xs m ms p fl assume a: "coord_inv (xs @ m # ms) p fl" "all_wf (m # ms) p"
    have "mgr_class m \<noteq> MambaManager" using a(2) mgr_wf_class by auto
    then obtain p' fl' where f: "manager_free rid (m, p) = Inr (drop_request rid m, p')"
      "op_ok (others xs ms) rid m p fl (drop_request rid m) p' fl'"
      using free_ok [OF coord_inv_mgr [OF a(1)], of rid] by blast
    show "\<exists>x m' p' fl'. with_unit (manager_free rid (m, p)) = Inr (x, m', p') \<and> op_ok (others xs ms) rid m p fl m' p' fl' \<and>
        m' = drop_request rid m \<and> all_wf ms p'"
      using f all_wf_step [OF f(2) a(2)] by (intro exI conjI) (auto simp: with_unit_def)
  qed
  from each_manager_run [OF this, of "[]" ms p fl 0] assms
  obtain rs ms' p' fl' where r: "each_manager ?f 0 ms p = Inr (rs, ms', p')" "coord_inv ms' p' fl'" "same_config p p'"
    "length ms' = length ms" "\<forall>j < length ms. ms' ! j = drop_request rid (ms ! j)" by auto
  have "ms' = map (drop_request rid) ms" using r(4,5) by (simp add: list_eq_iff_nth_eq)
  thus ?thesis using r by auto
qed

text \<open>Removing the blocks outside the attention window.\<close>

definition skip_rel :: "string \<Rightarrow> int \<Rightarrow> kv_manager \<Rightarrow> kv_manager \<Rightarrow> bool" where
  "skip_rel rid tot m m' \<longleftrightarrow> length (row_of m' rid) = length (row_of m rid) \<and> num_cached_block m' = num_cached_block m \<and>
     (\<forall>i. row_of m' rid ! i = row_of m rid ! i \<or> row_of m' rid ! i = Blk 0) \<and>
     (\<forall>i. skipped_blocks m rid tot \<le> i \<and> i < length (row_of m rid) \<longrightarrow> row_of m' rid ! i = row_of m rid ! i)"

lemma remove_skipped_run:
  assumes "coord_inv ms p fl" "all_wf ms p"
  shows "\<exists>rs ms' p' fl'. each_manager (\<lambda>_ mp. with_unit (remove_skipped_blocks rid tot mp)) 0 ms p = Inr (rs, ms', p') \<and>
    coord_inv ms' p' fl' \<and> same_config p p' \<and> length ms' = length ms \<and> length fl \<le> length fl' \<and>
    (\<forall>c. bhash p' c = bhash p c) \<and> (\<forall>j < length ms. only_row rid (ms ! j) (ms' ! j) \<and> skip_rel rid tot (ms ! j) (ms' ! j))"
proof -
  let ?f = "\<lambda>_ mp. with_unit (remove_skipped_blocks rid tot mp)" and ?R = "\<lambda>_ m _ m'. skip_rel rid tot m m'"
  let ?I = "\<lambda>_ ms q ql. all_wf ms q \<and> length fl \<le> length ql \<and> (\<forall>c. bhash q c = bhash p c)"
  have "mgr_step ?I ?f rid ?R"
    unfolding mgr_step_def
  proof (intro allI impI, elim conjE)
    fix i :: nat and xs m ms q ql
    assume a: "coord_inv (xs @ m # ms) q ql" "all_wf (m # ms) q" "length fl \<le> length ql" "\<forall>c. bhash q c = bhash p c"
    have "mgr_class m \<noteq> MambaManager" using a(2) mgr_wf_class by auto
    hence eq: "remove_skipped_blocks rid tot (m, q) = base_remove_skipped_blocks rid tot (m, q)"
      by (simp add: remove_skipped_blocks_def)
    obtain m' q' ql' where f: "base_remove_skipped_blocks rid tot (m, q) = Inr (m', q')"
      "op_ok (others xs ms) rid m q ql m' q' ql'" "skip_rel rid tot m m'" "length ql \<le> length ql'" "\<forall>c. bhash q' c = bhash q c"
      using remove_skipped_ok [OF coord_inv_mgr [OF a(1)], of rid tot] unfolding skip_rel_def by blast
    show "\<exists>x m' p' fl'. with_unit (remove_skipped_blocks rid tot (m, q)) = Inr (x, m', p') \<and>
        op_ok (others xs ms) rid m q ql m' p' fl' \<and> skip_rel rid tot m m' \<and>
        all_wf ms p' \<and> length fl \<le> length fl' \<and> (\<forall>c. bhash p' c = bhash p c)"
      using f eq all_wf_step [OF f(2) a(2)] a(3,4)
      by (intro exI [of _ "()"] exI [of _ m'] exI [of _ q'] exI [of _ ql'] conjI) (auto simp: with_unit_def)
  qed
  from each_manager_run [OF this, of "[]" ms p fl 0] assms show ?thesis by auto
qed

text \<open>Allocation: each manager takes its share from the front of the free list.\<close>

definition slots_missing :: "int \<Rightarrow> string \<Rightarrow> kv_manager \<Rightarrow> int" where
  "slots_missing ntok rid m = max 0 (cdiv ntok (mgr_block_size m) - int (length (row_of m rid)))"

definition alloc_rel :: "int \<Rightarrow> string \<Rightarrow> kv_manager \<Rightarrow> bref list \<Rightarrow> kv_manager \<Rightarrow> bool" where
  "alloc_rel ntok rid m bs m' \<longleftrightarrow> row_of m' rid = row_of m rid @ bs \<and> num_cached_block m' = num_cached_block m \<and>
     int (length bs) = slots_missing ntok rid m"

lemma allocate_run:
  assumes "coord_inv ms p fl" "all_wf ms p" "(\<Sum>m\<leftarrow>ms. slots_missing ntok rid m) \<le> int (length fl)"
  shows "\<exists>rs ms' p' fl'. each_manager (\<lambda>_ mp.
      allocate_new_blocks rid (if mgr_class (fst mp) = CrossAttentionManager then enc else ntok) main mp) 0 ms p = Inr (rs, ms', p') \<and>
    coord_inv ms' p' fl' \<and> same_config p p' \<and> length rs = length ms \<and> length ms' = length ms \<and>
    (\<forall>j < length ms. only_row rid (ms ! j) (ms' ! j) \<and> alloc_rel ntok rid (ms ! j) (rs ! j) (ms' ! j))"
proof -
  let ?f = "\<lambda>_ mp. allocate_new_blocks rid (if mgr_class (fst mp) = CrossAttentionManager then enc else ntok) main mp"
  let ?R = "\<lambda>_ m bs m'. alloc_rel ntok rid m bs m'"
  let ?I = "\<lambda>_ ms q ql. all_wf ms q \<and> (\<Sum>m\<leftarrow>ms. slots_missing ntok rid m) \<le> int (length ql)"
  have "mgr_step ?I ?f rid ?R"
    unfolding mgr_step_def
  proof (intro allI impI, elim conjE)
    fix i :: nat and xs m ms q ql
    assume a: "coord_inv (xs @ m # ms) q ql" "all_wf (m # ms) q" "(\<Sum>m\<leftarrow>m # ms. slots_missing ntok rid m) \<le> int (length ql)"
    have c: "mgr_class m \<noteq> MambaManager" "mgr_class m \<noteq> CrossAttentionManager" using a(2) mgr_wf_class by auto
    have "0 \<le> (\<Sum>m\<leftarrow>ms. slots_missing ntok rid m)" by (rule sum_list_nonneg) (auto simp: slots_missing_def)
    hence "cdiv ntok (mgr_block_size m) - int (length (row_of m rid)) \<le> int (length ql)"
      using a(3) by (auto simp: slots_missing_def)
    then obtain bs m' q' ql' where f: "base_allocate_new_blocks rid ntok (m, q) = Inr (bs, m', q')"
      "op_ok (others xs ms) rid m q ql m' q' ql'" "row_of m' rid = row_of m rid @ bs" "ql = bs @ ql'"
      "num_cached_block m' = num_cached_block m" "int (length bs) = slots_missing ntok rid m"
      using allocate_ok [OF coord_inv_mgr [OF a(1)], of ntok rid] unfolding slots_missing_def by blast
    show "\<exists>x m' p' fl'. allocate_new_blocks rid (if mgr_class (fst (m, q)) = CrossAttentionManager then enc else ntok) main (m, q) =
        Inr (x, m', p') \<and> op_ok (others xs ms) rid m q ql m' p' fl' \<and> alloc_rel ntok rid m x m' \<and>
        all_wf ms p' \<and> (\<Sum>m\<leftarrow>ms. slots_missing ntok rid m) \<le> int (length fl')"
      using f c all_wf_step [OF f(2) a(2)] a(3)
      by (intro exI [of _ bs] exI [of _ m'] exI [of _ q'] exI [of _ ql'] conjI) (auto simp: allocate_new_blocks_def alloc_rel_def Let_def)
  qed
  from each_manager_run [OF this, of "[]" ms p fl 0] assms show ?thesis by auto
qed

text \<open>Adopting prefix-cache hits, without external tokens.\<close>

definition skipped_of :: "kv_manager \<Rightarrow> int \<Rightarrow> int" where
  "skipped_of m tot = get_num_skipped_tokens m tot div mgr_block_size m"

definition evictable :: "block_pool \<Rightarrow> int \<Rightarrow> kv_manager \<Rightarrow> bref list \<Rightarrow> int" where
  "evictable p tot m hits = get_num_evictable_blocks p (drop (nat (skipped_of m tot)) hits)"

definition untracked :: "string \<Rightarrow> kv_manager \<Rightarrow> bool" where
  "untracked rid m \<longleftrightarrow> map_of (num_cached_block m) rid = None \<and> row_of m rid = []"

definition adopt_rel :: "string \<Rightarrow> int \<Rightarrow> kv_manager \<Rightarrow> bref list \<Rightarrow> kv_manager \<Rightarrow> bool" where
  "adopt_rel rid tot m hits m' \<longleftrightarrow> row_of m' rid = adopted_row m hits tot \<and> cached_count m' rid = length (row_of m' rid)"

lemma adopted_row_length: "int (length (adopted_row m hits tot)) = max (skipped_of m tot) (int (length hits))"
  by (auto simp: adopted_row_def skipped_of_def Let_def)

lemma free_hits_count:
  assumes "pool_inv p fl"
  shows "int (length fl) - get_num_evictable_blocks p hits \<le> int (length (filter (\<lambda>b. b \<notin> set hits) fl))"
proof -
  let ?P = "\<lambda>b. ref_cnt (pheap p b) = 0 \<and> \<not> is_null (pheap p b)"
  have fl: "distinct fl" "set fl \<subseteq> usable p" "\<And>b. b \<in> set fl \<Longrightarrow> refc p b = 0" "shape_ok p"
    using assms by (auto simp: pool_inv_def counts_ok_def dest: fq.rep_distinct)
  have "set (filter (\<lambda>b. b \<in> set hits) fl) \<subseteq> set (filter ?P hits)"
    using fl(2,3) usable_null [OF fl(4)] by auto
  hence "card (set (filter (\<lambda>b. b \<in> set hits) fl)) \<le> length (filter ?P hits)"
    by (meson List.finite_set card_length card_mono order_trans)
  hence "length (filter (\<lambda>b. b \<in> set hits) fl) \<le> length (filter ?P hits)"
    using fl(1) distinct_card [of "filter (\<lambda>b. b \<in> set hits) fl"] by simp
  thus ?thesis using sum_length_filter_compl [of "\<lambda>b. b \<in> set hits" fl] by (simp add: get_num_evictable_blocks_def)
qed

lemma evictable_mono:
  assumes "pool_inv p fl" "same_config p p'" "\<forall>c. refc p c \<le> refc p' c" "\<forall>b \<in> set hits. valid_block p b"
  shows "get_num_evictable_blocks p' hits \<le> get_num_evictable_blocks p hits"
proof -
  have "refc p b = 0 \<and> \<not> is_null (pheap p b)" if "b \<in> set hits" "refc p' b = 0" "\<not> is_null (pheap p' b)" for b
  proof -
    have n: "\<not> is_null (pheap p b)" using that(3) assms(2) by (simp add: same_config_def)
    hence "b \<in> usable p"
      using that(1) assms(1,4) valid_block_cases [of p b] by (auto simp: pool_inv_def)
    hence "0 \<le> refc p b" using assms(1) by (auto simp: pool_inv_def counts_ok_def)
    thus ?thesis using n assms(3) that(2) by (metis order_antisym)
  qed
  hence "length (filter (\<lambda>b. refc p' b = 0 \<and> \<not> is_null (pheap p' b)) hits) \<le>
      length (filter (\<lambda>b. refc p b = 0 \<and> \<not> is_null (pheap p b)) hits)"
    by (induction hits) auto
  thus ?thesis by (simp add: get_num_evictable_blocks_def)
qed

lemma hits_ok_keep: "hits_ok p hits \<Longrightarrow> same_config p p' \<Longrightarrow> \<forall>c. bhash p' c = bhash p c \<Longrightarrow> hits_ok p' hits"
  by (simp add: hits_ok_def row_ok_config)

lemma adopt_one:
  assumes "coord_inv (xs @ m # ys) p fl" "mgr_wf p m" "untracked rid m" "hits_ok p hits" "hits = [] \<or> enable_caching p"
  shows "\<exists>m' p' fl'. allocate_new_computed_blocks rid hits tot 0 (m, p) = Inr (m', p') \<and>
    op_ok (others xs ys) rid m p fl m' p' fl' \<and> adopt_rel rid tot m hits m' \<and>
    int (length fl) - evictable p tot m hits \<le> int (length fl') \<and> (\<forall>c. bhash p' c = bhash p c \<and> refc p c \<le> refc p' c)"
proof -
  let ?row = "adopted_row m hits tot"
  have inv: "mgr_inv (others xs ys) m p fl" "pool_inv p fl" "Blk 0 \<notin> set fl"
    using coord_inv_mgr [OF assms(1)] by (auto simp: mgr_inv_def pool_inv_def counts_ok_def)
  have u: "map_of (num_cached_block m) rid = None" "row_of m rid = []" using assms(3) by (simp_all add: untracked_def)
  have en: "hits = [] \<or> mgr_enable_caching m" using assms(2,5) by (auto simp: mgr_wf_def)
  have ext: "\<not> adopted_external m (tot + 0) 0 > 0" by (simp add: adopted_external_def)
  obtain m' p' fl' where c: "base_allocate_new_computed_blocks rid hits tot 0 (m, p) = Inr (m', p')"
    "op_ok (others xs ys) rid m p fl m' p' fl'" "row_of m' rid = ?row" "filter (\<lambda>b. b \<notin> set ?row) fl = fl'"
    "cached_count m' rid = length ?row" "\<forall>c. bhash p' c = bhash p c \<and> refc p c \<le> refc p' c"
    using computed_ok [OF inv(1) u assms(4,5) en, of tot 0] ext by auto
  have null: "mgr_null m = Blk 0" using inv(1) by (simp add: mgr_inv_def)
  have "filter (\<lambda>b. b \<notin> set ?row) fl = filter (\<lambda>b. b \<notin> set (drop (nat (skipped_of m tot)) hits)) fl"
    using inv(3) null by (intro filter_cong) (auto simp: adopted_row_def skipped_of_def Let_def)
  hence "int (length fl) - evictable p tot m hits \<le> int (length fl')"
    using free_hits_count [OF inv(2), of "drop (nat (skipped_of m tot)) hits"] c(4) by (simp add: evictable_def)
  thus ?thesis using c assms(2) mgr_wf_class(2) [OF assms(2)]
    by (auto simp: allocate_new_computed_blocks_def adopt_rel_def)
qed

definition adoptable :: "string \<Rightarrow> block_pool \<Rightarrow> kv_manager \<Rightarrow> bref list \<Rightarrow> bool" where
  "adoptable rid p m hits \<longleftrightarrow> untracked rid m \<and> hits_ok p hits \<and> (hits = [] \<or> enable_caching p)"

definition adopt_cost :: "block_pool \<Rightarrow> int \<Rightarrow> kv_manager list \<Rightarrow> bref list list \<Rightarrow> int" where
  "adopt_cost p tot ms hs = (\<Sum>(m, h)\<leftarrow>zip ms hs. evictable p tot m h)"

lemma adoptable_keep:
  "adoptable rid p m hits \<Longrightarrow> same_config p p' \<Longrightarrow> \<forall>c. bhash p' c = bhash p c \<Longrightarrow> adoptable rid p' m hits"
  using hits_ok_keep by (auto simp: adoptable_def same_config_def)

lemma adopt_cost_mono:
  assumes "pool_inv p fl" "same_config p p'" "\<forall>c. refc p c \<le> refc p' c" "list_all2 (adoptable rid p) ms hs"
  shows "adopt_cost p' tot ms hs \<le> adopt_cost p tot ms hs"
  using assms(4)
proof (induction ms hs rule: list_all2_induct)
  case (Cons m ms h hs)
  have "\<forall>b \<in> set (drop (nat (skipped_of m tot)) h). valid_block p b"
    using Cons(1) by (auto simp: adoptable_def hits_ok_def row_ok_def dest: in_set_dropD)
  hence "evictable p' tot m h \<le> evictable p tot m h"
    unfolding evictable_def by (rule evictable_mono [OF assms(1-3)])
  thus ?case using Cons(3) by (simp add: adopt_cost_def)
qed (simp add: adopt_cost_def)

lemma drop_step:
  assumes "list_all2 P (m # ms) (drop i hs)"
  obtains h where "py_index hs (int i) = Inr h" "hs ! i = h" "P m h" "list_all2 P ms (drop (Suc i) hs)" "drop i hs = h # drop (Suc i) hs"
proof -
  have l: "i < length hs" using list_all2_lengthD [OF assms] by (cases "i < length hs") simp_all
  hence "drop i hs = hs ! i # drop (Suc i) hs" by (rule Cons_nth_drop_Suc [symmetric])
  thus ?thesis using that [of "hs ! i"] assms l by simp
qed

lemma adopt_run:
  assumes "coord_inv ms p fl" "all_wf ms p" "list_all2 (adoptable rid p) ms hs" "N + adopt_cost p tot ms hs \<le> int (length fl)"
  shows "\<exists>rs ms' p' fl'. each_manager (\<lambda>i mp. bindE (py_index hs (int i)) (\<lambda>nc.
      with_unit (allocate_new_computed_blocks rid nc tot 0 mp))) 0 ms p = Inr (rs, ms', p') \<and>
    coord_inv ms' p' fl' \<and> same_config p p' \<and> length ms' = length ms \<and> N \<le> int (length fl') \<and>
    (\<forall>j < length ms. only_row rid (ms ! j) (ms' ! j) \<and> adopt_rel rid tot (ms ! j) (hs ! j) (ms' ! j))"
proof -
  let ?f = "\<lambda>i mp. bindE (py_index hs (int i)) (\<lambda>nc. with_unit (allocate_new_computed_blocks rid nc tot 0 mp))"
  let ?R = "\<lambda>i m _ m'. adopt_rel rid tot m (hs ! i) m'"
  let ?I = "\<lambda>i ms q ql. all_wf ms q \<and> list_all2 (adoptable rid q) ms (drop i hs) \<and>
    N + adopt_cost q tot ms (drop i hs) \<le> int (length ql)"
  have "mgr_step ?I ?f rid ?R"
    unfolding mgr_step_def
  proof (intro allI impI, elim conjE)
    fix i xs m ms q ql
    assume a: "coord_inv (xs @ m # ms) q ql" "all_wf (m # ms) q" "list_all2 (adoptable rid q) (m # ms) (drop i hs)"
      "N + adopt_cost q tot (m # ms) (drop i hs) \<le> int (length ql)"
    obtain h where h: "py_index hs (int i) = Inr h" "hs ! i = h" "adoptable rid q m h"
      "list_all2 (adoptable rid q) ms (drop (Suc i) hs)" "drop i hs = h # drop (Suc i) hs"
      using drop_step [OF a(3)] by metis
    obtain m' q' ql' where c: "allocate_new_computed_blocks rid h tot 0 (m, q) = Inr (m', q')"
      "op_ok (others xs ms) rid m q ql m' q' ql'" "adopt_rel rid tot m h m'"
      "int (length ql) - evictable q tot m h \<le> int (length ql')" "\<forall>c. bhash q' c = bhash q c \<and> refc q c \<le> refc q' c"
      using adopt_one [OF a(1), of rid h tot] a(2) h(3) by (auto simp: adoptable_def)
    have sc: "same_config q q'" and inv: "pool_inv q ql" using c(2) a(1) by (simp_all add: op_ok_def coord_inv_def)
    have "list_all2 (adoptable rid q') ms (drop (Suc i) hs)"
      using h(4) adoptable_keep [OF _ sc] c(5) by (auto elim: list_all2_mono)
    moreover have "adopt_cost q tot (m # ms) (drop i hs) = evictable q tot m h + adopt_cost q tot ms (drop (Suc i) hs)"
      by (simp add: h(5) adopt_cost_def)
    ultimately show "\<exists>x m' p' fl'. bindE (py_index hs (int i)) (\<lambda>nc. with_unit (allocate_new_computed_blocks rid nc tot 0 (m, q))) =
        Inr (x, m', p') \<and> op_ok (others xs ms) rid m q ql m' p' fl' \<and> adopt_rel rid tot m (hs ! i) m' \<and>
        all_wf ms p' \<and> list_all2 (adoptable rid p') ms (drop (Suc i) hs) \<and> N + adopt_cost p' tot ms (drop (Suc i) hs) \<le> int (length fl')"
      using c h(1,2) all_wf_step [OF c(2) a(2)] a(4) adopt_cost_mono [OF inv sc _ h(4), of tot]
      by (intro exI [of _ "()"] exI [of _ m'] exI [of _ q'] exI [of _ ql'] conjI) (auto simp: with_unit_def)
  qed
  from each_manager_run [OF this, of "[]" ms p fl 0] assms show ?thesis by (auto simp: adopt_cost_def)
qed

text \<open>Caching passes the request along; only its memo of embedding hashes may change.\<close>

definition same_request :: "request \<Rightarrow> request \<Rightarrow> bool" where
  "same_request r r' \<longleftrightarrow> (\<exists>h. r' = r\<lparr>prompt_embeds_hashes := h\<rparr>)"

lemma same_request_refl [simp]: "same_request r r"
  unfolding same_request_def by (rule exI [of _ "prompt_embeds_hashes r"]) simp

lemma same_request_trans: "same_request r r1 \<Longrightarrow> same_request r1 r2 \<Longrightarrow> same_request r r2"
  unfolding same_request_def by auto

lemma same_request_fields:
  assumes "same_request r r'"
  shows "request_id r' = request_id r" "block_hashes r' = block_hashes r" "all_token_ids r' = all_token_ids r"
  using assms by (auto simp: same_request_def)

lemma embed_keys_same: "same_request r (snd (gen_prompt_embeds_extra_hash_keys eh r s e))"
  by (auto simp: gen_prompt_embeds_extra_hash_keys_def Let_def same_request_def split: option.splits)
     (metis same_request_def same_request_refl)+

lemma extra_keys_same:
  assumes "generate_block_hash_extra_keys eh r s e i = Inr (x, r')"
  shows "same_request r r'"
  using assms embed_keys_same [of r eh s e]
  by (auto simp: generate_block_hash_extra_keys_def Let_def bindE_def split: sum.splits prod.splits if_splits)

lemma event_keys_same: "event_extra_keys eh h blocks msk n0 bs js mm r = Inr (ks, r') \<Longrightarrow> same_request r r'"
proof (induction js arbitrary: mm r ks)
  case (Cons i js)
  obtain b where b: "py_index blocks (int i) = Inr b"
    using Cons.prems by (cases "py_index blocks (int i)") simp_all
  show ?case
  proof (cases "is_null (h b) \<or> masked_out msk (i - n0)")
    case True
    thus ?thesis using Cons b by simp
  next
    case False
    then obtain k mm1 r1 where g: "generate_block_hash_extra_keys eh r (int i * bs) (int i * bs + bs) mm = Inr ((k, mm1), r1)"
      using Cons.prems b by (cases "generate_block_hash_extra_keys eh r (int i * bs) (int i * bs + bs) mm") auto
    then obtain rest where "event_extra_keys eh h blocks msk n0 bs js mm1 r1 = Inr (rest, r')"
      using Cons.prems b False by (cases "event_extra_keys eh h blocks msk n0 bs js mm1 r1") auto
    thus ?thesis using Cons.IH same_request_trans extra_keys_same [OF g] by blast
  qed
qed simp

lemma cache_full_same:
  assumes "cache_full_blocks eh r blocks nc nf bs gid msk p = Inr (p', r')"
  shows "same_request r r'"
  using assms event_keys_same
  by (fastforce simp: cache_full_blocks_def Let_def bindE_def guardE_def split: sum.splits prod.splits if_splits)

lemma base_cache_same:
  assumes "base_cache_blocks eh r ntok ret mp = Inr (mp', r')"
  shows "same_request r r'"
  using assms cache_full_same
  by (fastforce simp: base_cache_blocks_def Let_def bindE_def split: sum.splits prod.splits if_splits)

definition cacheable :: "(kv_manager \<Rightarrow> int) \<Rightarrow> request \<Rightarrow> kv_manager \<Rightarrow> bool" where
  "cacheable tokens r m \<longleftrightarrow> nat (tokens m div mgr_block_size m) \<le> length (row_of m (request_id r)) \<and>
     nat (tokens m div mgr_block_size m) \<le> length (block_hashes r)"

lemma cache_one_manager:
  assumes "coord_inv (xs @ m # ys) p fl" "mgr_wf p m" "enable_caching p" "cacheable tokens r m"
  shows "\<exists>m' p' r'. cache_blocks eh r (tokens m) ret (m, p) = Inr ((m', p'), r') \<and>
    op_ok (others xs ys) (request_id r) m p fl m' p' fl \<and> row_of m' (request_id r) = row_of m (request_id r) \<and> same_request r r'"
proof -
  have wf: "0 \<le> kv_cache_group_id m" "kv_cache_group_id m < 2 ^ 32" "mgr_block_size m = hash_block_size p"
    "mgr_class m = SlidingWindowManager \<longrightarrow> scheduler_block_size m mod block_size_of (mgr_spec m) = 0"
    "attn_class (mgr_class m)"
    using assms(2,3) by (simp_all add: mgr_wf_def)
  have eq: "cache_blocks eh r (tokens m) ret (m, p) = base_cache_blocks eh r (tokens m) ret (m, p)"
    using wf(5) by (auto simp: cache_blocks_def attn_class_def)
  have "\<forall>b \<in> tail_blocks m (request_id r). fresh p b" using assms(1) by (auto simp: coord_inv_def tails_fresh_def)
  moreover have "nat (tokens m div mgr_block_size m) \<le> length (row_of m (request_id r))"
    "nat (tokens m div mgr_block_size m) \<le> length (block_hashes r)" using assms(4) by (simp_all add: cacheable_def)
  ultimately show ?thesis
    using cache_ok [OF coord_inv_mgr [OF assms(1)] assms(3) wf(1-3), of "tokens m" r] wf(4) eq base_cache_same by metis
qed

lemma cacheable_same: "same_request r r' \<Longrightarrow> cacheable tokens r' m = cacheable tokens r m"
  by (simp add: cacheable_def same_request_fields)

lemma cache_run:
  assumes "coord_inv (xs @ ms) p fl" "all_wf ms p" "enable_caching p" "\<forall>m \<in> set ms. cacheable tokens r m"
  shows "\<exists>ms' p' r'. cache_each tokens eh ret ms p r = Inr (ms', p', r') \<and> coord_inv (xs @ ms') p' fl \<and> same_config p p' \<and>
    same_request r r' \<and> length ms' = length ms \<and>
    (\<forall>j < length ms. only_row (request_id r) (ms ! j) (ms' ! j) \<and> row_of (ms' ! j) (request_id r) = row_of (ms ! j) (request_id r))"
  using assms
proof (induction ms arbitrary: xs p r)
  case (Cons m ms)
  obtain m' p' r' where m': "cache_blocks eh r (tokens m) ret (m, p) = Inr ((m', p'), r')"
    "op_ok (others xs ms) (request_id r) m p fl m' p' fl" "row_of m' (request_id r) = row_of m (request_id r)" "same_request r r'"
    using cache_one_manager [OF Cons.prems(1), of tokens r eh ret] Cons.prems by auto
  have op: "only_row (request_id r) m m'" "same_config p p'" using m'(2) by (simp_all add: op_ok_def)
  have "coord_inv ((xs @ [m']) @ ms) p' fl" using coord_update [OF Cons.prems(1) m'(2)] by simp
  moreover have "all_wf ms p'" by (rule all_wf_step [OF m'(2) Cons.prems(2)])
  moreover have "enable_caching p'" using Cons.prems(3) op(2) by (simp add: same_config_def)
  moreover have "\<forall>m \<in> set ms. cacheable tokens r' m" using Cons.prems(4) cacheable_same [OF m'(4)] by simp
  ultimately obtain ms' p'' r'' where r: "cache_each tokens eh ret ms p' r' = Inr (ms', p'', r'')"
    "coord_inv ((xs @ [m']) @ ms') p'' fl" "same_config p' p''" "same_request r' r''" "length ms' = length ms"
    "\<forall>j < length ms. only_row (request_id r) (ms ! j) (ms' ! j) \<and> row_of (ms' ! j) (request_id r) = row_of (ms ! j) (request_id r)"
    using Cons.IH [of "xs @ [m']" p' r'] same_request_fields(1) [OF m'(4)] by auto
  have "\<forall>j < length (m # ms). only_row (request_id r) ((m # ms) ! j) ((m' # ms') ! j) \<and>
      row_of ((m' # ms') ! j) (request_id r) = row_of ((m # ms) ! j) (request_id r)"
    using r(6) m'(3) op(1) by (auto simp: less_Suc_eq_0_disj)
  thus ?case using m'(1) r same_config_trans [OF op(2) r(3)] same_request_trans [OF m'(4) r(4)]
    by (intro exI [of _ "m' # ms'"] exI [of _ p''] exI [of _ r'']) simp
qed simp

end
