(* ===== verification/Slots_Correct.thy ===== *)
theory Slots_Correct
  imports Coordinator_Invariant
begin

text \<open>
  Correctness of \<^verbatim>\<open>KVCacheManager.allocate_slots\<close> and \<^verbatim>\<open>free\<close> for groups of full, sliding-window and
  chunked attention: the number of blocks the admission check counts is enough for all that follows, so
  a request that passes it gets its slots, and the pool and the rows stay consistent on every branch.
\<close>

section \<open>What a call needs\<close>

text \<open>The blocks each manager starts from: its row, or the hits it adopts.\<close>

definition base_row :: "string \<Rightarrow> kv_cache_blocks \<Rightarrow> int \<Rightarrow> nat \<Rightarrow> kv_manager \<Rightarrow> bref list" where
  "base_row rid ncb tot j m = (case ncb of Empty_Blocks \<Rightarrow> row_of m rid | Kv_Blocks hs \<Rightarrow> adopted_row m (hs ! j) tot)"

definition slots_ready :: "string \<Rightarrow> kv_cache_blocks \<Rightarrow> int \<Rightarrow> kv_manager list \<Rightarrow> block_pool \<Rightarrow> bool" where
  "slots_ready rid ncb tot ms p =
     (case ncb of
        Empty_Blocks \<Rightarrow> \<forall>m \<in> set ms. map_of (num_cached_block m) rid = None \<longrightarrow> skipped_of m tot \<le> int (length (row_of m rid))
      | Kv_Blocks hs \<Rightarrow> list_all2 (adoptable rid p) ms hs)"

definition hit_missing :: "int \<Rightarrow> int \<Rightarrow> kv_manager \<Rightarrow> bref list \<Rightarrow> int" where
  "hit_missing ntok tot m h = max (cdiv ntok (mgr_block_size m) - max (skipped_of m tot) (int (length h))) 0"

definition slots_needed :: "string \<Rightarrow> kv_cache_blocks \<Rightarrow> int \<Rightarrow> int \<Rightarrow> kv_manager list \<Rightarrow> block_pool \<Rightarrow> int" where
  "slots_needed rid ncb tot ntok ms p =
     (case ncb of
        Empty_Blocks \<Rightarrow> (\<Sum>m\<leftarrow>ms. slots_missing ntok rid m)
      | Kv_Blocks hs \<Rightarrow> (\<Sum>(m, h)\<leftarrow>zip ms hs. hit_missing ntok tot m h) + adopt_cost p tot ms hs)"

section \<open>The admission check\<close>

lemma admission_row:
  assumes "map_of (num_cached_block m) rid = None \<longrightarrow> skipped_of m tot \<le> int (length (row_of m rid))"
  shows "\<exists>n. base_num_blocks_to_allocate m p rid ntok [] tot cap = Inr n \<and> (\<not> cap \<longrightarrow> n = slots_missing ntok rid m)"
  using assms
  by (cases "map_of (num_cached_block m) rid")
     (auto simp: base_num_blocks_to_allocate_def Let_def slots_missing_def skipped_of_def get_num_evictable_blocks_def
        split: option.splits)

lemma admission_hits:
  assumes "untracked rid m"
  shows "\<exists>n. base_num_blocks_to_allocate m p rid ntok hits tot cap = Inr n \<and>
    (\<not> cap \<longrightarrow> n = hit_missing ntok tot m hits + evictable p tot m hits)"
proof -
  have "nat (max 0 x) = nat x" for x :: int by simp
  thus ?thesis using assms
    by (simp add: base_num_blocks_to_allocate_def Let_def untracked_def hit_missing_def evictable_def skipped_of_def
        split: option.split)
qed

text \<open>A loop that only reads.\<close>

lemma each_manager_read:
  assumes "\<And>j. j < length ms \<Longrightarrow> f (i + j) (ms ! j, p) = Inr (g j, ms ! j, p)"
  shows "each_manager f i ms p = Inr (map g [0..<length ms], ms, p)"
  using assms
proof (induction ms arbitrary: i g)
  case (Cons m ms)
  have "f i (m, p) = Inr (g 0, m, p)" using Cons.prems [of 0] by simp
  moreover have "each_manager f (Suc i) ms p = Inr (map (g \<circ> Suc) [0..<length ms], ms, p)"
    using Cons.prems [of "Suc _"] by (intro Cons.IH) force
  moreover have "map g [0..<length (m # ms)] = g 0 # map (g \<circ> Suc) [0..<length ms]"
    by (simp add: upt_conv_Cons map_Suc_upt [symmetric] del: upt_Suc)
  ultimately show ?case by simp
qed simp

lemma slots_needed_nth:
  assumes "slots_ready rid ncb tot ms p"
  shows "slots_needed rid ncb tot ntok ms p = (\<Sum>j\<leftarrow>[0..<length ms].
    case ncb of Empty_Blocks \<Rightarrow> slots_missing ntok rid (ms ! j)
    | Kv_Blocks hs \<Rightarrow> hit_missing ntok tot (ms ! j) (hs ! j) + evictable p tot (ms ! j) (hs ! j))"
proof (cases ncb)
  case Empty_Blocks
  have "map (slots_missing ntok rid) ms = map (\<lambda>j. slots_missing ntok rid (ms ! j)) [0..<length ms]"
    by (rule nth_equalityI) simp_all
  thus ?thesis unfolding slots_needed_def Empty_Blocks by (simp only: kv_cache_blocks.case)
next
  case (Kv_Blocks hs)
  hence "length ms = length hs" using assms by (auto simp: slots_ready_def dest: list_all2_lengthD)
  hence "map (\<lambda>(m, h). f m h) (zip ms hs) = map (\<lambda>j. f (ms ! j) (hs ! j)) [0..<length ms]" for f :: "kv_manager \<Rightarrow> bref list \<Rightarrow> int"
    by (intro nth_equalityI) simp_all
  hence *: "(\<Sum>(m, h)\<leftarrow>zip ms hs. f m h) = (\<Sum>j\<leftarrow>[0..<length ms]. f (ms ! j) (hs ! j))" for f :: "kv_manager \<Rightarrow> bref list \<Rightarrow> int"
    by (rule arg_cong [of _ _ sum_list])
  from * [of "hit_missing ntok tot"] * [of "evictable p tot"]
  show ?thesis unfolding slots_needed_def adopt_cost_def Kv_Blocks by (simp only: kv_cache_blocks.case sum_list_addf)
qed

lemma admission_run:
  assumes "all_wf (single_type_managers co) (co_block_pool co)" "num_groups km = length (single_type_managers co)"
    and "slots_ready rid ncb tot (single_type_managers co) (co_block_pool co)"
  shows "\<exists>n. co_get_num_blocks_to_allocate rid ntok (blocks_list km ncb) enc tot main cap co = Inr (n, co) \<and>
    (\<not> cap \<longrightarrow> n = slots_needed rid ncb tot ntok (single_type_managers co) (co_block_pool co))"
proof -
  let ?ms = "single_type_managers co" and ?p = "co_block_pool co"
  let ?f = "\<lambda>i (m, p). if mgr_class m = CrossAttentionManager
      then bindE (get_num_blocks_to_allocate m p rid enc [] 0 enc cap) (\<lambda>(n, m'). Inr (n, m', p))
      else bindE (py_index (blocks_list km ncb) (int i)) (\<lambda>nc.
           bindE (get_num_blocks_to_allocate m p rid ntok nc tot main cap) (\<lambda>(n, m'). Inr (n, m', p)))"
  let ?need = "\<lambda>j. case ncb of Empty_Blocks \<Rightarrow> slots_missing ntok rid (?ms ! j)
    | Kv_Blocks hs \<Rightarrow> hit_missing ntok tot (?ms ! j) (hs ! j) + evictable ?p tot (?ms ! j) (hs ! j)"
  have one: "\<exists>n. ?f j (?ms ! j, ?p) = Inr (n, ?ms ! j, ?p) \<and> (\<not> cap \<longrightarrow> n = ?need j)" if j: "j < length ?ms" for j
  proof -
    have m: "?ms ! j \<in> set ?ms" using j by simp
    hence c: "mgr_class (?ms ! j) \<noteq> MambaManager" "mgr_class (?ms ! j) \<noteq> CrossAttentionManager"
      using assms(1) mgr_wf_class by blast+
    have eq: "get_num_blocks_to_allocate (?ms ! j) ?p rid ntok nc tot main cap =
        bindE (base_num_blocks_to_allocate (?ms ! j) ?p rid ntok nc tot cap) (\<lambda>n. Inr (n, ?ms ! j))" for nc
      using c(1) by (cases "mgr_class (?ms ! j)") (simp_all add: get_num_blocks_to_allocate_def)
    show ?thesis
    proof (cases ncb)
      case Empty_Blocks
      then obtain n where n: "base_num_blocks_to_allocate (?ms ! j) ?p rid ntok [] tot cap = Inr n"
        "\<not> cap \<longrightarrow> n = slots_missing ntok rid (?ms ! j)"
        using admission_row [of "?ms ! j" rid tot ?p ntok cap] assms(3) m by (auto simp: slots_ready_def)
      have "py_index (blocks_list km ncb) (int j) = Inr []"
        using j assms(2) Empty_Blocks by (simp add: blocks_list_def)
      thus ?thesis using n c eq Empty_Blocks by simp
    next
      case (Kv_Blocks hs)
      hence h: "list_all2 (adoptable rid ?p) ?ms hs" using assms(3) by (simp add: slots_ready_def)
      hence "untracked rid (?ms ! j)" "j < length hs"
        using j list_all2_nthD [OF h j] list_all2_lengthD [OF h] by (simp_all add: adoptable_def)
      thus ?thesis using admission_hits [of rid "?ms ! j" ?p ntok "hs ! j" tot cap] c eq Kv_Blocks
        by (auto simp: blocks_list_def)
    qed
  qed
  have "\<forall>j \<in> {..<length ?ms}. \<exists>n. ?f j (?ms ! j, ?p) = Inr (n, ?ms ! j, ?p) \<and> (\<not> cap \<longrightarrow> n = ?need j)"
    using one by (intro ballI) (simp only: lessThan_iff)
  from bchoice [OF this] obtain g where
    g: "\<forall>j \<in> {..<length ?ms}. ?f j (?ms ! j, ?p) = Inr (g j, ?ms ! j, ?p) \<and> (\<not> cap \<longrightarrow> g j = ?need j)" ..
  have "each_manager ?f 0 ?ms ?p = Inr (map g [0..<length ?ms], ?ms, ?p)"
    using g by (intro each_manager_read) (simp only: lessThan_iff add_0)
  moreover have "sum_list (map g [0..<length ?ms]) = slots_needed rid ncb tot ntok ?ms ?p" if "\<not> cap"
    unfolding slots_needed_nth [OF assms(3)] using g that by (intro arg_cong [of _ _ sum_list] map_cong) auto
  ultimately show ?thesis by (simp add: co_get_num_blocks_to_allocate_def on_managers_def)
qed

section \<open>Adopt, allocate, cache\<close>

definition km_inv :: "kv_cache_manager \<Rightarrow> bref list \<Rightarrow> bool" where
  "km_inv km fl \<longleftrightarrow>
     (let co = km_coordinator km in
       coord_inv (single_type_managers co) (co_block_pool co) fl \<and> all_wf (single_type_managers co) (co_block_pool co) \<and>
       num_groups km = length (single_type_managers co) \<and> km_enable_caching km = enable_caching (co_block_pool co) \<and>
       (km_log_stats km \<longrightarrow> km_stats km \<noteq> None) \<and>
       (co_class co = Hybrid \<longrightarrow> 0 < co_scheduler_block_size co))"

abbreviation km_managers :: "kv_cache_manager \<Rightarrow> kv_manager list" where
  "km_managers km \<equiv> single_type_managers (km_coordinator km)"

definition with_managers :: "kv_manager list \<Rightarrow> block_pool \<Rightarrow> coordinator \<Rightarrow> coordinator" where
  "with_managers ms p co = co\<lparr>single_type_managers := ms, co_block_pool := p\<rparr>"

lemma with_managers_simps [simp]:
  "single_type_managers (with_managers ms p co) = ms" "co_block_pool (with_managers ms p co) = p"
  "co_config (with_managers ms p co) = co_config co" "co_class (with_managers ms p co) = co_class co"
  "co_scheduler_block_size (with_managers ms p co) = co_scheduler_block_size co"
  "retention_interval (with_managers ms p co) = retention_interval co"
  "with_managers ms p (with_managers ms' p' co) = with_managers ms p co"
  by (simp_all add: with_managers_def)

lemma km_inv_update:
  assumes "km_inv km fl" "coord_inv ms' p' fl'" "same_config (co_block_pool (km_coordinator km)) p'"
    and "length ms' = length (km_managers km)" "\<forall>j < length (km_managers km). only_row rid (km_managers km ! j) (ms' ! j)"
  shows "km_inv (km\<lparr>km_coordinator := with_managers ms' p' (km_coordinator km)\<rparr>) fl'"
proof -
  have "all_wf ms' p'" using mgr_wf_run [OF _ assms(3-5)] assms(1) by (simp add: km_inv_def Let_def)
  thus ?thesis using assms by (simp add: km_inv_def Let_def num_groups_def same_config_def)
qed

text \<open>The rows after the call: what was there or was adopted, then the new blocks.\<close>

definition slots_rel :: "string \<Rightarrow> kv_cache_blocks \<Rightarrow> int \<Rightarrow> int \<Rightarrow> nat \<Rightarrow> kv_manager \<Rightarrow> bref list \<Rightarrow> kv_manager \<Rightarrow> bool" where
  "slots_rel rid ncb tot ntok j m bs m' \<longleftrightarrow> row_of m' rid = base_row rid ncb tot j m @ bs \<and>
     int (length bs) = max 0 (cdiv ntok (mgr_block_size m) - int (length (base_row rid ncb tot j m)))"

lemma only_row_block_size: "only_row rid m m' \<Longrightarrow> mgr_block_size m' = mgr_block_size m"
  by (simp add: only_row_def mgr_config_def)

lemma adopt_stage:
  assumes "coord_inv ms p fl" "all_wf ms p" "slots_ready rid ncb tot ms p" "slots_needed rid ncb tot ntok ms p \<le> int (length fl)"
    and "num_groups km = length ms" "single_type_managers co = ms" "co_block_pool co = p"
  shows "\<exists>ms' p' fl'. (if ncb \<noteq> Empty_Blocks \<or> (0::int) > 0
      then co_allocate_new_computed_blocks rid (blocks_list km ncb) tot 0 co else Inr co) = Inr (with_managers ms' p' co) \<and>
    coord_inv ms' p' fl' \<and> same_config p p' \<and> length ms' = length ms \<and> (\<Sum>m\<leftarrow>ms'. slots_missing ntok rid m) \<le> int (length fl') \<and>
    (\<forall>j < length ms. only_row rid (ms ! j) (ms' ! j) \<and> row_of (ms' ! j) rid = base_row rid ncb tot j (ms ! j))"
proof (cases ncb)
  case Empty_Blocks
  have "co = with_managers ms p co" using assms(6,7) by (simp add: with_managers_def)
  thus ?thesis using assms Empty_Blocks
    by (intro exI [of _ ms] exI [of _ p] exI [of _ fl]) (simp add: slots_needed_def base_row_def)
next
  case (Kv_Blocks hs)
  let ?N = "\<Sum>(m, h)\<leftarrow>zip ms hs. hit_missing ntok tot m h"
  have h: "list_all2 (adoptable rid p) ms hs" using assms(3) Kv_Blocks by (simp add: slots_ready_def)
  have "?N + adopt_cost p tot ms hs \<le> int (length fl)" using assms(4) Kv_Blocks by (simp add: slots_needed_def)
  then obtain rs ms' p' fl' where r: "each_manager (\<lambda>i mp. bindE (py_index hs (int i)) (\<lambda>nc.
      with_unit (allocate_new_computed_blocks rid nc tot 0 mp))) 0 ms p = Inr (rs, ms', p')"
    "coord_inv ms' p' fl'" "same_config p p'" "length ms' = length ms" "?N \<le> int (length fl')"
    "\<forall>j < length ms. only_row rid (ms ! j) (ms' ! j) \<and> adopt_rel rid tot (ms ! j) (hs ! j) (ms' ! j)"
    using adopt_run [OF assms(1,2) h] by blast
  have row: "row_of (ms' ! j) rid = adopted_row (ms ! j) (hs ! j) tot" if "j < length ms" for j
    using r(6) that by (simp add: adopt_rel_def)
  have "map (slots_missing ntok rid) ms' = map (\<lambda>(m, h). hit_missing ntok tot m h) (zip ms hs)"
  proof (rule nth_equalityI)
    fix j assume "j < length (map (slots_missing ntok rid) ms')"
    hence j: "j < length ms" "j < length hs" using r(4) list_all2_lengthD [OF h] by simp_all
    have "mgr_block_size (ms' ! j) = mgr_block_size (ms ! j)" using r(6) j only_row_block_size by blast
    thus "map (slots_missing ntok rid) ms' ! j = map (\<lambda>(m, h). hit_missing ntok tot m h) (zip ms hs) ! j"
      using j r(4) row [OF j(1)] adopted_row_length [of "ms ! j" "hs ! j" tot]
      by (simp add: slots_missing_def hit_missing_def max.commute)
  qed (simp add: r(4) list_all2_lengthD [OF h, symmetric])
  hence "(\<Sum>m\<leftarrow>ms'. slots_missing ntok rid m) = ?N" by (rule arg_cong)
  thus ?thesis using r row Kv_Blocks assms(6,7)
    by (intro exI [of _ ms'] exI [of _ p'] exI [of _ fl'])
       (simp add: co_allocate_new_computed_blocks_def on_managers_def blocks_list_def base_row_def with_managers_def)
qed

lemma tokens_to_cache_le:
  assumes "0 \<le> n" "co_class co = Hybrid \<longrightarrow> 0 < co_scheduler_block_size co"
  shows "tokens_to_cache co n m \<le> n"
proof -
  have "n div s * s \<le> n" if "0 < s" for s :: int
    using minus_mod_eq_div_mult [of n s] pos_mod_sign [OF that, of n] by linarith
  thus ?thesis using assms by (auto simp: tokens_to_cache_def Let_def)
qed

lemma cdiv_ge_div: "0 < (b::int) \<Longrightarrow> a \<le> n \<Longrightarrow> a div b \<le> cdiv n b"
proof -
  assume b: "0 < b" and "a \<le> n"
  hence "a \<le> cdiv n b * b" using cdiv_upper [OF b, of n] by linarith
  thus "a div b \<le> cdiv n b" using zdiv_mono1 [of a "cdiv n b * b" b] b by simp
qed

text \<open>The hash chain of the request covers its full blocks.\<close>

definition hashed :: "request \<Rightarrow> block_pool \<Rightarrow> bool" where
  "hashed r p \<longleftrightarrow> num_tokens r div hash_block_size p \<le> int (length (block_hashes r))"

lemma cacheable_stage:
  assumes "mgr_wf p m" "enable_caching p" "hashed r p" "tokens m \<le> num_tokens r" "tokens m \<le> ntok"
    and "cdiv ntok (mgr_block_size m) \<le> int (length (row_of m (request_id r)))"
  shows "cacheable tokens r m"
proof -
  have bs: "0 < mgr_block_size m" "mgr_block_size m = hash_block_size p" using assms(1,2) by (simp_all add: mgr_wf_def)
  have "tokens m div mgr_block_size m \<le> num_tokens r div hash_block_size p" using zdiv_mono1 [OF assms(4) bs(1)] bs(2) by simp
  thus ?thesis using assms(3,6) cdiv_ge_div [OF bs(1) assms(5)] by (auto simp: cacheable_def hashed_def)
qed

lemma alloc_stage:
  assumes "coord_inv ms p fl" "all_wf ms p" "slots_ready rid ncb tot ms p" "slots_needed rid ncb tot ntok ms p \<le> int (length fl)"
    and "num_groups km = length ms" "single_type_managers co = ms" "co_block_pool co = p"
  shows "\<exists>co1 news ms' p' fl'. (if ncb \<noteq> Empty_Blocks \<or> (0::int) > 0
      then co_allocate_new_computed_blocks rid (blocks_list km ncb) tot 0 co else Inr co) = Inr co1 \<and>
    co_allocate_new_blocks rid ntok main enc co1 = Inr (news, with_managers ms' p' co) \<and>
    coord_inv ms' p' fl' \<and> same_config p p' \<and> length news = length ms \<and> length ms' = length ms \<and>
    (\<forall>j < length ms. only_row rid (ms ! j) (ms' ! j) \<and> slots_rel rid ncb tot ntok j (ms ! j) (news ! j) (ms' ! j))"
proof -
  obtain ms1 p1 fl1 where a: "(if ncb \<noteq> Empty_Blocks \<or> (0::int) > 0
      then co_allocate_new_computed_blocks rid (blocks_list km ncb) tot 0 co else Inr co) = Inr (with_managers ms1 p1 co)"
    "coord_inv ms1 p1 fl1" "same_config p p1" "length ms1 = length ms" "(\<Sum>m\<leftarrow>ms1. slots_missing ntok rid m) \<le> int (length fl1)"
    "\<forall>j < length ms. only_row rid (ms ! j) (ms1 ! j) \<and> row_of (ms1 ! j) rid = base_row rid ncb tot j (ms ! j)"
    using adopt_stage [OF assms] by blast
  have wf1: "all_wf ms1 p1" using mgr_wf_run [OF assms(2) a(3,4)] a(6) by blast
  obtain news ms2 p2 fl2 where b: "co_allocate_new_blocks rid ntok main enc (with_managers ms1 p1 co) = Inr (news, with_managers ms2 p2 co)"
    "coord_inv ms2 p2 fl2" "same_config p1 p2" "length news = length ms1" "length ms2 = length ms1"
    "\<forall>j < length ms1. only_row rid (ms1 ! j) (ms2 ! j) \<and> alloc_rel ntok rid (ms1 ! j) (news ! j) (ms2 ! j)"
    using allocate_run [OF a(2) wf1 a(5), of enc main]
    by (auto simp: co_allocate_new_blocks_def on_managers_def with_managers_def)
  have "only_row rid (ms ! j) (ms2 ! j) \<and> slots_rel rid ncb tot ntok j (ms ! j) (news ! j) (ms2 ! j)" if "j < length ms" for j
  proof -
    have "only_row rid (ms ! j) (ms1 ! j)" "only_row rid (ms1 ! j) (ms2 ! j)" "alloc_rel ntok rid (ms1 ! j) (news ! j) (ms2 ! j)"
      "row_of (ms1 ! j) rid = base_row rid ncb tot j (ms ! j)" using that a(4,6) b(6) by simp_all
    thus ?thesis using only_row_trans [of rid "ms ! j" "ms1 ! j" "ms2 ! j"] only_row_block_size [of rid "ms ! j" "ms1 ! j"]
      by (simp add: slots_rel_def alloc_rel_def slots_missing_def)
  qed
  thus ?thesis using a(1,4) b(1,2,4,5) same_config_trans [OF a(3) b(3)]
    by (intro exI [of _ "with_managers ms1 p1 co"] exI [of _ news] exI [of _ ms2] exI [of _ p2] exI [of _ fl2]) simp
qed

lemma cache_stage:
  assumes "coord_inv ms p fl" "all_wf ms p" "enable_caching p" "hashed r p" "0 \<le> n" "n \<le> ntok" "n \<le> num_tokens r"
    and "co_class co = Hybrid \<longrightarrow> 0 < co_scheduler_block_size co"
    and "\<forall>m \<in> set ms. cdiv ntok (mgr_block_size m) \<le> int (length (row_of m (request_id r)))"
  shows "\<exists>ms' p' r'. co_cache_blocks eh r n (with_managers ms p co) = Inr (with_managers ms' p' co, r') \<and> coord_inv ms' p' fl \<and>
    same_config p p' \<and> same_request r r' \<and> length ms' = length ms \<and>
    (\<forall>j < length ms. only_row (request_id r) (ms ! j) (ms' ! j) \<and> row_of (ms' ! j) (request_id r) = row_of (ms ! j) (request_id r))"
proof -
  let ?tk = "tokens_to_cache (with_managers ms p co) n"
  have "\<forall>m \<in> set ms. cacheable ?tk r m"
  proof
    fix m assume m: "m \<in> set ms"
    have "?tk m \<le> n" using assms(5,8) by (intro tokens_to_cache_le) simp_all
    thus "cacheable ?tk r m" using cacheable_stage [OF _ assms(3,4), of m ?tk ntok] assms(2,6,7,9) m by simp
  qed
  then obtain ms' p' r' where c: "cache_each ?tk eh (retention_interval co) ms p r = Inr (ms', p', r')"
    "coord_inv ms' p' fl" "same_config p p'" "same_request r r'" "length ms' = length ms"
    "\<forall>j < length ms. only_row (request_id r) (ms ! j) (ms' ! j) \<and> row_of (ms' ! j) (request_id r) = row_of (ms ! j) (request_id r)"
    using cache_run [of "[]" ms p fl ?tk r eh "retention_interval co"] assms(1-3) by auto
  have "co_cache_blocks eh r n (with_managers ms p co) = Inr (with_managers ms' p' (with_managers ms p co), r')"
    using c(1) by (simp add: co_cache_blocks_def) (simp add: with_managers_def)
  thus ?thesis using c by auto
qed

lemma commit_law:
  assumes "km_inv km fl" "slots_ready (request_id r) ncb tot (km_managers km) (km_pool km)"
    and "slots_needed (request_id r) ncb tot ntok (km_managers km) (km_pool km) \<le> int (length fl)"
    and "0 \<le> n" "n \<le> ntok" "n \<le> num_tokens r" "km_enable_caching km \<and> \<not> delay \<longrightarrow> hashed r (km_pool km)"
  shows "\<exists>news ms' p' r' fl'. commit_slots eh r ncb tot 0 ntok main enc n delay km =
      Inr ((Some (create_kv_cache_blocks news), km\<lparr>km_coordinator := with_managers ms' p' (km_coordinator km)\<rparr>), r') \<and>
    km_inv (km\<lparr>km_coordinator := with_managers ms' p' (km_coordinator km)\<rparr>) fl' \<and> same_request r r' \<and>
    length news = length (km_managers km) \<and> length ms' = length (km_managers km) \<and>
    (\<forall>j < length (km_managers km). only_row (request_id r) (km_managers km ! j) (ms' ! j) \<and>
       slots_rel (request_id r) ncb tot ntok j (km_managers km ! j) (news ! j) (ms' ! j))"
proof -
  let ?rid = "request_id r" and ?co = "km_coordinator km" and ?ms = "km_managers km" and ?p = "km_pool km"
  have inv: "coord_inv ?ms ?p fl" "all_wf ?ms ?p" "num_groups km = length ?ms" "km_enable_caching km = enable_caching ?p"
    "co_class ?co = Hybrid \<longrightarrow> 0 < co_scheduler_block_size ?co"
    using assms(1) by (simp_all add: km_inv_def Let_def km_pool_def)
  obtain co1 news ms2 p2 fl2 where b: "(if ncb \<noteq> Empty_Blocks \<or> (0::int) > 0
      then co_allocate_new_computed_blocks ?rid (blocks_list km ncb) tot 0 ?co else Inr ?co) = Inr co1"
    "co_allocate_new_blocks ?rid ntok main enc co1 = Inr (news, with_managers ms2 p2 ?co)"
    "coord_inv ms2 p2 fl2" "same_config ?p p2" "length news = length ?ms" "length ms2 = length ?ms"
    "\<forall>j < length ?ms. only_row ?rid (?ms ! j) (ms2 ! j) \<and> slots_rel ?rid ncb tot ntok j (?ms ! j) (news ! j) (ms2 ! j)"
    using alloc_stage [OF inv(1,2) assms(2,3) inv(3) refl, of main enc] by (auto simp: km_pool_def)
  have wf2: "all_wf ms2 p2" using mgr_wf_run [OF inv(2) b(4,6)] b(7) by blast
  show ?thesis
  proof (cases "km_enable_caching km \<and> \<not> delay")
    case False
    thus ?thesis using b km_inv_update [OF assms(1) b(3) b(4) [unfolded km_pool_def], of ?rid]
      by (intro exI [of _ news] exI [of _ ms2] exI [of _ p2] exI [of _ r] exI [of _ fl2]) (simp add: commit_slots_def Let_def)
  next
    case True
    hence en: "enable_caching p2" "hashed r p2" using inv(4) b(4) assms(7) by (simp_all add: same_config_def hashed_def)
    have "cdiv ntok (mgr_block_size m) \<le> int (length (row_of m ?rid))" if m: "m \<in> set ms2" for m
    proof -
      obtain j where j: "j < length ?ms" "m = ms2 ! j" using m b(6) by (metis in_set_conv_nth)
      thus ?thesis using b(7) only_row_block_size [of ?rid "?ms ! j" m] by (simp add: slots_rel_def)
    qed
    then obtain ms3 p3 r' where c: "co_cache_blocks eh r n (with_managers ms2 p2 ?co) = Inr (with_managers ms3 p3 ?co, r')"
      "coord_inv ms3 p3 fl2" "same_config p2 p3" "same_request r r'" "length ms3 = length ms2"
      "\<forall>j < length ms2. only_row ?rid (ms2 ! j) (ms3 ! j) \<and> row_of (ms3 ! j) ?rid = row_of (ms2 ! j) ?rid"
      using cache_stage [OF b(3) wf2 en assms(4-6) inv(5), of eh] by blast
    have rel3: "only_row ?rid (?ms ! j) (ms3 ! j) \<and> slots_rel ?rid ncb tot ntok j (?ms ! j) (news ! j) (ms3 ! j)"
      if "j < length ?ms" for j
      using b(6,7) c(6) that only_row_trans [of ?rid "?ms ! j" "ms2 ! j" "ms3 ! j"] by (simp add: slots_rel_def)
    thus ?thesis using True b(1,2,5,6) c(1,4,5)
        km_inv_update [OF assms(1) c(2) same_config_trans [OF b(4) [unfolded km_pool_def] c(3)], of ?rid]
      by (intro exI [of _ news] exI [of _ ms3] exI [of _ p3] exI [of _ r'] exI [of _ fl2]) (simp add: commit_slots_def Let_def)
  qed
qed

section \<open>The whole call\<close>

lemma free_count: "km_inv km fl \<Longrightarrow> get_num_free_blocks (co_block_pool (km_coordinator km)) = int (length fl)"
  by (simp add: km_inv_def Let_def coord_inv_def pool_inv_def get_num_free_blocks_def queue_rep_length)

lemma only_row_skipped: "only_row rid m m' \<Longrightarrow> skipped_of m' tot = skipped_of m tot"
  by (cases "mgr_class m") (simp_all add: only_row_def mgr_config_def skipped_of_def get_num_skipped_tokens_def)

lemma skip_ready:
  assumes "slots_ready rid ncb tot ms p" "same_config p p'" "length ms' = length ms" "\<forall>c. bhash p' c = bhash p c"
    and "\<forall>j < length ms. only_row rid (ms ! j) (ms' ! j) \<and> skip_rel rid tot (ms ! j) (ms' ! j)"
  shows "slots_ready rid ncb tot ms' p'"
proof -
  have eq: "length (row_of (ms' ! j) rid) = length (row_of (ms ! j) rid)" "num_cached_block (ms' ! j) = num_cached_block (ms ! j)"
    if "j < length ms" for j using assms(5) that by (simp_all add: skip_rel_def)
  have sk: "skipped_of (ms' ! j) tot = skipped_of (ms ! j) tot" if "j < length ms" for j
    using assms(5) that only_row_skipped by blast
  show ?thesis
  proof (cases ncb)
    case Empty_Blocks
    show ?thesis unfolding slots_ready_def Empty_Blocks kv_cache_blocks.case
    proof
      fix m assume "m \<in> set ms'"
      then obtain j where "j < length ms" "m = ms' ! j" using assms(3) by (metis in_set_conv_nth)
      thus "map_of (num_cached_block m) rid = None \<longrightarrow> skipped_of m tot \<le> int (length (row_of m rid))"
        using assms(1) eq [of j] sk [of j] Empty_Blocks by (simp add: slots_ready_def)
    qed
  next
    case (Kv_Blocks hs)
    hence h: "list_all2 (adoptable rid p) ms hs" using assms(1) by (simp add: slots_ready_def)
    have "adoptable rid p' (ms' ! j) (hs ! j)" if j: "j < length ms" for j
    proof -
      have "adoptable rid p' (ms ! j) (hs ! j)" using list_all2_nthD [OF h j] adoptable_keep assms(2,4) by blast
      thus ?thesis using eq [OF j] by (auto simp: adoptable_def untracked_def)
    qed
    thus ?thesis using Kv_Blocks list_all2_lengthD [OF h] assms(3) by (simp add: slots_ready_def list_all2_conv_all_nth)
  qed
qed

lemma skip_stage:
  assumes "km_inv km fl" "slots_ready rid ncb tot (km_managers km) (km_pool km)"
  shows "\<exists>ms' p' fl'. co_remove_skipped_blocks rid tot (km_coordinator km) = Inr (with_managers ms' p' (km_coordinator km)) \<and>
    km_inv (km\<lparr>km_coordinator := with_managers ms' p' (km_coordinator km)\<rparr>) fl' \<and> slots_ready rid ncb tot ms' p' \<and>
    same_config (km_pool km) p' \<and> length ms' = length (km_managers km) \<and> length fl \<le> length fl' \<and>
    (\<forall>j < length (km_managers km). only_row rid (km_managers km ! j) (ms' ! j) \<and> skip_rel rid tot (km_managers km ! j) (ms' ! j))"
proof -
  let ?ms = "km_managers km" and ?p = "km_pool km"
  have inv: "coord_inv ?ms ?p fl" "all_wf ?ms ?p" using assms(1) by (simp_all add: km_inv_def Let_def km_pool_def)
  obtain rs ms' p' fl' where r: "each_manager (\<lambda>_ mp. with_unit (remove_skipped_blocks rid tot mp)) 0 ?ms ?p = Inr (rs, ms', p')"
    "coord_inv ms' p' fl'" "same_config ?p p'" "length ms' = length ?ms" "length fl \<le> length fl'" "\<forall>c. bhash p' c = bhash ?p c"
    "\<forall>j < length ?ms. only_row rid (?ms ! j) (ms' ! j) \<and> skip_rel rid tot (?ms ! j) (ms' ! j)"
    using remove_skipped_run [OF inv, of rid tot] by blast
  have "co_remove_skipped_blocks rid tot (km_coordinator km) = Inr (with_managers ms' p' (km_coordinator km))"
    using r(1) by (simp add: co_remove_skipped_blocks_def on_managers_def with_managers_def km_pool_def)
  thus ?thesis using r skip_ready [OF assms(2) r(3,4,6,7)] km_inv_update [OF assms(1) r(2) r(3) [unfolded km_pool_def] r(4), of rid]
    by blast
qed

definition slots_result ::
  "string \<Rightarrow> kv_cache_blocks \<Rightarrow> int \<Rightarrow> int \<Rightarrow> kv_manager list \<Rightarrow> kv_cache_blocks option \<Rightarrow> kv_manager list \<Rightarrow> bool" where
  "slots_result rid ncb tot ntok ms out ms' \<longleftrightarrow> length ms' = length ms \<and> (\<forall>j < length ms. only_row rid (ms ! j) (ms' ! j)) \<and>
     (case out of
        None \<Rightarrow> (\<forall>j < length ms. length (row_of (ms' ! j) rid) = length (row_of (ms ! j) rid))
      | Some kb \<Rightarrow> \<exists>ms1 news. kb = create_kv_cache_blocks news \<and> length news = length ms \<and>
          (\<forall>j < length ms. only_row rid (ms ! j) (ms1 ! j) \<and> skip_rel rid tot (ms ! j) (ms1 ! j) \<and> slots_rel rid ncb tot ntok j (ms1 ! j) (news ! j) (ms' ! j)))"

lemma allocate_slots_unfold:
  fixes num_new tot :: int
  assumes "0 < num_new" "num_computed_tokens r + nnc = tot" "tot + num_new \<le> km_max_model_len km"
    and "must_fit \<longrightarrow> full_sequence_fits r (blocks_list km ncb) enc tot km = Inr (fits, km)" "\<not> must_fit \<longrightarrow> fits"
    and "co_remove_skipped_blocks (request_id r) tot (km_coordinator km) = Inr co1"
    and "ntok = min (tot + num_new + lookahead) (km_max_model_len km)"
    and "co_get_num_blocks_to_allocate (request_id r) ntok (blocks_list km ncb) enc tot (tot + num_new) False co1 = Inr (n, co1)"
  shows "allocate_slots eh r num_new nnc (Some ncb) lookahead 0 delay enc must_fit reserved km =
    (if \<not> fits then Inr ((None, km), r)
     else let km2 = km\<lparr>km_coordinator := co1\<rparr>
       in if n > get_num_free_blocks (co_block_pool co1) - reserved then Inr ((None, km2), r)
          else commit_slots eh r ncb tot 0 ntok (tot + num_new) enc (min (tot + num_new) (num_tokens r)) delay km2)"
  using assms by (auto simp: allocate_slots_def Let_def)

lemma gate_law:
  assumes "km_inv km fl" "slots_ready (request_id r) ncb tot (km_managers km) (km_pool km)"
  shows "\<exists>fits. full_sequence_fits r (blocks_list km ncb) enc tot km = Inr (fits, km)"
proof -
  have inv: "all_wf (km_managers km) (co_block_pool (km_coordinator km))" "num_groups km = length (km_managers km)"
    using assms(1) by (simp_all add: km_inv_def Let_def)
  let ?full = "min (num_tokens r) (km_max_model_len km)"
  obtain n where "co_get_num_blocks_to_allocate (request_id r) ?full (blocks_list km ncb) enc tot ?full True (km_coordinator km) =
      Inr (n, km_coordinator km)"
    using admission_run [OF inv assms(2) [unfolded km_pool_def], of ?full enc ?full True] by blast
  thus ?thesis by (simp add: full_sequence_fits_def Let_def)
qed

lemma slots_run:
  fixes num_new tot :: int
  assumes "km_inv km fl" "slots_ready (request_id r) ncb tot (km_managers km) (km_pool km)"
    and "0 < num_new" "0 \<le> lookahead" "0 \<le> reserved" "0 \<le> tot" "num_computed_tokens r + nnc = tot"
    and "tot + num_new \<le> km_max_model_len km" "km_enable_caching km \<and> \<not> delay \<longrightarrow> hashed r (km_pool km)"
  defines "ntok \<equiv> min (tot + num_new + lookahead) (km_max_model_len km)"
  shows "\<exists>out km' r' fl' ms1 p1. allocate_slots eh r num_new nnc (Some ncb) lookahead 0 delay enc must_fit reserved km = Inr ((out, km'), r') \<and>
    km_inv km' fl' \<and> same_request r r' \<and> slots_result (request_id r) ncb tot ntok (km_managers km) out (km_managers km') \<and>
    co_remove_skipped_blocks (request_id r) tot (km_coordinator km) = Inr (with_managers ms1 p1 (km_coordinator km)) \<and>
    (\<not> must_fit \<and> slots_needed (request_id r) ncb tot ntok ms1 p1 + reserved \<le> int (length fl) \<longrightarrow> out \<noteq> None)"
proof -
  let ?rid = "request_id r" and ?co = "km_coordinator km" and ?ms = "km_managers km"
  obtain fits where fits: "must_fit \<longrightarrow> full_sequence_fits r (blocks_list km ncb) enc tot km = Inr (fits, km)" "\<not> must_fit \<longrightarrow> fits"
    using gate_law [OF assms(1,2)] by (cases must_fit) auto
  obtain ms1 p1 fl1 where s: "co_remove_skipped_blocks ?rid tot ?co = Inr (with_managers ms1 p1 ?co)"
    "km_inv (km\<lparr>km_coordinator := with_managers ms1 p1 ?co\<rparr>) fl1" "slots_ready ?rid ncb tot ms1 p1" "same_config (km_pool km) p1"
    "length ms1 = length ?ms" "length fl \<le> length fl1"
    "\<forall>j < length ?ms. only_row ?rid (?ms ! j) (ms1 ! j) \<and> skip_rel ?rid tot (?ms ! j) (ms1 ! j)"
    using skip_stage [OF assms(1,2)] by blast
  let ?km1 = "km\<lparr>km_coordinator := with_managers ms1 p1 ?co\<rparr>" and ?n = "slots_needed ?rid ncb tot ntok ms1 p1"
  have wf1: "all_wf ms1 p1" "num_groups km = length ms1" using s(2) by (simp_all add: km_inv_def Let_def num_groups_def)
  have "co_get_num_blocks_to_allocate ?rid ntok (blocks_list km ncb) enc tot (tot + num_new) False (with_managers ms1 p1 ?co) =
      Inr (?n, with_managers ms1 p1 ?co)"
    using admission_run [of "with_managers ms1 p1 ?co" km ?rid ncb tot ntok enc "tot + num_new" False] wf1 s(3) by simp
  note run = allocate_slots_unfold [OF assms(3,7,8) fits s(1) ntok_def [THEN meta_eq_to_obj_eq] this, of eh delay reserved]
  have free: "get_num_free_blocks p1 = int (length fl1)" using free_count [OF s(2)] by simp
  show ?thesis
  proof (cases "fits \<and> ?n + reserved \<le> int (length fl1)")
    case False
    define km' where "km' = (if fits then ?km1 else km)"
    have "allocate_slots eh r num_new nnc (Some ncb) lookahead 0 delay enc must_fit reserved km = Inr ((None, km'), r)"
      using run False free by (auto simp: km'_def Let_def)
    moreover have "km_inv km' (if fits then fl1 else fl)" using assms(1) s(2) by (simp add: km'_def)
    moreover have "slots_result ?rid ncb tot ntok ?ms None (km_managers km')"
      using s(5,7) by (simp add: slots_result_def km'_def skip_rel_def)
    ultimately show ?thesis using s(1,6) False fits(2) by (intro exI [of _ None] exI conjI) auto
  next
    case True
    have n: "0 \<le> min (tot + num_new) (num_tokens r)" "min (tot + num_new) (num_tokens r) \<le> ntok"
      "min (tot + num_new) (num_tokens r) \<le> num_tokens r"
      using assms(3,4,6,8) by (auto simp: ntok_def num_tokens_def)
    have k: "slots_ready ?rid ncb tot (km_managers ?km1) (km_pool ?km1)"
      "slots_needed ?rid ncb tot ntok (km_managers ?km1) (km_pool ?km1) \<le> int (length fl1)"
      "km_enable_caching ?km1 \<and> \<not> delay \<longrightarrow> hashed r (km_pool ?km1)"
      using s(3,4) True assms(5,9) by (simp_all add: km_pool_def hashed_def same_config_def)
    obtain news ms' p' r' fl' where c: "commit_slots eh r ncb tot 0 ntok (tot + num_new) enc (min (tot + num_new) (num_tokens r)) delay ?km1 =
        Inr ((Some (create_kv_cache_blocks news), km\<lparr>km_coordinator := with_managers ms' p' ?co\<rparr>), r')"
      "km_inv (km\<lparr>km_coordinator := with_managers ms' p' ?co\<rparr>) fl'" "same_request r r'" "length news = length ms1" "length ms' = length ms1"
      "\<forall>j < length ms1. only_row ?rid (ms1 ! j) (ms' ! j) \<and> slots_rel ?rid ncb tot ntok j (ms1 ! j) (news ! j) (ms' ! j)"
      using commit_law [OF s(2) k(1,2) n k(3), of eh "tot + num_new" enc] by auto
    have "slots_result ?rid ncb tot ntok ?ms (Some (create_kv_cache_blocks news)) ms'"
      using c(4-6) s(5,7) only_row_trans unfolding slots_result_def option.case by (metis (no_types, lifting))
    thus ?thesis using run True free c(1-3) s(1) by (intro exI [of _ "Some (create_kv_cache_blocks news)"] exI conjI) (auto simp: Let_def)
  qed
qed

end
