(* ===== verification/Skive_Reclaim.thy ===== *)
theory Skive_Reclaim
  imports Slots_Correct
begin

text \<open>
  The scheduler side of eviction, \<^verbatim>\<open>skive_reclaim\<close> of \<^verbatim>\<open>vllm/kv_evict/integration.py\<close>: the entries the worker
  evicted are replaced by the null block in the rows of the same group, and their blocks go back to the pool.
  For any list of entries, stale or repeated ones included, it raises nothing and keeps the ownership
  invariant of the cache.
\<close>

section \<open>The operation\<close>

text \<open>An entry is \<^verbatim>\<open>(req_id, j)\<close>, which means group 0, or \<^verbatim>\<open>(req_id, j, gid)\<close>.\<close>

datatype pending_entry = Pending_Pair string nat | Pending_Triple string nat nat

fun pending_fields :: "pending_entry \<Rightarrow> string \<times> nat \<times> nat" where
  "pending_fields (Pending_Triple rid j gid) = (rid, j, gid)"
| "pending_fields (Pending_Pair rid j) = (rid, j, 0)"

definition reclaim_one :: "bref \<Rightarrow> pending_entry \<Rightarrow> int \<times> kv_cache_manager \<Rightarrow> (int \<times> kv_cache_manager) res" where
  "reclaim_one null_blk item s =
     (case pending_fields item of (rid, j, gid) \<Rightarrow>
      case s of (freed, km) \<Rightarrow>
        let managers = km_managers km
        in if gid \<ge> length managers then Inr s
           else case map_of (req_to_blocks (managers ! gid)) rid of
             None \<Rightarrow> Inr s
           | Some blocks \<Rightarrow>
               if blocks = [] \<or> j \<ge> length blocks then Inr s
               else if is_null (pheap (km_pool km) (blocks ! j)) then Inr s
               else bindE (free_blocks [blocks ! j] False (km_pool km)) (\<lambda>p.
                 Inr (freed + 1, km\<lparr>km_coordinator := with_managers
                   (managers[gid := set_row rid (blocks[j := null_blk]) (managers ! gid)]) p (km_coordinator km)\<rparr>)))"

text \<open>The result is the number of freed blocks; \<open>freed_total\<close> is the running total kept on the manager object.\<close>

definition skive_reclaim :: "pending_entry list \<Rightarrow> int \<Rightarrow> kv_cache_manager \<Rightarrow> (int \<times> int \<times> kv_cache_manager) res" where
  "skive_reclaim pending freed_total km =
     (if km_managers km = [] then Inr (0, freed_total, km)
      else bindE (foldE (reclaim_one (null_block (km_pool km))) pending (0, km)) (\<lambda>(freed, km').
        Inr (freed, if freed \<noteq> 0 then freed_total + freed else freed_total, km')))"

section \<open>One entry\<close>

lemma reclaim_ok:
  assumes "mgr_inv E m p fl" "j < length (row_of m rid)" "row_of m rid ! j \<noteq> Blk 0"
  shows "\<exists>p' fl'. free_blocks [row_of m rid ! j] False p = Inr p' \<and>
    op_ok E rid m p fl (set_row rid ((row_of m rid)[j := Blk 0]) m) p' fl'"
proof -
  let ?row = "row_of m rid" and ?b = "row_of m rid ! j"
  let ?m = "set_row rid (?row[j := Blk 0]) m"
  have b: "?b \<in> set ?row" "valid_block p ?b" "1 \<le> refc p ?b"
    using assms row_release(1) [OF assms(1), of rid] row_positive(2) [OF assms(1), of ?b rid] by auto
  have inv: "pool_inv p fl" using assms(1) by (simp add: mgr_inv_def)
  obtain p' where p': "free_blocks [?b] False p = Inr p'" "pool_inv p' (fl @ filter (\<lambda>b. b \<noteq> Blk 0 \<and> refc p b = 1) [?b])"
    "same_config p p'" "\<forall>c. refc p' c = refc p c - int (count_list [?b] c)" "\<forall>c. bhash p' c = bhash p c"
    using free_blocks_law [OF inv, of "[?b]" False] b assms(3) by auto
  have cnt: "count_list (?row[j := Blk 0]) c + of_bool (?b = c) = count_list ?row c + of_bool (Blk 0 = c)" for c
    using count_list_update [OF assms(2), of "Blk 0" c] .
  have "row_ok p (?row[j := Blk 0])"
  proof -
    have "count_list (?row[j := Blk 0]) c \<le> 1" if "c \<noteq> Blk 0" for c
      using row_release(2) [OF assms(1), of rid] cnt [of c] that unfolding distinct_filter_count by fastforce
    moreover have "\<forall>c \<in> set (?row[j := Blk 0]). valid_block p c"
      using row_release(1) [OF assms(1), of rid] set_update_subset_insert [of ?row j "Blk 0"] by (auto simp: valid_block_def)
    ultimately show ?thesis unfolding row_ok_def distinct_filter_count by blast
  qed
  moreover have "refc p' c + int (count_list ?row c) = refc p c + int (count_list (?row[j := Blk 0]) c)" if "c \<in> usable p" for c
  proof -
    have "c \<noteq> Blk 0" using that usable_neq_0 by blast
    thus ?thesis using p'(4) cnt [of c] by (cases "?b = c") auto
  qed
  ultimately have inv': "mgr_inv E ?m p' (fl @ filter (\<lambda>b. b \<noteq> Blk 0 \<and> refc p b = 1) [?b])"
    using mgr_inv_set_row [OF assms(1) p'(2,3)] by blast
  have keep: "fresh p' c" if "fresh p c" "c \<noteq> ?b" for c
    using that p'(3-5) by (simp add: fresh_def same_config_def)
  have "fresh p' c" if t: "\<forall>b \<in> tail_blocks m rid. fresh p b" "c \<in> tail_blocks ?m rid" for c
  proof -
    have c: "c \<in> set (drop (cached_count m rid) (?row[j := Blk 0]))" "c \<noteq> Blk 0" using t(2) by (auto simp: tail_blocks_def)
    have "c \<in> set (drop (cached_count m rid) ?row)"
      using c set_update_subset_insert [of "drop (cached_count m rid) ?row" "j - cached_count m rid" "Blk 0"]
      by (cases "j < cached_count m rid") (auto simp: drop_update_cancel drop_update_swap)
    hence "fresh p c" using t(1) c(2) by (simp add: tail_blocks_def)
    moreover have "c \<noteq> ?b"
    proof
      assume "c = ?b"
      moreover have "count_list (?row[j := Blk 0]) ?b = 0" using cnt [of ?b] count_row_1 [OF assms(1) b(1) assms(3)] assms(3) by auto
      ultimately show False using c(1) by (metis count_list_0_iff in_set_dropD)
    qed
    ultimately show ?thesis by (rule keep)
  qed
  hence "op_ok E rid m p fl ?m p' (fl @ filter (\<lambda>b. b \<noteq> Blk 0 \<and> refc p b = 1) [?b])"
    using inv' p'(3) keep b(1) by (auto simp: op_ok_def only_row_def)
  thus ?thesis using p'(1) by blast
qed

text \<open>The row after an entry, and the same for a whole list of entries of one group and request.\<close>

definition reclaimed :: "pending_entry \<Rightarrow> nat \<Rightarrow> string \<Rightarrow> bref list \<Rightarrow> bref list" where
  "reclaimed item g rid row = (case pending_fields item of (r, j, gid) \<Rightarrow> if r = rid \<and> gid = g then row[j := Blk 0] else row)"

lemma map_of_row: "map_of (req_to_blocks m) rid = Some bs \<Longrightarrow> row_of m rid = bs"
  by (simp add: row_of_def)

lemma coord_is_null: "coord_inv ms p fl \<Longrightarrow> m \<in> set ms \<Longrightarrow> b \<in> set (row_of m r) \<Longrightarrow> is_null (pheap p b) \<longleftrightarrow> b = Blk 0"
  using valid_block_cases(1) [of p b] by (auto simp: coord_inv_def rows_ok_def row_ok_def pool_inv_def)

definition reclaim_hit :: "pending_entry \<Rightarrow> kv_manager list \<Rightarrow> bool" where
  "reclaim_hit item ms = (case pending_fields item of (rid, j, gid) \<Rightarrow>
     gid < length ms \<and> j < length (row_of (ms ! gid) rid) \<and> row_of (ms ! gid) rid ! j \<noteq> Blk 0)"

lemma reclaim_one_miss:
  assumes "km_inv km fl" "\<not> reclaim_hit item (km_managers km)"
  shows "reclaim_one nb item (freed, km) = Inr (freed, km)"
    "g < length (km_managers km) \<Longrightarrow> reclaimed item g r (row_of (km_managers km ! g) r) = row_of (km_managers km ! g) r"
proof -
  obtain rid j gid where i: "pending_fields item = (rid, j, gid)" by (metis prod_cases3)
  have inv: "coord_inv (km_managers km) (km_pool km) fl" using assms(1) by (simp add: km_inv_def Let_def km_pool_def)
  let ?m = "km_managers km ! gid"
  have "is_null (pheap (km_pool km) (row_of ?m rid ! j))" if "gid < length (km_managers km)" "j < length (row_of ?m rid)"
    using assms(2) i that coord_is_null [OF inv, of ?m "row_of ?m rid ! j" rid] nth_mem [OF that(2)] by (simp add: reclaim_hit_def)
  thus "reclaim_one nb item (freed, km) = Inr (freed, km)"
    using i by (auto simp: reclaim_one_def Let_def row_of_def split: option.splits)
  show "reclaimed item g r (row_of (km_managers km ! g) r) = row_of (km_managers km ! g) r" if "g < length (km_managers km)"
  proof -
    have "(row_of ?m rid)[j := Blk 0] = row_of ?m rid" if "gid < length (km_managers km)"
      using assms(2) i that list_update_id [of "row_of ?m rid" j]
      by (cases "j < length (row_of ?m rid)") (simp_all add: reclaim_hit_def list_update_beyond)
    thus ?thesis using i that by (auto simp: reclaimed_def)
  qed
qed

lemma reclaim_one_hit:
  assumes "km_inv km fl" "reclaim_hit item (km_managers km)"
  shows "\<exists>km' fl'. reclaim_one (Blk 0) item (freed, km) = Inr (freed + 1, km') \<and> km_inv km' fl' \<and>
    same_config (km_pool km) (km_pool km') \<and> length (km_managers km') = length (km_managers km) \<and>
    (\<forall>g < length (km_managers km). \<forall>r. row_of (km_managers km' ! g) r = reclaimed item g r (row_of (km_managers km ! g) r))"
proof -
  let ?ms = "km_managers km" and ?p = "km_pool km"
  obtain rid j gid where i: "pending_fields item = (rid, j, gid)" by (metis prod_cases3)
  let ?m = "?ms ! gid"
  have h: "gid < length ?ms" "j < length (row_of ?m rid)" "row_of ?m rid ! j \<noteq> Blk 0" using assms(2) i by (simp_all add: reclaim_hit_def)
  have inv: "coord_inv ?ms ?p fl" using assms(1) by (simp add: km_inv_def Let_def km_pool_def)
  have sp: "?ms = take gid ?ms @ ?m # drop (Suc gid) ?ms" using h(1) by (rule id_take_nth_drop)
  have inv': "coord_inv (take gid ?ms @ ?m # drop (Suc gid) ?ms) ?p fl" using inv sp by simp
  let ?m' = "set_row rid ((row_of ?m rid)[j := Blk 0]) ?m"
  obtain p' fl' where p': "free_blocks [row_of ?m rid ! j] False ?p = Inr p'"
    "op_ok (others (take gid ?ms) (drop (Suc gid) ?ms)) rid ?m ?p fl ?m' p' fl'"
    using reclaim_ok [OF coord_inv_mgr [OF inv'] h(2,3)] by blast
  have ms': "?ms[gid := ?m'] = take gid ?ms @ ?m' # drop (Suc gid) ?ms" using h(1) by (rule upd_conv_take_nth_drop)
  let ?km = "km\<lparr>km_coordinator := with_managers (?ms[gid := ?m']) p' (km_coordinator km)\<rparr>"
  have sc: "same_config ?p p'" using p'(2) by (simp add: op_ok_def)
  have "km_inv ?km fl'"
  proof (rule km_inv_update [OF assms(1)])
    show "coord_inv (?ms[gid := ?m']) p' fl'" unfolding ms' by (rule coord_update [OF inv' p'(2)])
    show "same_config (co_block_pool (km_coordinator km)) p'" using sc by (simp add: km_pool_def)
    show "\<forall>k < length ?ms. only_row rid (?ms ! k) (?ms[gid := ?m'] ! k)" using h(1) by (auto simp: nth_list_update only_row_def)
  qed simp
  moreover have "row_of ?m rid \<noteq> []" using h(2) by auto
  then obtain bs where bs: "map_of (req_to_blocks ?m) rid = Some bs" "bs = row_of ?m rid"
    by (cases "map_of (req_to_blocks ?m) rid") (simp_all add: row_of_def)
  moreover have "\<not> is_null (pheap ?p (row_of ?m rid ! j))" using coord_is_null [OF inv, of ?m _ rid] h nth_mem [OF h(2)] by simp
  hence "reclaim_one (Blk 0) item (freed, km) = Inr (freed + 1, ?km)"
    using i h bs p'(1) by (auto simp: reclaim_one_def Let_def)
  moreover have "row_of (?ms[gid := ?m'] ! g) r = reclaimed item g r (row_of (?ms ! g) r)" if "g < length ?ms" for g r
    using i that h(1) by (auto simp: reclaimed_def nth_list_update)
  ultimately show ?thesis using sc by (intro exI [of _ ?km] exI [of _ fl']) (simp add: km_pool_def)
qed

section \<open>A list of entries\<close>

fun reclaim_count :: "pending_entry list \<Rightarrow> (nat \<Rightarrow> string \<Rightarrow> bref list) \<Rightarrow> nat \<Rightarrow> int" where
  "reclaim_count [] rows n = 0"
| "reclaim_count (item # items) rows n =
     (case pending_fields item of (rid, j, gid) \<Rightarrow> of_bool (gid < n \<and> j < length (rows gid rid) \<and> rows gid rid ! j \<noteq> Blk 0)) +
     reclaim_count items (\<lambda>g r. reclaimed item g r (rows g r)) n"

lemma reclaim_count_cong:
  "(\<And>g r. g < n \<Longrightarrow> rows g r = rows' g r) \<Longrightarrow> reclaim_count items rows n = reclaim_count items rows' n"
proof (induction items arbitrary: rows rows')
  case (Cons item items)
  have "reclaim_count items (\<lambda>g r. reclaimed item g r (rows g r)) n = reclaim_count items (\<lambda>g r. reclaimed item g r (rows' g r)) n"
    by (rule Cons.IH) (simp add: Cons.prems)
  thus ?case using Cons.prems by (auto split: prod.splits)
qed simp

lemma reclaim_run:
  assumes "km_inv km fl"
  shows "\<exists>km' fl'. foldE (reclaim_one (Blk 0)) items (freed, km) =
      Inr (freed + reclaim_count items (\<lambda>g. row_of (km_managers km ! g)) (length (km_managers km)), km') \<and> km_inv km' fl' \<and>
    same_config (km_pool km) (km_pool km') \<and> length (km_managers km') = length (km_managers km) \<and>
    (\<forall>g < length (km_managers km). \<forall>r. row_of (km_managers km' ! g) r = fold (\<lambda>i. reclaimed i g r) items (row_of (km_managers km ! g) r))"
  using assms
proof (induction items arbitrary: freed km fl)
  case Nil
  thus ?case by auto
next
  case (Cons item items)
  let ?hit = "reclaim_hit item (km_managers km)" and ?n = "length (km_managers km)"
  obtain km1 fl1 where one: "reclaim_one (Blk 0) item (freed, km) = Inr (freed + of_bool ?hit, km1)" "km_inv km1 fl1"
    "same_config (km_pool km) (km_pool km1)" "length (km_managers km1) = ?n"
    "\<forall>g < ?n. \<forall>r. row_of (km_managers km1 ! g) r = reclaimed item g r (row_of (km_managers km ! g) r)"
  proof (cases ?hit)
    case True
    thus thesis using reclaim_one_hit [OF Cons.prems True, of freed] that by auto
  next
    case False
    thus thesis using reclaim_one_miss [OF Cons.prems False] Cons.prems that [of km fl] by simp
  qed
  obtain km2 fl2 where two: "foldE (reclaim_one (Blk 0)) items (freed + of_bool ?hit, km1) =
      Inr (freed + of_bool ?hit + reclaim_count items (\<lambda>g. row_of (km_managers km1 ! g)) ?n, km2)" "km_inv km2 fl2"
    "same_config (km_pool km1) (km_pool km2)" "length (km_managers km2) = ?n"
    "\<forall>g < ?n. \<forall>r. row_of (km_managers km2 ! g) r = fold (\<lambda>i. reclaimed i g r) items (row_of (km_managers km1 ! g) r)"
    using Cons.IH [OF one(2), of "freed + of_bool ?hit"] unfolding one(4) by blast
  have "reclaim_count items (\<lambda>g. row_of (km_managers km1 ! g)) ?n =
      reclaim_count items (\<lambda>g r. reclaimed item g r (row_of (km_managers km ! g) r)) ?n"
    using one(5) by (intro reclaim_count_cong) auto
  hence "freed + of_bool ?hit + reclaim_count items (\<lambda>g. row_of (km_managers km1 ! g)) ?n =
      freed + reclaim_count (item # items) (\<lambda>g. row_of (km_managers km ! g)) ?n"
    by (simp add: reclaim_hit_def split: prod.splits)
  thus ?case using one two same_config_trans [OF one(3) two(3)]
    by (intro exI [of _ km2] exI [of _ fl2]) simp
qed

lemma skive_reclaim_law:
  assumes "km_inv km fl"
  shows "\<exists>km' fl'. skive_reclaim pending tot km =
      (let n = reclaim_count pending (\<lambda>g. row_of (km_managers km ! g)) (length (km_managers km)) in Inr (n, tot + n, km')) \<and>
    km_inv km' fl' \<and> same_config (km_pool km) (km_pool km') \<and> length (km_managers km') = length (km_managers km) \<and>
    (\<forall>g < length (km_managers km). \<forall>r. row_of (km_managers km' ! g) r = fold (\<lambda>i. reclaimed i g r) pending (row_of (km_managers km ! g) r))"
proof (cases "km_managers km = []")
  case True
  have "reclaim_count pending rows 0 = 0" for rows by (induction pending arbitrary: rows) (simp_all split: prod.splits)
  thus ?thesis using True assms by (intro exI [of _ km] exI [of _ fl]) (simp add: skive_reclaim_def)
next
  case False
  have "null_block (km_pool km) = Blk 0" using assms by (simp add: km_inv_def Let_def km_pool_def coord_inv_def pool_inv_def shape_ok_def)
  thus ?thesis using False reclaim_run [OF assms, of pending 0] by (auto simp: skive_reclaim_def Let_def)
qed

end
