(* ===== verification/Cache_Lifecycle.thy ===== *)
theory Cache_Lifecycle
  imports Skive_Reclaim Hits_Correct
begin

text \<open>
  The life of a KV-cache manager: a new one satisfies the invariant, each call of the scheduler keeps it,
  and every state that a run can reach satisfies it. When the last request is freed every block is free
  again.
\<close>

section \<open>A new manager\<close>

definition real_block_size :: "kv_cache_spec \<Rightarrow> int \<Rightarrow> int \<Rightarrow> int" where
  "real_block_size spec dcp pcp = (if dcp * pcp > 1 then block_size_of spec * (dcp * pcp) else block_size_of spec)"

definition group_ok :: "registry \<Rightarrow> int \<Rightarrow> int \<Rightarrow> bool \<Rightarrow> int \<Rightarrow> int \<Rightarrow> kv_cache_group \<Rightarrow> bool" where
  "group_ok reg sbs hbs caching dcp pcp g \<longleftrightarrow>
     (\<exists>c. get_manager_class reg (group_spec g) = Some c \<and> attn_class c) \<and> 0 < block_size_of (group_spec g) \<and>
     sbs mod block_size_of (group_spec g) = 0 \<and> (caching \<longrightarrow> real_block_size (group_spec g) dcp pcp = hbs)"

definition config_ok :: "registry \<Rightarrow> kv_cache_config \<Rightarrow> int \<Rightarrow> int \<Rightarrow> bool \<Rightarrow> int \<Rightarrow> int \<Rightarrow> bool" where
  "config_ok reg cfg sbs hbs caching dcp pcp \<longleftrightarrow>
     (\<forall>g \<in> set (kv_cache_groups cfg). group_ok reg sbs hbs caching dcp pcp g) \<and>
     int (length (kv_cache_groups cfg)) \<le> 2 ^ 32 \<and> 0 < num_blocks cfg \<and> 0 < sbs \<and> sbs mod hbs = 0 \<and> 0 < dcp \<and> 0 < pcp"

definition fresh_mgr :: "block_pool \<Rightarrow> kv_manager \<Rightarrow> bool" where
  "fresh_mgr p m \<longleftrightarrow> mgr_wf p m \<and> req_to_blocks m = [] \<and> num_cached_block m = [] \<and> mgr_null m = Blk 0"

lemma fresh_mgr_eagle [simp]: "fresh_mgr p (m\<lparr>use_eagle := e\<rparr>) = fresh_mgr p m"
  by (simp add: fresh_mgr_def mgr_wf_def)

lemma fresh_coord:
  assumes "pool_inv p fl" "\<forall>b \<in> usable p. refc p b = 0" "\<forall>m \<in> set ms. fresh_mgr p m"
  shows "coord_inv ms p fl" "all_wf ms p"
proof -
  have "held_all ms b = 0" for b using assms(3) by (induction ms) (auto simp: fresh_mgr_def held_def)
  thus "coord_inv ms p fl" using assms
    by (auto simp: coord_inv_def rows_ok_def fresh_mgr_def row_of_def tails_fresh_def tail_blocks_def)
  show "all_wf ms p" using assms(3) by (simp add: fresh_mgr_def)
qed

definition manager_of :: "registry \<Rightarrow> int \<Rightarrow> int \<Rightarrow> kv_cache_group \<Rightarrow> kv_manager \<Rightarrow> bool" where
  "manager_of reg dcp pcp g m \<longleftrightarrow> mgr_spec m = group_spec g \<and> get_manager_class reg (group_spec g) = Some (mgr_class m) \<and>
     mgr_block_size m = real_block_size (group_spec g) dcp pcp"

lemma new_manager_fresh:
  assumes "group_ok reg sbs (hash_block_size p) (enable_caching p) dcp pcp g" "0 < dcp" "0 < pcp" "null_block p = Blk 0"
    and "int i < 2 ^ 32"
  shows "\<exists>m. get_manager_for_kv_cache_spec reg (group_spec g) batched len p (enable_caching p) (int i) sbs dcp pcp = Inr m \<and>
    fresh_mgr p m \<and> manager_of reg dcp pcp g m"
proof -
  obtain c where c: "get_manager_class reg (group_spec g) = Some c" "attn_class c" using assms(1) by (auto simp: group_ok_def)
  have "0 < dcp * pcp" using assms(2,3) by simp
  hence "0 < real_block_size (group_spec g) dcp pcp" using assms(1) by (auto simp: group_ok_def real_block_size_def)
  thus ?thesis using c assms
    by (cases c) (auto simp: get_manager_for_kv_cache_spec_def manager_init_def fresh_mgr_def mgr_wf_def attn_class_def
        group_ok_def real_block_size_def manager_of_def)
qed

lemma make_managers_fresh:
  assumes "\<forall>g \<in> set gs. group_ok reg sbs (hash_block_size p) (enable_caching p) dcp pcp g" "0 < dcp" "0 < pcp"
    and "null_block p = Blk 0" "int (i + length gs) \<le> 2 ^ 32"
  shows "\<exists>ms. make_managers reg batched len p (enable_caching p) sbs dcp pcp i gs = Inr ms \<and> length ms = length gs \<and>
    (\<forall>m \<in> set ms. fresh_mgr p m) \<and> list_all2 (manager_of reg dcp pcp) gs ms"
  using assms(1,5)
proof (induction gs arbitrary: i)
  case (Cons g gs)
  obtain m where "get_manager_for_kv_cache_spec reg (group_spec g) batched len p (enable_caching p) (int i) sbs dcp pcp = Inr m"
    "fresh_mgr p m" "manager_of reg dcp pcp g m"
    using new_manager_fresh [of reg sbs p dcp pcp g i batched len] Cons.prems assms(2-4) by auto
  thus ?case using Cons.IH [of "Suc i"] Cons.prems by auto
qed simp

lemma coordinator_init_fresh:
  assumes "config_ok reg cfg sbs hbs caching dcp pcp" "validate_retention_interval ret sbs cfg = Inr ()"
  shows "\<exists>p ms. coordinator_init reg cls cfg len batched eagle_on caching events dcp pcp sbs hbs use_int metrics ret =
      Inr \<lparr>co_class = cls, co_config = cfg, co_enable_caching = caching, co_scheduler_block_size = sbs,
            co_hash_block_size = hbs, co_block_pool = p, eagle_group_ids = eagle_groups eagle_on cfg,
            single_type_managers = ms, retention_interval = ret, co_block_size = 0,
            co_dcp_world_size = dcp, co_pcp_world_size = pcp, attention_groups = []\<rparr> \<and>
    pool_inv p (map Blk [1..<nat (num_blocks cfg)]) \<and> (\<forall>b \<in> usable p. refc p b = 0 \<and> bhash p b = None) \<and>
    enable_caching p = caching \<and> hash_block_size p = hbs \<and> num_gpu_blocks p = num_blocks cfg \<and>
    length ms = length (kv_cache_groups cfg) \<and> (\<forall>m \<in> set ms. fresh_mgr p m) \<and>
    list_all2 (manager_of reg dcp pcp) (kv_cache_groups cfg) ms"
proof -
  obtain p where p: "pool_init (num_blocks cfg) caching hbs events use_int metrics = Inr p"
    "pool_inv p (map Blk [1..<nat (num_blocks cfg)])" "enable_caching p = caching" "hash_block_size p = hbs"
    "num_gpu_blocks p = num_blocks cfg" "\<forall>b \<in> usable p. refc p b = 0 \<and> bhash p b = None"
    using pool_init_law [of "num_blocks cfg" caching hbs events use_int metrics] assms(1) by (auto simp: config_ok_def)
  have null: "null_block p = Blk 0" using p(2) by (simp add: pool_inv_def shape_ok_def)
  obtain ms where ms: "make_managers reg batched len p caching sbs dcp pcp 0 (kv_cache_groups cfg) = Inr ms"
    "length ms = length (kv_cache_groups cfg)" "\<forall>m \<in> set ms. fresh_mgr p m"
    "list_all2 (manager_of reg dcp pcp) (kv_cache_groups cfg) ms"
    using make_managers_fresh [of "kv_cache_groups cfg" reg sbs p dcp pcp 0 batched len] assms(1) null p(3,4)
    by (auto simp: config_ok_def)
  have guard: "sbs mod hbs = 0 \<and> (\<forall>g \<in> set (kv_cache_groups cfg). sbs mod block_size_of (group_spec g) = 0)"
    using assms(1) by (auto simp: config_ok_def group_ok_def)
  show ?thesis using p ms guard assms(2) unfolding coordinator_init_def by simp
qed

definition fresh_co :: "kv_cache_config \<Rightarrow> bool \<Rightarrow> int \<Rightarrow> coordinator \<Rightarrow> bool" where
  "fresh_co cfg caching sbs co \<longleftrightarrow>
     pool_inv (co_block_pool co) (map Blk [1..<nat (num_blocks cfg)]) \<and> (\<forall>b \<in> usable (co_block_pool co). refc (co_block_pool co) b = 0) \<and>
     enable_caching (co_block_pool co) = caching \<and> num_gpu_blocks (co_block_pool co) = num_blocks cfg \<and>
     length (single_type_managers co) = length (kv_cache_groups cfg) \<and>
     (\<forall>m \<in> set (single_type_managers co). fresh_mgr (co_block_pool co) m) \<and> co_config co = cfg \<and> co_scheduler_block_size co = sbs"

lemma unitary_init_fresh:
  assumes "fresh_co cfg caching sbs co" "unitary_init co = Inr co'"
  shows "fresh_co cfg caching sbs co'"
proof -
  obtain b e where "co' = co\<lparr>co_block_size := b, single_type_managers := map (\<lambda>m. m\<lparr>use_eagle := e\<rparr>) (single_type_managers co)\<rparr>"
    using assms(2) by (cases "kv_cache_groups (co_config co)") (auto simp: unitary_init_def Let_def err_simps)
  thus ?thesis using assms(1) by (auto simp: fresh_co_def)
qed

lemma hybrid_init_fresh:
  assumes "fresh_co cfg caching sbs co" "hybrid_init co = Inr co'"
  shows "fresh_co cfg caching sbs co'"
proof -
  define eagle where "eagle P = map (\<lambda>(i, m). if P i then m\<lparr>use_eagle := True\<rparr> else m) (enumerate 0 (single_type_managers co))" for P
  define order where "order gs = filter is_full_group gs @ filter (\<lambda>g. \<not> is_full_group g) gs" for gs
  define P where "P gs i \<longleftrightarrow> i \<in> set (concat (map sg_group_ids (filter sg_use_eagle (order gs))))" for gs i
  obtain gs where co': "co' = co\<lparr>attention_groups := order gs, single_type_managers := eagle (P gs)\<rparr>"
    using assms(2) unfolding hybrid_init_def Let_def order_def [symmetric] P_def [symmetric] eagle_def [symmetric]
    by (auto simp only: err_simps sum.inject)
  have "fresh_mgr (co_block_pool co) m" if "m \<in> set (eagle (P gs))" for m
    using that assms(1) by (auto simp: eagle_def fresh_co_def in_set_enumerate_eq split: if_splits)
  thus ?thesis using assms(1) unfolding co' by (simp add: fresh_co_def) (simp add: eagle_def)
qed

lemma coordinator_fresh:
  assumes "config_ok reg cfg sbs hbs caching dcp pcp" "validate_retention_interval ret sbs cfg = Inr ()"
    and "get_kv_cache_coordinator reg cfg len batched eagle_on caching events dcp pcp sbs hbs use_int metrics ret = Inr co"
  shows "fresh_co cfg caching sbs co"
proof -
  define cls where "cls = (if \<not> caching then NoPrefixCache else if length (kv_cache_groups cfg) = 1 then Unitary else Hybrid)"
  obtain co0 where co0: "coordinator_init reg cls cfg len batched eagle_on caching events dcp pcp sbs hbs use_int metrics ret = Inr co0"
    "fresh_co cfg caching sbs co0"
    using coordinator_init_fresh [OF assms(1,2), of cls len batched eagle_on events use_int metrics] by (auto simp: fresh_co_def)
  show ?thesis
    using assms(3) co0 unitary_init_fresh [OF co0(2)] hybrid_init_fresh [OF co0(2)]
    by (auto simp: get_kv_cache_coordinator_def cls_def split: if_splits)
qed

lemma manager_new_inv:
  assumes "config_ok reg cfg sbs hbs caching dcp pcp" "validate_retention_interval ret sbs cfg = Inr ()"
    and "manager_new reg cfg len sbs hbs batched caching eagle_on log_stats events dcp pcp use_int metrics ret = Inr km"
  shows "km_inv km (map Blk [1..<nat (num_blocks cfg)])" "num_gpu_blocks (km_pool km) = num_blocks cfg"
    "\<forall>m \<in> set (km_managers km). req_to_blocks m = [] \<and> num_cached_block m = []"
proof -
  obtain co where co: "get_kv_cache_coordinator reg cfg len (case batched of None \<Rightarrow> len | Some b \<Rightarrow> b) eagle_on caching events
      dcp pcp sbs hbs use_int metrics ret = Inr co" "km_coordinator km = co" "km_enable_caching km = caching"
    "km_log_stats km \<longrightarrow> km_stats km \<noteq> None"
    using assms(3) by (auto simp: manager_new_def bindE_def split: sum.splits)
  have f: "fresh_co cfg caching sbs co" by (rule coordinator_fresh [OF assms(1,2) co(1)])
  note c = fresh_coord [of "co_block_pool co" "map Blk [1..<nat (num_blocks cfg)]" "single_type_managers co"]
  show "km_inv km (map Blk [1..<nat (num_blocks cfg)])" "num_gpu_blocks (km_pool km) = num_blocks cfg"
    using f c co assms(1) by (auto simp: km_inv_def Let_def num_groups_def fresh_co_def config_ok_def km_pool_def)
  show "\<forall>m \<in> set (km_managers km). req_to_blocks m = [] \<and> num_cached_block m = []"
    using f co(2) by (simp add: fresh_co_def fresh_mgr_def)
qed

section \<open>What a call that fails for lack of blocks means\<close>

lemma skip_untracked_pool:
  assumes "\<forall>m \<in> set ms. row_of m rid = [] \<and> mgr_class m \<noteq> MambaManager"
    and "each_manager (\<lambda>_ mp. with_unit (remove_skipped_blocks rid tot mp)) i ms p = Inr (rs, ms', p')"
  shows "p' = p"
  using assms
proof (induction ms arbitrary: i rs ms')
  case (Cons m ms)
  have "\<exists>m'. remove_skipped_blocks rid tot (m, p) = Inr (m', p)"
    using Cons.prems(1)
    by (auto simp: remove_skipped_blocks_def base_remove_skipped_blocks_def Let_def free_partitioned_def free_blocks_def
        prepend_n_def append_n_def)
  thus ?case using Cons by (auto simp: with_unit_def bindE_def split: sum.splits)
qed simp

lemma with_managers_inject: "with_managers ms p co = with_managers ms' p' co \<longleftrightarrow> ms = ms' \<and> p = p'"
  by (metis with_managers_simps(1,2))

lemma slots_needed_skip:
  assumes "km_inv km fl" "slots_ready rid ncb tot (km_managers km) (km_pool km)"
    and "co_remove_skipped_blocks rid tot (km_coordinator km) = Inr (with_managers ms' p' (km_coordinator km))"
  shows "slots_needed rid ncb tot ntok ms' p' = slots_needed rid ncb tot ntok (km_managers km) (km_pool km)"
proof -
  let ?ms = "km_managers km" and ?p = "km_pool km"
  obtain ms1 p1 where s: "co_remove_skipped_blocks rid tot (km_coordinator km) = Inr (with_managers ms1 p1 (km_coordinator km))"
    "slots_ready rid ncb tot ms1 p1" "length ms1 = length ?ms"
    "\<forall>j < length ?ms. only_row rid (?ms ! j) (ms1 ! j) \<and> skip_rel rid tot (?ms ! j) (ms1 ! j)"
    using skip_stage [OF assms(1,2)] by blast
  have eq: "ms1 = ms'" "p1 = p'"
    using s(1) assms(3) by (simp_all add: with_managers_inject)
  have p: "p' = ?p" if "ncb = Kv_Blocks hs" for hs
  proof -
    have "\<forall>m \<in> set ?ms. row_of m rid = []"
      using assms(2) that by (fastforce simp: slots_ready_def list_all2_conv_all_nth adoptable_def untracked_def in_set_conv_nth)
    moreover have "\<forall>m \<in> set ?ms. mgr_class m \<noteq> MambaManager" using assms(1) mgr_wf_class by (auto simp: km_inv_def Let_def)
    moreover obtain rs where "each_manager (\<lambda>_ mp. with_unit (remove_skipped_blocks rid tot mp)) 0 ?ms ?p = Inr (rs, ms', p')"
      using assms(3)
      by (auto simp: co_remove_skipped_blocks_def on_managers_def km_pool_def with_managers_def [symmetric] with_managers_inject err_simps)
    ultimately show ?thesis using skip_untracked_pool [of ?ms rid tot 0 ?p rs ms' p'] by blast
  qed
  have row: "length (row_of (ms' ! j) rid) = length (row_of (?ms ! j) rid)" "mgr_block_size (ms' ! j) = mgr_block_size (?ms ! j)"
    "skipped_of (ms' ! j) tot = skipped_of (?ms ! j) tot" if "j < length ?ms" for j
  proof -
    have "only_row rid (?ms ! j) (ms' ! j)" "skip_rel rid tot (?ms ! j) (ms' ! j)" using s(4) that eq by simp_all
    thus "length (row_of (ms' ! j) rid) = length (row_of (?ms ! j) rid)" "mgr_block_size (ms' ! j) = mgr_block_size (?ms ! j)"
      "skipped_of (ms' ! j) tot = skipped_of (?ms ! j) tot"
      using only_row_block_size only_row_skipped by (auto simp: skip_rel_def)
  qed
  have each: "(case ncb of Empty_Blocks \<Rightarrow> slots_missing ntok rid (ms' ! j)
      | Kv_Blocks hs \<Rightarrow> hit_missing ntok tot (ms' ! j) (hs ! j) + evictable p' tot (ms' ! j) (hs ! j)) =
    (case ncb of Empty_Blocks \<Rightarrow> slots_missing ntok rid (?ms ! j)
      | Kv_Blocks hs \<Rightarrow> hit_missing ntok tot (?ms ! j) (hs ! j) + evictable ?p tot (?ms ! j) (hs ! j))" if "j < length ?ms" for j
    using row [OF that] p by (cases ncb) (simp_all add: slots_missing_def hit_missing_def evictable_def)
  show ?thesis
    unfolding slots_needed_nth [OF assms(2)] slots_needed_nth [OF s(2) [unfolded eq]] s(3) [unfolded eq]
    by (intro arg_cong [of _ _ sum_list] map_cong refl each) simp
qed

section \<open>The other calls\<close>

lemma coord_pool:
  assumes "coord_inv ms p fl" "pool_inv p' fl" "same_config p p'" "\<forall>c. refc p' c = refc p c"
    and "\<forall>b \<in> usable p. bhash p' b = bhash p b \<or> bhash p' b = None"
  shows "coord_inv ms p' fl"
proof -
  have "fresh p' b" if "m \<in> set ms" "b \<in> tail_blocks m r" for m r b
  proof -
    have "b \<in> usable p" using row_usable [OF assms(1) that(1)] tail_blocks_in_row [OF that(2)] by blast
    moreover have "fresh p b" using assms(1) that by (auto simp: coord_inv_def tails_fresh_def)
    ultimately show ?thesis using assms(3-5) by (auto simp: fresh_def same_config_def)
  qed
  thus ?thesis using assms(1,2,4) same_config_usable [OF assms(3)] row_ok_config [OF assms(3)]
    by (simp add: coord_inv_def rows_ok_def tails_fresh_def)
qed

text \<open>Two managers that hold the same blocks for the same requests.\<close>

definition mgr_similar :: "kv_manager \<Rightarrow> kv_manager \<Rightarrow> bool" where
  "mgr_similar m m' \<longleftrightarrow> mgr_config m' = mgr_config m \<and> (\<forall>r. row_of m' r = row_of m r) \<and>
     num_cached_block m' = num_cached_block m \<and> (\<forall>b. held (req_to_blocks m') b = held (req_to_blocks m) b) \<and>
     (distinct (map fst (req_to_blocks m)) \<longrightarrow> distinct (map fst (req_to_blocks m')))"

lemma mgr_similar_fields:
  "req_to_blocks m' = req_to_blocks m \<Longrightarrow> num_cached_block m' = num_cached_block m \<Longrightarrow> mgr_config m' = mgr_config m \<Longrightarrow> mgr_similar m m'"
  by (simp add: mgr_similar_def row_of_def)

lemma mgr_similar_ensure_row: "distinct (map fst (req_to_blocks m)) \<Longrightarrow> mgr_similar m (ensure_row rid m)"
  using held_update [of "req_to_blocks m" rid "[]"]
  by (auto simp: mgr_similar_def ensure_row_def distinct_update row_in_def set_row_def mgr_config_def cached_count_def row_of_def update_conv')

lemma coord_similar:
  assumes "coord_inv ms p fl" "all_wf ms p" "list_all2 mgr_similar ms ms'"
  shows "coord_inv ms' p fl" "all_wf ms' p"
proof -
  have nth: "length ms' = length ms" "\<forall>j < length ms. mgr_similar (ms ! j) (ms' ! j)"
    using assms(3) by (simp_all add: list_all2_conv_all_nth)
  have mem: "\<exists>m \<in> set ms. mgr_similar m m'" if "m' \<in> set ms'" for m' using that nth by (metis in_set_conv_nth)
  have "held_all ms' b = held_all ms b" for b
    using assms(3) by (induction rule: list_all2_induct) (simp_all add: mgr_similar_def)
  moreover have "rows_ok p m'" if "m' \<in> set ms'" for m'
    using mem [OF that] assms(1) by (auto simp: coord_inv_def rows_ok_def mgr_similar_def mgr_config_def)
  moreover have "fresh p b" if m: "m' \<in> set ms'" "b \<in> tail_blocks m' r" for m' r b
  proof -
    obtain m where "m \<in> set ms" "mgr_similar m m'" using mem [OF m(1)] by blast
    moreover have "tail_blocks m' r = tail_blocks m r"
      using calculation(2) by (simp add: mgr_similar_def tail_blocks_def cached_count_def)
    ultimately show ?thesis using assms(1) m(2) by (auto simp: coord_inv_def tails_fresh_def)
  qed
  ultimately show "coord_inv ms' p fl" using assms(1) by (simp add: coord_inv_def tails_fresh_def)
  show "all_wf ms' p"
  proof
    fix m' assume "m' \<in> set ms'"
    then obtain m where "m \<in> set ms" "mgr_similar m m'" using mem by blast
    thus "mgr_wf p m'" using assms(2) mgr_wf_keep [of m' m p p] by (simp add: mgr_similar_def)
  qed
qed

lemma km_inv_similar:
  assumes "km_inv km fl" "list_all2 mgr_similar (km_managers km) ms'"
  shows "km_inv (km\<lparr>km_coordinator := (km_coordinator km)\<lparr>single_type_managers := ms'\<rparr>\<rparr>) fl"
proof -
  have i: "coord_inv (km_managers km) (km_pool km) fl" "all_wf (km_managers km) (km_pool km)"
    using assms(1) by (simp_all add: km_inv_def Let_def km_pool_def)
  show ?thesis using assms(1) coord_similar [OF i assms(2)] list_all2_lengthD [OF assms(2)]
    by (simp add: km_inv_def Let_def num_groups_def km_pool_def)
qed

lemma km_inv_pool:
  assumes "km_inv km fl" "pool_inv p' fl" "same_config (km_pool km) p'" "\<forall>c. refc p' c = refc (km_pool km) c"
    and "\<forall>b \<in> usable (km_pool km). bhash p' b = bhash (km_pool km) b \<or> bhash p' b = None"
  shows "km_inv (set_pool p' km) fl"
proof -
  have i: "coord_inv (km_managers km) (km_pool km) fl" "all_wf (km_managers km) (km_pool km)"
    using assms(1) by (simp_all add: km_inv_def Let_def km_pool_def)
  have "all_wf (km_managers km) p'" using i(2) mgr_wf_keep [OF refl assms(3)] by simp
  thus ?thesis using assms(1,3) coord_pool [OF i(1) assms(2-5)]
    by (simp add: km_inv_def Let_def set_pool_def num_groups_def same_config_def km_pool_def)
qed

lemma km_inv_stats: "km_inv km fl \<Longrightarrow> km_inv (km\<lparr>km_stats := Some s\<rparr>) fl"
  by (simp add: km_inv_def Let_def num_groups_def)

lemma km_free_law:
  assumes "km_inv km fl"
  shows "\<exists>p' fl'. km_free r km = Inr (km\<lparr>km_coordinator :=
      with_managers (map (drop_request (request_id r)) (km_managers km)) p' (km_coordinator km)\<rparr>) \<and>
    km_inv (km\<lparr>km_coordinator := with_managers (map (drop_request (request_id r)) (km_managers km)) p' (km_coordinator km)\<rparr>) fl'"
proof -
  let ?rid = "request_id r" and ?ms = "km_managers km"
  have inv: "coord_inv ?ms (km_pool km) fl" "all_wf ?ms (km_pool km)" using assms by (simp_all add: km_inv_def Let_def km_pool_def)
  obtain rs p' fl' where f: "each_manager (\<lambda>_ mp. with_unit (manager_free ?rid mp)) 0 ?ms (km_pool km) =
      Inr (rs, map (drop_request ?rid) ?ms, p')" "coord_inv (map (drop_request ?rid) ?ms) p' fl'" "same_config (km_pool km) p'"
    using free_run [OF inv, of ?rid] by blast
  have "\<forall>j < length ?ms. only_row ?rid (?ms ! j) (map (drop_request ?rid) ?ms ! j)" by (simp add: only_row_def)
  thus ?thesis using f km_inv_update [OF assms f(2) f(3) [unfolded km_pool_def], of ?rid]
    by (auto simp: km_free_def co_free_def on_managers_def with_managers_def km_pool_def)
qed

section \<open>Runs\<close>

text \<open>
  The calls of the scheduler. A request brings to \<^verbatim>\<open>allocate_slots\<close> the hits that the lookup of its prefix
  returned, or none; no tokens come from an external cache. Blocks are evicted by ids of the pool. The entries
  the worker evicted are reclaimed, whatever they are.
\<close>

inductive cache_step :: "(bytes \<Rightarrow> bytes) \<Rightarrow> kv_cache_manager \<Rightarrow> kv_cache_manager \<Rightarrow> bool" for eh where
  step_slots: "slots_ready (request_id r) ncb tot (km_managers km) (km_pool km) \<Longrightarrow> 0 < num_new \<Longrightarrow> 0 \<le> lookahead \<Longrightarrow>
    0 \<le> reserved \<Longrightarrow> 0 \<le> tot \<Longrightarrow> num_computed_tokens r + nnc = tot \<Longrightarrow> tot + num_new \<le> km_max_model_len km \<Longrightarrow>
    (km_enable_caching km \<and> \<not> delay \<longrightarrow> hashed r (km_pool km)) \<Longrightarrow>
    allocate_slots eh r num_new nnc (Some ncb) lookahead 0 delay enc must_fit reserved km = Inr ((out, km'), r') \<Longrightarrow> cache_step eh km km'"
| step_release: "km_free r km = Inr km' \<Longrightarrow> cache_step eh km km'"
| step_skip: "km_remove_skipped_blocks rid tot km = Inr km' \<Longrightarrow> cache_step eh km km'"
| step_lookup: "get_computed_blocks r km = Some (Inr (x, km')) \<Longrightarrow> cache_step eh km km'"
| step_evict_ids: "\<forall>i \<in> set ids. 0 \<le> i \<and> i < num_gpu_blocks (km_pool km) \<Longrightarrow> km_evict_blocks ids km = Inr km' \<Longrightarrow> cache_step eh km km'"
| step_reset_cache: "km_reset_prefix_cache km = Inr (ok, km') \<Longrightarrow> cache_step eh km km'"
| step_events: "km_take_events km = (es, km') \<Longrightarrow> cache_step eh km km'"
| step_new_ids: "km_take_new_block_ids km = (ids, km') \<Longrightarrow> cache_step eh km km'"
| step_new_step: "cache_step eh km (km_new_step_starts km)"
| step_prefix: "km_get_num_common_prefix_blocks rid km = (ns, km') \<Longrightarrow> cache_step eh km km'"
| step_stats: "make_prefix_cache_stats km = (st, km') \<Longrightarrow> cache_step eh km km'"
| step_reclaim: "skive_reclaim pending tot km = Inr (n, tot', km') \<Longrightarrow> cache_step eh km km'"

lemma events_inv: "pool_inv p fl \<Longrightarrow> pool_inv (p\<lparr>kv_event_queue := es\<rparr>) fl"
  by (simp add: pool_inv_def shape_ok_def counts_ok_def index_ok_def usable_def)

lemma same_config_events [simp]: "same_config p (p\<lparr>kv_event_queue := es\<rparr>)"
  by (simp add: same_config_def)

lemma km_inv_pool_inv: "km_inv km fl \<Longrightarrow> pool_inv (km_pool km) fl"
  by (simp add: km_inv_def Let_def coord_inv_def km_pool_def)

lemma evict_ids_inv:
  assumes "km_inv km fl" "\<forall>i \<in> set ids. 0 \<le> i \<and> i < num_gpu_blocks (km_pool km)"
  shows "\<exists>km'. km_evict_blocks ids km = Inr km' \<and> km_inv km' fl \<and> num_gpu_blocks (km_pool km') = num_gpu_blocks (km_pool km)"
proof -
  obtain p' where p': "evict_blocks ids (km_pool km) = Inr p'" "pool_inv p' fl" "same_config (km_pool km) p'"
    "\<forall>c. refc p' c = refc (km_pool km) c" "\<forall>c. bhash p' c = (if c \<in> (\<lambda>i. Blk (nat i)) ` set ids then None else bhash (km_pool km) c)"
    using evict_blocks_law [OF km_inv_pool_inv [OF assms(1)] assms(2)] by blast
  thus ?thesis using km_inv_pool [OF assms(1) p'(2-4)] by (auto simp: km_evict_blocks_def set_pool_def km_pool_def same_config_def)
qed

lemma reset_cache_inv:
  assumes "km_inv km fl"
  shows "\<exists>ok km'. km_reset_prefix_cache km = Inr (ok, km') \<and> km_inv km' fl \<and> num_gpu_blocks (km_pool km') = num_gpu_blocks (km_pool km)"
proof -
  obtain ok p' where r: "reset_prefix_cache (km_pool km) = (ok, p')" "pool_inv p' fl" "same_config (km_pool km) p'"
    "\<forall>c. refc p' c = refc (km_pool km) c" "\<forall>b \<in> usable (km_pool km). bhash p' b = bhash (km_pool km) b \<or> bhash p' b = None"
    using reset_prefix_cache_law [OF km_inv_pool_inv [OF assms]] by (metis (no_types, lifting))
  let ?km = "set_pool p' km"
  have i: "km_inv ?km fl" using km_inv_pool [OF assms r(2-5)] .
  hence "km_log_stats ?km \<longrightarrow> km_stats ?km \<noteq> None" by (simp add: km_inv_def Let_def)
  moreover have "num_gpu_blocks (km_pool ?km) = num_gpu_blocks (km_pool km)" "\<And>s. km_pool (?km\<lparr>km_stats := s\<rparr>) = km_pool ?km"
    using r(3) by (simp_all add: set_pool_def km_pool_def same_config_def)
  ultimately show ?thesis using r(1) i km_inv_stats [OF i]
    by (cases "ok \<and> km_log_stats ?km") (auto simp: km_reset_prefix_cache_def Let_def)
qed

lemma take_events_inv:
  assumes "km_inv km fl"
  shows "km_inv (snd (km_take_events km)) fl" "num_gpu_blocks (km_pool (snd (km_take_events km))) = num_gpu_blocks (km_pool km)"
proof -
  have t: "snd (km_take_events km) = set_pool (km_pool km) km \<or>
      snd (km_take_events km) = set_pool ((km_pool km)\<lparr>kv_event_queue := []\<rparr>) km"
    by (simp add: km_take_events_def take_events_def)
  note i = km_inv_pool_inv [OF assms]
  show "km_inv (snd (km_take_events km)) fl"
    using t km_inv_pool [OF assms i] km_inv_pool [OF assms events_inv [OF i]] by auto
  show "num_gpu_blocks (km_pool (snd (km_take_events km))) = num_gpu_blocks (km_pool km)"
    using t by (auto simp: set_pool_def km_pool_def)
qed

lemma similar_calls:
  assumes "km_inv km fl"
  shows "km_inv (snd (km_take_new_block_ids km)) fl" "km_inv (km_new_step_starts km) fl"
    "km_inv (snd (km_get_num_common_prefix_blocks rid km)) fl"
proof -
  let ?ms = "km_managers km"
  have "list_all2 mgr_similar ?ms (map (snd \<circ> take_new_block_ids) ?ms)"
    by (auto simp: list_all2_conv_all_nth take_new_block_ids_def mgr_config_def intro!: mgr_similar_fields)
  from km_inv_similar [OF assms this] show "km_inv (snd (km_take_new_block_ids km)) fl"
    by (simp add: km_take_new_block_ids_def Let_def)
  have "list_all2 mgr_similar ?ms (map new_step_starts ?ms)"
    by (auto simp: list_all2_conv_all_nth new_step_starts_def mgr_config_def intro!: mgr_similar_fields)
  from km_inv_similar [OF assms this] show "km_inv (km_new_step_starts km) fl"
    by (simp add: km_new_step_starts_def co_new_step_starts_def)
  have d: "distinct (map fst (req_to_blocks m))" if "m \<in> set ?ms" for m
    using assms that by (auto simp: km_inv_def Let_def coord_inv_def rows_ok_def)
  have "list_all2 mgr_similar ?ms (map (\<lambda>m. snd (get_num_common_prefix_blocks rid (m, km_pool km))) ?ms)"
    using mgr_similar_ensure_row d
    by (auto simp: list_all2_conv_all_nth get_num_common_prefix_blocks_def Let_def intro!: mgr_similar_fields)
  from km_inv_similar [OF assms this] assms show "km_inv (snd (km_get_num_common_prefix_blocks rid km)) fl"
    by (auto simp: km_get_num_common_prefix_blocks_def co_get_num_common_prefix_blocks_def Let_def comp_def km_pool_def)
qed

lemma lookup_inv:
  assumes "km_inv km fl" "get_computed_blocks r km = Some (Inr (x, km'))"
  shows "km_inv km' fl"
proof -
  have "km' = km \<or> (\<exists>s. km' = km\<lparr>km_stats := Some s\<rparr>)"
    using assms(2) by (auto simp: get_computed_blocks_def err_simps split: if_splits option.splits prod.splits)
  thus ?thesis using assms(1) km_inv_stats by blast
qed

lemma skip_inv:
  assumes "km_inv km fl" "km_remove_skipped_blocks rid tot km = Inr km'"
  shows "\<exists>fl'. km_inv km' fl'"
proof -
  let ?ms = "km_managers km"
  have inv: "coord_inv ?ms (km_pool km) fl" "all_wf ?ms (km_pool km)" using assms(1) by (simp_all add: km_inv_def Let_def km_pool_def)
  obtain rs ms' p' fl' where s: "each_manager (\<lambda>_ mp. with_unit (remove_skipped_blocks rid tot mp)) 0 ?ms (km_pool km) = Inr (rs, ms', p')"
    "coord_inv ms' p' fl'" "same_config (km_pool km) p'" "length ms' = length ?ms" "\<forall>j < length ?ms. only_row rid (?ms ! j) (ms' ! j)"
    using remove_skipped_run [OF inv, of rid tot] by blast
  have "km' = km\<lparr>km_coordinator := with_managers ms' p' (km_coordinator km)\<rparr>"
    using assms(2) s(1)
    by (simp add: km_remove_skipped_blocks_def co_remove_skipped_blocks_def on_managers_def with_managers_def km_pool_def)
  thus ?thesis using km_inv_update [OF assms(1) s(2) s(3) [unfolded km_pool_def] s(4,5)] by blast
qed

lemma call_keeps_inv:
  assumes "cache_step eh km km'" "km_inv km fl"
  shows "\<exists>fl'. km_inv km' fl'"
  using assms
proof (cases rule: cache_step.cases)
  case (step_slots r ncb tot num_new lookahead reserved nnc delay enc must_fit out r')
  from slots_run [OF assms(2) step_slots(1-8), of eh enc must_fit] step_slots(9) show ?thesis by auto
next
  case (step_release r)
  thus ?thesis using km_free_law [OF assms(2), of r] by auto
next
  case (step_stats st)
  hence "km' = km \<or> km' = km\<lparr>km_stats := Some new_stats\<rparr>"
    by (auto simp: make_prefix_cache_stats_def split: if_splits)
  thus ?thesis using assms(2) km_inv_stats by blast
next
  case (step_evict_ids ids)
  thus ?thesis using evict_ids_inv [OF assms(2) step_evict_ids(1)] by auto
next
  case (step_reset_cache ok)
  thus ?thesis using reset_cache_inv [OF assms(2)] by auto
next
  case (step_events es)
  thus ?thesis using take_events_inv [OF assms(2)] by (metis snd_conv)
next
  case (step_new_ids ids)
  thus ?thesis using similar_calls(1) [OF assms(2)] by (metis snd_conv)
next
  case step_new_step
  thus ?thesis using similar_calls(2) [OF assms(2)] by blast
next
  case (step_prefix rid ns)
  thus ?thesis using similar_calls(3) [OF assms(2), of rid] by (metis snd_conv)
next
  case (step_reclaim pending tot n tot')
  thus ?thesis using skive_reclaim_law [OF assms(2), of pending tot] by (auto simp: Let_def)
qed (use assms(2) lookup_inv skip_inv in blast)+

inductive cache_reachable :: "(bytes \<Rightarrow> bytes) \<Rightarrow> kv_cache_manager \<Rightarrow> bool" for eh where
  cache_init: "config_ok reg cfg sbs hbs caching dcp pcp \<Longrightarrow> validate_retention_interval ret sbs cfg = Inr () \<Longrightarrow>
    manager_new reg cfg len sbs hbs batched caching eagle_on log_stats events dcp pcp use_int metrics ret = Inr km \<Longrightarrow>
    cache_reachable eh km"
| cache_next: "cache_reachable eh km \<Longrightarrow> cache_step eh km km' \<Longrightarrow> cache_reachable eh km'"

lemma cache_reachable_inv: "cache_reachable eh km \<Longrightarrow> \<exists>fl. km_inv km fl"
proof (induction rule: cache_reachable.induct)
  case (cache_init reg cfg sbs hbs caching dcp pcp ret len batched eagle_on log_stats events use_int metrics km)
  thus ?case using manager_new_inv(1) by blast
next
  case (cache_next km km')
  thus ?case using call_keeps_inv by blast
qed

end
