(* ===== verification/Cache_Properties.thy ===== *)
theory Cache_Properties
  imports Cache_Lifecycle
begin

text \<open>
  The properties of the KV-cache manager as a whole: what holds in every reachable state, that the lookup
  of a prefix returns blocks \<^verbatim>\<open>allocate_slots\<close> can adopt, that the allocation is correct, and that it succeeds
  when enough blocks are free.
\<close>

section \<open>The prefix lookup feeds the allocation\<close>

lemma key_of_inj: "0 \<le> g \<Longrightarrow> g < 2 ^ 32 \<Longrightarrow> key_of h g = key_of h' g \<Longrightarrow> h = h'"
  using make_key_of [of g h] make_key_of [of g h'] make_key_inj by metis

lemma distinct_filter_nth:
  assumes "\<And>i j. i < length xs \<Longrightarrow> j < length xs \<Longrightarrow> xs ! i = xs ! j \<Longrightarrow> P (xs ! i) \<Longrightarrow> i = j"
  shows "distinct (filter P xs)"
  using assms
proof (induction xs)
  case (Cons x xs)
  have "distinct (filter P xs)" using Cons.prems [of "Suc _" "Suc _"] by (intro Cons.IH) fastforce
  moreover have "x \<notin> set xs" if "P x" using Cons.prems [of 0 "Suc _"] that by (fastforce simp: in_set_conv_nth)
  ultimately show ?case by simp
qed simp

lemma window_hits_ok:
  assumes "pool_inv p fl" "window_hit p [g] hs w [c] n" "distinct hs" "n \<le> length hs" "0 \<le> g" "g < 2 ^ 32"
  shows "hits_ok p c" "length c = n"
proof -
  have null: "null_block p = Blk 0" using assms(1) by (simp add: pool_inv_def shape_ok_def)
  have c: "length c = n" "\<And>j. j < n \<Longrightarrow> hit_block p g (hs ! j) (c ! j) \<or> c ! j = Blk 0"
    using assms(2) null by (auto simp: window_hit_def uniform_len_def)
  have "distinct (filter (\<lambda>b. b \<noteq> Blk 0) c)"
  proof (rule distinct_filter_nth)
    fix i j assume ij: "i < length c" "j < length c" "c ! i = c ! j" "c ! i \<noteq> Blk 0"
    have "hit_block p g (hs ! i) (c ! i)" "hit_block p g (hs ! j) (c ! i)" using c ij by metis+
    hence "hs ! i = hs ! j" using key_of_inj [OF assms(5,6)] by (simp add: hit_block_def)
    thus "i = j" using assms(3,4) ij c(1) by (simp add: nth_eq_iff_index_eq)
  qed
  moreover have "valid_block p b" "b = Blk 0 \<or> bhash p b \<noteq> None" if "b \<in> set c" for b
    using that c by (auto simp: in_set_conv_nth hit_block_def valid_block_def)
  ultimately show "hits_ok p c" by (simp add: hits_ok_def row_ok_def)
  show "length c = n" by (rule c(1))
qed

text \<open>A manager with one group of full or sliding-window attention and prefix caching.\<close>

definition unitary_of :: "kv_cache_manager \<Rightarrow> kv_manager \<Rightarrow> bool" where
  "unitary_of km m \<longleftrightarrow>
     (let co = km_coordinator km in
       co_class co = Unitary \<and> single_type_managers co = [m] \<and> map group_spec (kv_cache_groups (co_config co)) = [mgr_spec m] \<and>
       co_block_size co = mgr_block_size m \<and> mgr_block_size m = block_size_of (mgr_spec m) \<and>
       co_dcp_world_size co = 1 \<and> co_pcp_world_size co = 1 \<and> km_enable_caching km)"

definition lookup_class :: "kv_manager \<Rightarrow> bool" where
  "lookup_class m \<longleftrightarrow> mgr_class m = FullAttentionManager \<and> is_instance (mgr_spec m) C_Full \<or>
     mgr_class m = SlidingWindowManager \<and> is_sliding_instance (mgr_spec m) \<and> 1 < spec_window (mgr_spec m)"

lemma find_one_group:
  assumes "pool_inv p fl" "lookup_class m" "0 < block_size_of (mgr_spec m)" "0 \<le> max_length"
    and "max_length div block_size_of (mgr_spec m) \<le> int (length hs)"
  defines "bs \<equiv> block_size_of (mgr_spec m)"
  shows "\<exists>c n w. find_longest_cache_hit (mgr_class m) (Plain hs) max_length [0] p (mgr_spec m) eagle bs 1 1 = Inr [c] \<and>
    window_hit p [0] hs w [c] n \<and> n \<le> length hs \<and> int n * bs \<le> max_length"
proof -
  have g: "groups_ok [0]" by (simp add: groups_ok_def)
  have bs: "0 < bs" "bs \<noteq> 0" "0 \<le> max_length div bs" "nat (max_length div bs) \<le> length hs"
    using assms(3-5) by (auto simp: bs_def pos_imp_zdiv_nonneg_iff)
  have le: "int n * bs \<le> max_length" if "n \<le> nat (max_length div bs)" for n
  proof -
    have "int n * bs \<le> max_length div bs * bs" using that bs by (intro mult_right_mono) auto
    also have "\<dots> \<le> max_length" using minus_mod_eq_div_mult [of max_length bs] pos_mod_sign [OF bs(1), of max_length] by linarith
    finally show ?thesis .
  qed
  have one: "\<exists>c. cs = [c]" if "uniform_len [0] cs n" for cs n using that by (cases cs) (auto simp: uniform_len_def)
  show ?thesis
  proof (cases "mgr_class m = FullAttentionManager")
    case True
    hence spec: "is_instance (mgr_spec m) C_Full" using assms(2) by (auto simp: lookup_class_def)
    have f: "full_block_size (mgr_spec m) 1 1 = bs" by (simp add: full_block_size_def bs_def)
    obtain cs n where cs: "full_find_longest_cache_hit (Plain hs) max_length [0] p (mgr_spec m) eagle bs 1 1 = Inr cs"
      "prefix_hit p [0] hs cs n" "n \<le> eagle_len eagle (length (takeWhile (cached_all p [0]) (take (nat (max_length div bs)) hs)))"
      using full_find_law [OF assms(1) g disjI1 [OF spec], of "Plain hs" hs bs max_length 1 1 eagle] bs f by (auto simp: hashes_from_def)
    have "n \<le> nat (max_length div bs)"
      using cs(3) takeWhile_take_le [of "cached_all p [0]" "nat (max_length div bs)" hs] by (auto simp: eagle_len_def split: if_splits)
    moreover obtain c where "cs = [c]" using one [of cs n] cs(2) unfolding prefix_hit_def by blast
    ultimately show ?thesis using cs True le bs(4) prefix_window_hit [OF cs(2)]
      by (intro exI [of _ c] exI [of _ n] exI [of _ 0]) (auto simp: find_longest_cache_hit_def)
  next
    case False
    hence k: "mgr_class m = SlidingWindowManager" "is_sliding_instance (mgr_spec m)" "1 < spec_window (mgr_spec m)"
      using assms(2) by (auto simp: lookup_class_def)
    have "\<forall>i < nat (max_length div bs). hash_at i (Plain hs) = Inr (hs ! i)" using bs(4) by (auto simp: hash_at_def)
    then obtain cs n where cs: "sliding_find_longest_cache_hit (Plain hs) max_length [0] p (mgr_spec m) eagle bs 1 1 = Inr cs"
      "n \<le> nat (max_length div bs)" "window_hit p [0] hs (windowed (mgr_spec m)) cs n"
      using sliding_find_law [OF assms(1) g k(2) assms(3) k(3) bs(2), of max_length "Plain hs" hs eagle] bs(4) unfolding bs_def by blast
    moreover obtain c where "cs = [c]" using one [of cs n] cs(3) unfolding window_hit_def by blast
    ultimately show ?thesis using k(1) le bs(4)
      by (intro exI [of _ c] exI [of _ n] exI [of _ "windowed (mgr_spec m)"]) (auto simp: find_longest_cache_hit_def)
  qed
qed

lemma get_computed_found:
  assumes "co_find_longest_cache_hit (block_hashes r) (num_tokens r - 1) (km_coordinator km) = Some (Inr (cs, n))"
    and "\<not> skip_reading_prefix_cache r" "km_enable_caching km" "km_log_stats km \<longrightarrow> km_stats km \<noteq> None"
  shows "\<exists>km'. get_computed_blocks r km = Some (Inr ((create_kv_cache_blocks cs, n), km')) \<and>
    (km' = km \<or> (\<exists>s. km' = km\<lparr>km_stats := Some s\<rparr>))"
proof (cases "km_log_stats km")
  case True
  then obtain y where y: "km_stats km = Some y" using assms(4) by blast
  let ?s = "record_stats (num_tokens r) n (num_preemptions r > 0) y"
  have "get_computed_blocks r km = Some (Inr ((create_kv_cache_blocks cs, n), km\<lparr>km_stats := Some ?s\<rparr>))"
    using assms(1-3) True y by (simp add: get_computed_blocks_def)
  thus ?thesis by blast
next
  case False
  thus ?thesis using assms(1-3) by (simp add: get_computed_blocks_def)
qed

text \<open>
  C7: With one group of full or sliding-window attention, the lookup of a new request returns and what it
  returns can be adopted: the blocks are cached blocks of the pool, none twice, fewer tokens than the
  request has, so that at least one token is left to compute. The hash chain of the request has no
  repeated hash, as collision freedom gives.
\<close>

theorem computed_blocks_adoptable:
  assumes "km_inv km fl" "unitary_of km m" "lookup_class m" "untracked (request_id r) m" "distinct (block_hashes r)"
    and "1 \<le> num_tokens r" "(num_tokens r - 1) div mgr_block_size m \<le> int (length (block_hashes r))"
  shows "\<exists>ncb n km'. get_computed_blocks r km = Some (Inr ((ncb, n), km')) \<and> km_inv km' fl \<and>
    slots_ready (request_id r) ncb n (km_managers km') (km_pool km') \<and> 0 \<le> n \<and> n < num_tokens r \<and> n mod mgr_block_size m = 0"
proof (cases "skip_reading_prefix_cache r")
  case True
  have "skipped_of m 0 \<le> 0"
    using assms(3) by (auto simp: lookup_class_def skipped_of_def get_num_skipped_tokens_def sliding_skipped_tokens_def)
  thus ?thesis using True assms(1,2,6)
    by (auto simp: get_computed_blocks_def slots_ready_def unitary_of_def Let_def)
next
  case False
  let ?co = "km_coordinator km" and ?bs = "mgr_block_size m" and ?p = "km_pool km"
  have u: "co_class ?co = Unitary" "km_managers km = [m]" "map group_spec (kv_cache_groups (co_config ?co)) = [mgr_spec m]"
    "co_block_size ?co = ?bs" "?bs = block_size_of (mgr_spec m)" "co_dcp_world_size ?co = 1" "co_pcp_world_size ?co = 1"
    "km_enable_caching km"
    using assms(2) by (simp_all add: unitary_of_def Let_def)
  have inv: "pool_inv ?p fl" "0 < ?bs" "enable_caching ?p" "km_log_stats km \<longrightarrow> km_stats km \<noteq> None"
    using assms(1) u(2,8) by (auto simp: km_inv_def Let_def coord_inv_def km_pool_def mgr_wf_def)
  obtain c n w where c: "find_longest_cache_hit (mgr_class m) (Plain (block_hashes r)) (num_tokens r - 1) [0] ?p (mgr_spec m)
      (0 \<in> set (eagle_group_ids ?co)) ?bs 1 1 = Inr [c]"
    "window_hit ?p [0] (block_hashes r) w [c] n" "n \<le> length (block_hashes r)" "int n * ?bs \<le> num_tokens r - 1"
    using find_one_group [OF inv(1) assms(3), of "num_tokens r - 1" "block_hashes r" "0 \<in> set (eagle_group_ids ?co)"] inv(2) assms(6,7) u(5)
    by auto
  have h: "hits_ok ?p c" "length c = n" using window_hits_ok [OF inv(1) c(2) assms(5) c(3)] by simp_all
  obtain g where g: "kv_cache_groups (co_config ?co) = [g]" "group_spec g = mgr_spec m"
    using u(3) by (cases "kv_cache_groups (co_config ?co)") auto
  have find: "co_find_longest_cache_hit (block_hashes r) (num_tokens r - 1) ?co = Some (Inr ([c], int n * ?bs))"
    using c(1) h(2) u g by (simp add: co_find_longest_cache_hit_def unitary_find_longest_cache_hit_def km_pool_def)
  define ncb where "ncb = create_kv_cache_blocks [c]"
  have ready: "slots_ready (request_id r) ncb (int n * ?bs) (km_managers km) ?p"
  proof (cases "c = []")
    case True
    hence "n = 0" using h(2) by simp
    thus ?thesis using True u(2) assms(3)
      by (auto simp: ncb_def create_kv_cache_blocks_def slots_ready_def lookup_class_def skipped_of_def
          get_num_skipped_tokens_def sliding_skipped_tokens_def)
  next
    case False
    thus ?thesis using u(2) h(1) assms(4) inv(3)
      by (simp add: ncb_def create_kv_cache_blocks_def slots_ready_def adoptable_def)
  qed
  obtain km' where km': "get_computed_blocks r km = Some (Inr ((ncb, int n * ?bs), km'))" "km' = km \<or> (\<exists>s. km' = km\<lparr>km_stats := Some s\<rparr>)"
    using get_computed_found [OF find False u(8) inv(4)] unfolding ncb_def by blast
  have "km_managers km' = km_managers km" "km_pool km' = km_pool km" using km'(2) by (auto simp: km_pool_def)
  thus ?thesis using km' ready c(4) inv(2) assms(1) km_inv_stats [OF assms(1)]
    by (intro exI [of _ ncb] exI [of _ "int n * ?bs"] exI [of _ km']) auto
qed

section \<open>Every reachable state\<close>

lemma held_all_0: "held_all ms b = 0 \<longleftrightarrow> (\<forall>m \<in> set ms. held (req_to_blocks m) b = 0)"
  using held_all_nonneg by (induction ms) (auto simp: add_nonneg_eq_0_iff)

lemma held_0_iff:
  assumes "distinct (map fst (req_to_blocks m))"
  shows "held (req_to_blocks m) b = 0 \<longleftrightarrow> (\<forall>rid. b \<notin> set (row_of m rid))"
proof
  assume r: "\<forall>rid. b \<notin> set (row_of m rid)"
  have "count_list (snd e) b = 0" if "e \<in> set (req_to_blocks m)" for e
  proof -
    have "row_of m (fst e) = snd e" using map_of_is_SomeI [OF assms, of "fst e" "snd e"] that by (simp add: row_of_def)
    thus ?thesis using r by (metis count_list_0_iff)
  qed
  thus "held (req_to_blocks m) b = 0" by (auto simp: held_def)
qed (auto simp: row_of_row_in dest: held_0_notin)

text \<open>
  C1: In every reachable state of a KV-cache manager the free list is well formed, the reference count of
  each block is the number of times the rows of all groups hold it, and a block is free exactly when no
  request of any group holds it.
\<close>

theorem blocks_accounted:
  assumes "cache_reachable eh km"
  shows "\<exists>fl. get_all_free_blocks (free_block_queue (km_pool km)) = Some (Inr fl) \<and> distinct fl \<and>
    (\<forall>i. 0 < i \<and> int i < num_gpu_blocks (km_pool km) \<longrightarrow>
       ref_cnt (pheap (km_pool km) (Blk i)) = held_all (km_managers km) (Blk i) \<and>
       (Blk i \<in> set fl \<longleftrightarrow> (\<forall>m \<in> set (km_managers km). \<forall>rid. Blk i \<notin> set (row_of m rid))))"
proof -
  obtain fl where inv: "km_inv km fl" using cache_reachable_inv [OF assms] by blast
  have c: "coord_inv (km_managers km) (km_pool km) fl" using inv by (simp add: km_inv_def Let_def km_pool_def)
  hence p: "pool_inv (km_pool km) fl" and q: "queue_rep (free_block_queue (km_pool km)) fl"
    by (simp_all add: coord_inv_def pool_inv_def)
  have "held_all (km_managers km) b = 0 \<longleftrightarrow> (\<forall>m \<in> set (km_managers km). \<forall>rid. b \<notin> set (row_of m rid))" for b
    using c held_0_iff unfolding held_all_0 by (auto simp: coord_inv_def rows_ok_def)
  moreover have "Blk i \<in> usable (km_pool km)" if "0 < i" "int i < num_gpu_blocks (km_pool km)" for i
    using that by (auto simp: usable_def)
  ultimately show ?thesis
    using p q c fq.rep_distinct [OF q] get_all_free_blocks_rep [OF q]
    by (intro exI [of _ fl]) (auto simp: coord_inv_def pool_inv_def counts_ok_def)
qed

lemma other_index:
  assumes "j \<noteq> i" "i < length xs"
  shows "xs ! i \<in> set (take j xs) \<union> set (drop (Suc j) xs)"
proof (cases "i < j")
  case True
  have "take j xs ! i \<in> set (take j xs)" using True assms(2) by (intro nth_mem) simp
  thus ?thesis using True by simp
next
  case False
  have "drop (Suc j) xs ! (i - Suc j) \<in> set (drop (Suc j) xs)" using False assms by (intro nth_mem) simp
  moreover have "drop (Suc j) xs ! (i - Suc j) = xs ! i" using False assms by simp
  ultimately show ?thesis by simp
qed

text \<open>
  C2: In every reachable state a block that a request has not yet handed to the prefix cache, the blocks
  its next tokens are written to, is held by that request alone: no other request and no other group has
  it, and the prefix cache cannot hand it out.
\<close>

theorem write_isolation:
  assumes "cache_reachable eh km" "i < length (km_managers km)"
    and "b \<in> set (drop (cached_count (km_managers km ! i) rid) (row_of (km_managers km ! i) rid))" "b \<noteq> null_block (km_pool km)"
  shows "ref_cnt (pheap (km_pool km) b) = 1 \<and> (km_enable_caching km \<longrightarrow> block_hash (pheap (km_pool km) b) = None) \<and>
    (\<forall>j rid'. j < length (km_managers km) \<and> (j, rid') \<noteq> (i, rid) \<longrightarrow> b \<notin> set (row_of (km_managers km ! j) rid'))"
proof -
  let ?ms = "km_managers km" and ?m = "km_managers km ! i"
  obtain fl where inv: "km_inv km fl" using cache_reachable_inv [OF assms(1)] by blast
  hence c: "coord_inv ?ms (km_pool km) fl" and en: "km_enable_caching km = enable_caching (km_pool km)"
    by (simp_all add: km_inv_def Let_def km_pool_def)
  have "null_block (km_pool km) = Blk 0" using c by (simp add: coord_inv_def pool_inv_def shape_ok_def)
  hence t: "b \<in> tail_blocks ?m rid" using assms(3,4) by (simp add: tail_blocks_def)
  have m: "?m \<in> set ?ms" using assms(2) by simp
  have f: "fresh (km_pool km) b" using c m t unfolding coord_inv_def tails_fresh_def by blast
  have b: "b \<in> set (row_of ?m rid)" "b \<noteq> Blk 0" using tail_blocks_in_row [OF t] by simp_all
  have "b \<notin> set (row_of (?ms ! j) rid')" if j: "j < length ?ms" "(j, rid') \<noteq> (i, rid)" for j rid'
  proof (cases "j = i")
    case True
    thus ?thesis using fresh_one_row [OF c m b f, of rid'] j by auto
  next
    case False
    let ?xs = "take j ?ms" and ?ys = "drop (Suc j) ?ms"
    have ms: "?ms = ?xs @ ?ms ! j # ?ys" by (rule id_take_nth_drop [OF j(1)])
    have "?m \<in> set ?xs \<union> set ?ys" by (rule other_index [OF False assms(2)])
    thus ?thesis using fresh_one_manager [of ?xs "?ms ! j" ?ys "km_pool km" fl ?m b rid rid'] ms c b f by simp
  qed
  thus ?thesis using f en by (simp add: fresh_def)
qed

text \<open>
  C5: No block leaks: in a reachable state in which no request holds a block, because each has been
  freed, all blocks but the null block are free again and the reported usage is zero.
\<close>

theorem no_block_leak:
  assumes "cache_reachable eh km" "\<forall>m \<in> set (km_managers km). \<forall>rid. row_of m rid = []"
  shows "get_num_free_blocks (km_pool km) = num_gpu_blocks (km_pool km) - 1 \<and> km_usage km = 0"
proof -
  obtain fl where inv: "km_inv km fl" using cache_reachable_inv [OF assms(1)] by blast
  hence c: "coord_inv (km_managers km) (km_pool km) fl" by (simp add: km_inv_def Let_def km_pool_def)
  have "held_all (km_managers km) b = 0" for b
    using c assms(2) held_0_iff unfolding held_all_0 by (auto simp: coord_inv_def rows_ok_def)
  hence "\<forall>b \<in> usable (km_pool km). refc (km_pool km) b = 0" using c by (simp add: coord_inv_def)
  hence "get_num_free_blocks (km_pool km) = num_gpu_blocks (km_pool km) - 1"
    using all_free_iff [of "km_pool km" fl] c by (auto simp: coord_inv_def)
  thus ?thesis by (simp add: km_usage_def get_usage_def Let_def)
qed

section \<open>Allocation\<close>


text \<open>
  C4: A request that fits is served: when the blocks the call needs and the reserved ones are free and no
  gate for the full sequence is asked for, \<^verbatim>\<open>allocate_slots\<close> returns new blocks, and the row of every group
  covers all slots asked for.
\<close>

theorem allocate_slots_succeeds:
  fixes num_new tot :: int
  assumes "km_inv km fl" "slots_ready (request_id r) ncb tot (km_managers km) (km_pool km)"
    and "0 < num_new" "0 \<le> lookahead" "0 \<le> reserved" "0 \<le> tot" "num_computed_tokens r + nnc = tot"
    and "tot + num_new \<le> km_max_model_len km" "km_enable_caching km \<and> \<not> delay \<longrightarrow> hashed r (km_pool km)"
  defines "ntok \<equiv> min (tot + num_new + lookahead) (km_max_model_len km)"
  assumes "slots_needed (request_id r) ncb tot ntok (km_managers km) (km_pool km) + reserved \<le> get_num_free_blocks (km_pool km)"
  shows "\<exists>kb km' r'. allocate_slots eh r num_new nnc (Some ncb) lookahead 0 delay enc False reserved km = Inr ((Some kb, km'), r') \<and>
    (\<forall>j < length (km_managers km). ntok \<le> int (length (row_of (km_managers km' ! j) (request_id r))) * mgr_block_size (km_managers km ! j))"
proof -
  let ?rid = "request_id r" and ?ms = "km_managers km"
  obtain out km' r' fl' ms1 p1 where a:
    "allocate_slots eh r num_new nnc (Some ncb) lookahead 0 delay enc False reserved km = Inr ((out, km'), r')"
    "slots_result ?rid ncb tot ntok ?ms out (km_managers km')"
    "co_remove_skipped_blocks ?rid tot (km_coordinator km) = Inr (with_managers ms1 p1 (km_coordinator km))"
    "slots_needed ?rid ncb tot ntok ms1 p1 + reserved \<le> int (length fl) \<longrightarrow> out \<noteq> None"
    using slots_run [OF assms(1-9), of eh enc False] unfolding ntok_def by blast
  have "out \<noteq> None" using a(4) slots_needed_skip [OF assms(1,2) a(3), of ntok] assms(11) free_count [OF assms(1)]
    by (simp add: km_pool_def)
  then obtain kb where kb: "out = Some kb" by blast
  have "ntok \<le> int (length (row_of (km_managers km' ! j) ?rid)) * mgr_block_size (?ms ! j)" if j: "j < length ?ms" for j
  proof -
    obtain ms2 news where s: "only_row ?rid (?ms ! j) (ms2 ! j)" "slots_rel ?rid ncb tot ntok j (ms2 ! j) (news ! j) (km_managers km' ! j)"
      using a(2) kb j by (auto simp: slots_result_def)
    have bs: "mgr_block_size (ms2 ! j) = mgr_block_size (?ms ! j)" "0 < mgr_block_size (?ms ! j)"
      using only_row_block_size [OF s(1)] assms(1) j by (auto simp: km_inv_def Let_def mgr_wf_def)
    hence "cdiv ntok (mgr_block_size (?ms ! j)) \<le> int (length (row_of (km_managers km' ! j) ?rid))"
      using s(2) by (simp add: slots_rel_def)
    hence "cdiv ntok (mgr_block_size (?ms ! j)) * mgr_block_size (?ms ! j) \<le>
        int (length (row_of (km_managers km' ! j) ?rid)) * mgr_block_size (?ms ! j)"
      using bs(2) by (intro mult_right_mono) simp_all
    thus ?thesis using cdiv_upper [OF bs(2), of ntok] by linarith
  qed
  thus ?thesis using a(1) kb by blast
qed

section \<open>Concrete instances\<close>

definition demo_registry :: registry where
  "demo_registry = [(C_Full, (FullAttentionManager, C_Full))]"

definition demo_groups :: kv_cache_config where
  "demo_groups = \<lparr>num_blocks = 8, kv_cache_groups =
     [\<lparr>layer_names = [''attn''], group_spec = new_full_spec demo_attention None None None, is_eagle_group = False\<rparr>]\<rparr>"

definition demo_new :: "kv_cache_manager res" where
  "demo_new = manager_new demo_registry demo_groups 64 16 16 None True False False False 1 1 False None None"

lemma demo_spec:
  "block_size_of (new_full_spec demo_attention None None None) = 16"
  "get_manager_class demo_registry (new_full_spec demo_attention None None None) = Some FullAttentionManager"
  "is_instance (new_full_spec demo_attention None None None) C_Full"
  by (simp_all add: new_full_spec_def block_size_of_def demo_attention_def get_manager_class_def registry_lookup_def
      demo_registry_def class_of_spec_def mro_def is_instance_def List.map_filter_simps)

lemma demo_config_ok: "config_ok demo_registry demo_groups 16 16 True 1 1"
  by (simp add: config_ok_def demo_groups_def group_ok_def demo_spec attn_class_def real_block_size_def)

lemma demo_manager:
  obtains km m where "demo_new = Inr km" "cache_reachable eh km" "unitary_of km m" "lookup_class m" "untracked rid m"
    "km_inv km (map Blk [1..<8])" "km_max_model_len km = 64" "mgr_block_size m = 16" "km_managers km = [m]"
    "hash_block_size (km_pool km) = 16" "req_to_blocks m = []" "num_gpu_blocks (km_pool km) = 8" "null_block (km_pool km) = Blk 0"
    "mgr_class m = FullAttentionManager"
proof -
  have v: "validate_retention_interval None 16 demo_groups = Inr ()" by (simp add: validate_retention_interval_def)
  obtain p ms where c: "coordinator_init demo_registry Unitary demo_groups 64 64 False True False 1 1 16 16 False None None =
      Inr \<lparr>co_class = Unitary, co_config = demo_groups, co_enable_caching = True, co_scheduler_block_size = 16,
            co_hash_block_size = 16, co_block_pool = p, eagle_group_ids = eagle_groups False demo_groups,
            single_type_managers = ms, retention_interval = None, co_block_size = 0,
            co_dcp_world_size = 1, co_pcp_world_size = 1, attention_groups = []\<rparr>"
    "hash_block_size p = 16" "list_all2 (manager_of demo_registry 1 1) (kv_cache_groups demo_groups) ms" "num_gpu_blocks p = 8"
    "\<forall>m \<in> set ms. fresh_mgr p m"
    using coordinator_init_fresh [OF demo_config_ok v, of Unitary 64 64 False False False None] by (auto simp: demo_groups_def)
  obtain m0 where m0: "ms = [m0]" "mgr_spec m0 = new_full_spec demo_attention None None None" "mgr_class m0 = FullAttentionManager"
    "mgr_block_size m0 = 16"
    using c(3) by (auto simp: demo_groups_def list_all2_Cons1 manager_of_def demo_spec real_block_size_def)
  define m where "m = m0\<lparr>use_eagle := 0 \<in> set (eagle_groups False demo_groups)\<rparr>"
  obtain km where km: "demo_new = Inr km" "km_managers km = [m]" "unitary_of km m" "km_max_model_len km = 64" "km_pool km = p"
    using c(1) m0 by (auto simp: demo_new_def manager_new_def get_kv_cache_coordinator_def unitary_init_def demo_groups_def
        Let_def unitary_of_def m_def demo_spec km_pool_def)
  note new = manager_new_inv [OF demo_config_ok v km(1) [unfolded demo_new_def]]
  have "untracked rid m" "req_to_blocks m = []" using c(5) m0(1) by (auto simp: untracked_def fresh_mgr_def m_def row_of_def)
  moreover have "lookup_class m" using m0 demo_spec(3) by (simp add: lookup_class_def m_def)
  moreover have "null_block p = Blk 0" using km_inv_pool_inv [OF new(1)] km(5) by (simp add: pool_inv_def shape_ok_def)
  moreover have "cache_reachable eh km" by (rule cache_init [OF demo_config_ok v km(1) [unfolded demo_new_def]])
  ultimately show ?thesis using that [of km m] km new(1) c(2,4) m0(3,4) by (simp add: m_def demo_groups_def)
qed

definition demo_fresh :: request where
  "demo_fresh = demo_request\<lparr>num_computed_tokens := 0\<rparr>"

lemma demo_fresh_simps [simp]:
  "request_id demo_fresh = ''r0''" "num_computed_tokens demo_fresh = 0" "num_tokens demo_fresh = 6" "block_hashes demo_fresh = []"
  "skip_reading_prefix_cache demo_fresh = False"
  by (simp_all add: demo_fresh_def demo_request_def num_tokens_def)

text \<open>After the first six tokens got their slot.\<close>

lemma demo_running:
  obtains km m where "cache_reachable eh km" "km_managers km = [m]" "row_of m ''r0'' = [Blk 1]" "cached_count m ''r0'' = 0"
    "null_block (km_pool km) = Blk 0"
proof -
  obtain km m where d: "cache_reachable eh km" "lookup_class m" "untracked ''r0'' m" "km_inv km (map Blk [1..<8])"
    "km_max_model_len km = 64" "mgr_block_size m = 16" "km_managers km = [m]" "mgr_class m = FullAttentionManager"
    by (rule demo_manager [of eh "''r0''"]) blast
  let ?co = "km_coordinator km"
  have inv: "pool_inv (co_block_pool ?co) (map Blk [1..<8])" "num_groups km = 1" "all_wf [m] (co_block_pool ?co)"
    using d(4,7) by (auto simp: km_inv_def Let_def coord_inv_def)
  have ready: "slots_ready (request_id demo_fresh) Empty_Blocks 0 (km_managers km) (km_pool km)"
    using d(7,8) by (simp add: slots_ready_def skipped_of_def get_num_skipped_tokens_def)
  have row: "row_of m ''r0'' = []" "num_cached_block m = num_cached_block m" "cached_count m ''r0'' = 0"
    using d(3) by (simp_all add: untracked_def cached_count_def)
  have "take (nat 1) (map Blk [1..<8]) = [Blk 1]" by (simp add: upt_rec)
  then obtain p' where p': "get_new_blocks 1 (co_block_pool ?co) = Inr ([Blk 1], p')" "same_config (co_block_pool ?co) p'"
    using get_new_blocks_law [OF inv(1), of 1] by auto
  have skip: "co_remove_skipped_blocks ''r0'' 0 ?co = Inr ?co"
    using d(7,8) by (simp add: co_remove_skipped_blocks_def on_managers_def with_unit_def remove_skipped_blocks_def
        base_remove_skipped_blocks_def get_num_skipped_tokens_def Let_def)
  obtain n where n: "co_get_num_blocks_to_allocate ''r0'' 6 (blocks_list km Empty_Blocks) 0 0 6 False ?co = Inr (n, ?co)"
    "n = slots_needed ''r0'' Empty_Blocks 0 6 [m] (co_block_pool ?co)"
    using admission_run [of ?co km "''r0''" Empty_Blocks 0 6 0 6 False] inv ready d(7) by (auto simp: km_pool_def)
  have "cdiv 6 16 = 1" by (simp add: cdiv_def)
  hence n1: "n = 1" using n(2) d(6) row(1) by (simp add: slots_needed_def slots_missing_def)
  define m' where "m' = add_new_ids p' [Blk 1] (set_row ''r0'' [Blk 1] m)"
  have alloc: "co_allocate_new_blocks ''r0'' 6 6 0 ?co = Inr ([[Blk 1]], with_managers [m'] p' ?co)"
    using d(6-8) row(1) p'(1) \<open>cdiv 6 16 = 1\<close>
    by (simp add: co_allocate_new_blocks_def on_managers_def allocate_new_blocks_def base_allocate_new_blocks_def Let_def
        with_managers_def m'_def)
  let ?km = "km\<lparr>km_coordinator := with_managers [m'] p' ?co\<rparr>"
  have "get_num_free_blocks (co_block_pool ?co) = 7" using free_list_count(1) [OF inv(1)] by simp
  hence "allocate_slots eh demo_fresh 6 0 (Some Empty_Blocks) 0 0 True 0 False 0 km =
      Inr ((Some (create_kv_cache_blocks [[Blk 1]]), ?km), demo_fresh)"
    using allocate_slots_unfold [of 6 demo_fresh 0 0 km False Empty_Blocks 0 True ?co 6 0 n eh True 0] skip n(1) n1 alloc d(5)
    by (simp add: commit_slots_def Let_def)
  hence "cache_step eh km ?km"
    using ready d(5) by (intro step_slots [of demo_fresh Empty_Blocks 0 km 6 0 0 0 True]) simp_all
  hence "cache_reachable eh ?km" using d(1) cache_next by blast
  moreover have "null_block (km_pool ?km) = Blk 0"
    using p'(2) inv(1) by (simp add: km_pool_def same_config_def pool_inv_def shape_ok_def)
  ultimately show ?thesis using that [of ?km m'] row(3) by (simp add: m'_def)
qed

theorem blocks_accounted_witness:
  "\<exists>km fl. demo_new = Inr km \<and> get_all_free_blocks (free_block_queue (km_pool km)) = Some (Inr fl) \<and> Blk 3 \<in> set fl"
proof -
  obtain km m where d: "demo_new = Inr km" "cache_reachable (\<lambda>x. x) km" "km_managers km = [m]" "req_to_blocks m = []"
    "num_gpu_blocks (km_pool km) = 8" by (rule demo_manager [of "\<lambda>x. x" "[]"]) blast
  obtain fl where "get_all_free_blocks (free_block_queue (km_pool km)) = Some (Inr fl)"
    "\<forall>i. 0 < i \<and> int i < num_gpu_blocks (km_pool km) \<longrightarrow>
       ref_cnt (pheap (km_pool km) (Blk i)) = held_all (km_managers km) (Blk i) \<and>
       (Blk i \<in> set fl \<longleftrightarrow> (\<forall>m \<in> set (km_managers km). \<forall>rid. Blk i \<notin> set (row_of m rid)))"
    using blocks_accounted [OF d(2)] by blast
  thus ?thesis using d by (auto simp: row_of_def dest: spec [of _ 3])
qed

theorem write_isolation_witness:
  "\<exists>km. cache_reachable (\<lambda>x. x) km \<and> ref_cnt (pheap (km_pool km) (Blk 1)) = 1 \<and>
     (\<forall>rid. rid \<noteq> ''r0'' \<longrightarrow> Blk 1 \<notin> set (row_of (km_managers km ! 0) rid))"
proof -
  obtain km m where d: "cache_reachable (\<lambda>x. x) km" "km_managers km = [m]" "row_of m ''r0'' = [Blk 1]" "cached_count m ''r0'' = 0"
    "null_block (km_pool km) = Blk 0" by (rule demo_running [of "\<lambda>x. x"]) blast
  from write_isolation [OF d(1), of 0 "Blk 1" "''r0''"] d show ?thesis by auto
qed

theorem no_block_leak_witness:
  "\<exists>km. demo_new = Inr km \<and> get_num_free_blocks (km_pool km) = 7 \<and> km_usage km = 0"
proof -
  obtain km m where d: "demo_new = Inr km" "cache_reachable (\<lambda>x. x) km" "km_managers km = [m]" "req_to_blocks m = []"
    "num_gpu_blocks (km_pool km) = 8" by (rule demo_manager [of "\<lambda>x. x" "[]"]) blast
  from no_block_leak [OF d(2)] d show ?thesis by (intro exI [of _ km]) (simp add: row_of_def)
qed

theorem computed_blocks_adoptable_witness:
  "\<exists>km n km' ncb. demo_new = Inr km \<and> get_computed_blocks demo_fresh km = Some (Inr ((ncb, n), km')) \<and> n = 0"
proof -
  obtain km m where d: "demo_new = Inr km" "km_inv km (map Blk [1..<8])" "unitary_of km m" "lookup_class m" "untracked ''r0'' m"
    "mgr_block_size m = 16" by (rule demo_manager [of "\<lambda>x. x" "''r0''"]) blast
  obtain ncb n km' where "get_computed_blocks demo_fresh km = Some (Inr ((ncb, n), km'))" "0 \<le> n" "n < 6" "n mod 16 = 0"
    using computed_blocks_adoptable [OF d(2-4), of demo_fresh] d(5,6) by auto
  thus ?thesis using d(1) by auto
qed


theorem allocate_slots_succeeds_witness:
  "\<exists>km kb km' r'. demo_new = Inr km \<and>
     allocate_slots (\<lambda>x. x) demo_fresh 6 0 (Some Empty_Blocks) 4 0 False 0 False 0 km = Inr ((Some kb, km'), r') \<and>
     10 \<le> int (length (row_of (km_managers km' ! 0) ''r0'')) * 16"
proof -
  obtain km m where d: "demo_new = Inr km" "km_inv km (map Blk [1..<8])" "km_max_model_len km = 64" "km_managers km = [m]"
    "hash_block_size (km_pool km) = 16" "mgr_class m = FullAttentionManager" "mgr_block_size m = 16" "untracked ''r0'' m"
    by (rule demo_manager [of "\<lambda>x. x" "''r0''"]) blast
  have ready: "slots_ready (request_id demo_fresh) Empty_Blocks 0 (km_managers km) (km_pool km)"
    using d(4,6) by (simp add: slots_ready_def skipped_of_def get_num_skipped_tokens_def)
  have "cdiv 10 16 = 1" by (simp add: cdiv_def)
  moreover have "get_num_free_blocks (km_pool km) = 7" using free_list_count(1) [OF km_inv_pool_inv [OF d(2)]] by simp
  ultimately show ?thesis
    using allocate_slots_succeeds [OF d(2) ready, of 6 4 0 0 False "\<lambda>x. x" 0] d
    by (auto simp: hashed_def slots_needed_def slots_missing_def untracked_def)
qed

end
