(* ===== verification/Skive_Mirror.thy ===== *)
theory Skive_Mirror
  imports Skive_Evict Cache_Properties
begin

text \<open>
  Worker and scheduler together: the rows of the worker's block table and the rows of the scheduler's manager
  for the evicted group name the same blocks, and they still do after the worker evicts, hands its entries to
  the scheduler, and the scheduler reclaims them.
\<close>

section \<open>Entries and rows\<close>

lemma length_reclaimed [simp]: "length (fold (\<lambda>i. reclaimed i g r) items row) = length row"
proof (induction items arbitrary: row)
  case (Cons i items)
  thus ?case by (simp add: reclaimed_def split: prod.splits)
qed simp

lemma nth_reclaimed:
  "k < length row \<Longrightarrow> fold (\<lambda>i. reclaimed i g r) items row ! k =
     (if \<exists>item \<in> set items. pending_fields item = (r, k, g) then Blk 0 else row ! k)"
proof (induction items arbitrary: row)
  case (Cons i items)
  obtain r' j g' where i: "pending_fields i = (r', j, g')" by (metis prod_cases3)
  have "length (reclaimed i g r row) = length row" using i by (simp add: reclaimed_def)
  hence "fold (\<lambda>i. reclaimed i g r) items (reclaimed i g r row) ! k =
      (if \<exists>item \<in> set items. pending_fields item = (r, k, g) then Blk 0 else reclaimed i g r row ! k)"
    using Cons by simp
  moreover have "reclaimed i g r row ! k = (if r' = r \<and> j = k \<and> g' = g then Blk 0 else row ! k)"
    using i Cons.prems by (auto simp: reclaimed_def nth_list_update)
  ultimately show ?case using i by auto
qed simp

text \<open>Different entries that all name a real block free one block each.\<close>

lemma reclaim_count_distinct:
  assumes "distinct (map pending_fields items)"
    "\<forall>item \<in> set items. case pending_fields item of (r, j, g) \<Rightarrow> g < n \<and> j < length (rows g r) \<and> rows g r ! j \<noteq> Blk 0"
  shows "reclaim_count items rows n = int (length items)"
  using assms
proof (induction items arbitrary: rows)
  case (Cons i items)
  obtain r j g where i: "pending_fields i = (r, j, g)" by (metis prod_cases3)
  have "case pending_fields item of (r', j', g') \<Rightarrow> g' < n \<and> j' < length (reclaimed i g' r' (rows g' r')) \<and>
      reclaimed i g' r' (rows g' r') ! j' \<noteq> Blk 0" if "item \<in> set items" for item
  proof -
    obtain r' j' g' where f: "pending_fields item = (r', j', g')" by (metis prod_cases3)
    have "(r', j', g') \<noteq> (r, j, g)" using Cons.prems(1) that i f by (metis distinct.simps(2) image_eqI list.map(2) list.set_map)
    moreover have "g' < n \<and> j' < length (rows g' r') \<and> rows g' r' ! j' \<noteq> Blk 0" using Cons.prems(2) that f by fastforce
    ultimately show ?thesis using f i by (auto simp: reclaimed_def nth_list_update)
  qed
  hence "reclaim_count items (\<lambda>g r. reclaimed i g r (rows g r)) n = int (length items)" using Cons.prems(1) by (intro Cons.IH) auto
  thus ?case using Cons.prems(2) i by simp
qed simp

section \<open>The two block tables\<close>

definition mirror :: "model_runner \<Rightarrow> kv_cache_manager \<Rightarrow> bool" where
  "mirror mr km \<longleftrightarrow> (let gid = fst (skive_full_group mr); bt = evict_table mr in
     gid < length (km_managers km) \<and>
     (\<forall>ri < mr_num_reqs mr. \<forall>rid. mr_req_ids mr ! ri = Some rid \<longrightarrow>
        map (\<lambda>b. block_id (pheap (km_pool km) b)) (row_of (km_managers km ! gid) rid) =
          take (nat (num_blocks_per_row bt ! ri)) (bt_rows bt ! ri)))"

text \<open>A request has one row in the batch.\<close>

definition one_row_each :: "model_runner \<Rightarrow> bool" where
  "one_row_each mr \<longleftrightarrow> (\<forall>a < mr_num_reqs mr. \<forall>b < mr_num_reqs mr.
     mr_req_ids mr ! a \<noteq> None \<and> mr_req_ids mr ! a = mr_req_ids mr ! b \<longrightarrow> a = b)"

definition as_triple :: "string \<times> nat \<times> nat \<Rightarrow> pending_entry" where
  "as_triple e = (case e of (r, j, g) \<Rightarrow> Pending_Triple r j g)"

lemma as_triple_fields [simp]: "pending_fields (as_triple e) = e"
  by (cases e) (simp add: as_triple_def)

definition step_entries :: "model_runner \<Rightarrow> (nat \<Rightarrow> nat list) \<Rightarrow> (string \<times> nat \<times> nat) list" where
  "step_entries mr js = concat (map (\<lambda>ri. row_entries mr ri (js ri)) [0..<mr_num_reqs mr])"

lemma in_step_entries:
  "(r, j, g) \<in> set (step_entries mr js) \<longleftrightarrow>
     g = fst (skive_full_group mr) \<and> (\<exists>ri < mr_num_reqs mr. mr_req_ids mr ! ri = Some r \<and> j \<in> set (js ri))"
proof -
  have "(r, j, g) \<in> set (row_entries mr ri (js ri)) \<longleftrightarrow>
      g = fst (skive_full_group mr) \<and> mr_req_ids mr ! ri = Some r \<and> j \<in> set (js ri)" for ri
    by (auto simp: row_entries_def split: option.split)
  thus ?thesis by (auto simp: step_entries_def)
qed

lemma step_entries_row:
  assumes "one_row_each mr" "ri < mr_num_reqs mr" "mr_req_ids mr ! ri = Some rid"
  shows "(rid, j, fst (skive_full_group mr)) \<in> set (step_entries mr js) \<longleftrightarrow> j \<in> set (js ri)"
  unfolding in_step_entries using assms unfolding one_row_each_def by (metis option.distinct(1))

lemma distinct_step_entries:
  assumes "one_row_each mr" "\<forall>ri < mr_num_reqs mr. distinct (js ri)"
  shows "distinct (step_entries mr js)"
proof -
  have "distinct (concat (map (\<lambda>ri. row_entries mr ri (js ri)) [0..<k]))" if "k \<le> mr_num_reqs mr" for k
    using that
  proof (induction k)
    case (Suc k)
    have "distinct (row_entries mr k (js k))"
      using assms(2) Suc.prems by (auto simp: row_entries_def distinct_map inj_on_def split: option.split)
    moreover have "e \<notin> set (row_entries mr k (js k))" if "e \<in> set (row_entries mr ri (js ri))" "ri < k" for e ri
      using that Suc.prems assms(1) unfolding one_row_each_def row_entries_def
      by (auto split: option.splits) (metis Suc_le_lessD less_trans nat_neq_iff option.distinct(1))
    ultimately show ?case using Suc by fastforce
  qed simp
  thus ?thesis by (simp add: step_entries_def)
qed

lemma mirror_null:
  assumes "coord_inv ms p fl" "m \<in> set ms" "b \<in> set (row_of m r)"
  shows "block_id (pheap p b) = 0 \<longleftrightarrow> b = Blk 0"
proof -
  have v: "valid_block p b" "shape_ok p" using assms by (auto simp: coord_inv_def rows_ok_def row_ok_def pool_inv_def)
  then obtain i where "b = Blk i" "i < nat (num_gpu_blocks p)"
    by (auto simp: valid_block_def usable_def shape_ok_def)
  thus ?thesis using v(2) by (simp add: shape_ok_def)
qed

text \<open>Evicting on the worker and reclaiming on the scheduler keeps the tables in step.\<close>

lemma mirror_step:
  assumes "mirror mr km" "one_row_each mr" "km_inv km fl" "km_inv km' fl'" "same_config (km_pool km) (km_pool km')"
    and "length (km_managers km') = length (km_managers km)"
    and "\<forall>g < length (km_managers km). \<forall>r. row_of (km_managers km' ! g) r =
      fold (\<lambda>i. reclaimed i g r) (map as_triple (step_entries mr js)) (row_of (km_managers km ! g) r)"
    and "runner_ok mr" "skive_full_group mr' = skive_full_group mr" "mr_num_reqs mr' = mr_num_reqs mr" "mr_req_ids mr' = mr_req_ids mr"
    and "evict_table mr' = (evict_table mr)\<lparr>bt_rows := rows'\<rparr>"
    and "\<forall>ri < mr_num_reqs mr. rows' ! ri = nulled (js ri) (bt_rows (evict_table mr) ! ri)"
  shows "mirror mr' km'"
  unfolding mirror_def Let_def assms(9-11)
proof (intro conjI allI impI)
  let ?gid = "fst (skive_full_group mr)"
  have g: "?gid < length (km_managers km)" using assms(1) by (simp add: mirror_def Let_def)
  show "?gid < length (km_managers km')" using g assms(6) by simp
  fix ri rid assume ri: "ri < mr_num_reqs mr" "mr_req_ids mr ! ri = Some rid"
  let ?n = "nat (num_blocks_per_row (evict_table mr) ! ri)" and ?row = "bt_rows (evict_table mr) ! ri"
  let ?srow = "row_of (km_managers km ! ?gid) rid" and ?srow' = "row_of (km_managers km' ! ?gid) rid"
  let ?id = "\<lambda>b. block_id (pheap (km_pool km) b)"
  have m: "map ?id ?srow = take ?n ?row" using assms(1) ri by (simp add: mirror_def Let_def)
  have n: "?n \<le> length ?row" using assms(8) ri(1) by (simp add: runner_ok_def Let_def)
  have len: "length ?srow = ?n" using m n by (metis length_map length_take min_absorb2)
  have srow': "?srow' = fold (\<lambda>i. reclaimed i ?gid rid) (map as_triple (step_entries mr js)) ?srow" using assms(7) g by blast
  have z: "?id (Blk 0) = 0" using assms(3)
    by (simp add: km_inv_def Let_def km_pool_def coord_inv_def pool_inv_def shape_ok_def)
  have idc: "block_id (pheap (km_pool km') b) = ?id b" for b using assms(5) by (simp add: same_config_def)
  have "map ?id ?srow' = take ?n (rows' ! ri)"
  proof (rule nth_equalityI)
    show "length (map ?id ?srow') = length (take ?n (rows' ! ri))" using srow' len n assms(13) ri(1) by simp
    fix k assume "k < length (map ?id ?srow')"
    hence k: "k < ?n" using srow' len by simp
    have e: "(\<exists>item \<in> set (map as_triple (step_entries mr js)). pending_fields item = (rid, k, ?gid)) \<longleftrightarrow> k \<in> set (js ri)"
      using step_entries_row [OF assms(2) ri, of k js] by auto
    have "?srow' ! k = (if k \<in> set (js ri) then Blk 0 else ?srow ! k)"
      unfolding srow' using nth_reclaimed [of k ?srow ?gid rid "map as_triple (step_entries mr js)"] k len unfolding e by simp
    moreover have "?id (?srow ! k) = ?row ! k" using arg_cong [OF m, of "\<lambda>xs. xs ! k"] k len n by simp
    moreover have "rows' ! ri ! k = (if k \<in> set (js ri) then NULL_BLOCK_ID else ?row ! k)"
      using assms(13) ri(1) nth_nulled [of k ?row "js ri"] k n by simp
    ultimately show "map ?id ?srow' ! k = take ?n (rows' ! ri) ! k" using k len srow' z by (simp add: NULL_BLOCK_ID_def)
  qed
  thus "map (\<lambda>b. block_id (pheap (km_pool km') b)) ?srow' =
      take (nat (num_blocks_per_row (mr_tables mr' ! ?gid) ! ri)) (bt_rows (mr_tables mr' ! ?gid) ! ri)"
    using assms(12) unfolding assms(9) by (simp add: idc)
qed

lemma entries_hit:
  assumes "mirror mr km" "one_row_each mr" "km_inv km fl" "runner_ok mr"
    and "\<forall>ri < mr_num_reqs mr. set (js ri) \<subseteq> set (real_positions (nat (num_blocks_per_row (evict_table mr) ! ri)) (bt_rows (evict_table mr) ! ri))"
    and "(r, j, g) \<in> set (step_entries mr js)"
  shows "g < length (km_managers km)" "j < length (row_of (km_managers km ! g) r)" "row_of (km_managers km ! g) r ! j \<noteq> Blk 0"
proof -
  let ?gid = "fst (skive_full_group mr)"
  obtain ri where ri: "g = ?gid" "ri < mr_num_reqs mr" "mr_req_ids mr ! ri = Some r" "j \<in> set (js ri)"
    using assms(6) unfolding in_step_entries by blast
  let ?n = "nat (num_blocks_per_row (evict_table mr) ! ri)" and ?row = "bt_rows (evict_table mr) ! ri" and ?srow = "row_of (km_managers km ! g) r"
  show g: "g < length (km_managers km)" using assms(1) ri(1) by (simp add: mirror_def Let_def)
  have m: "map (\<lambda>b. block_id (pheap (km_pool km) b)) ?srow = take ?n ?row" using assms(1) ri by (simp add: mirror_def Let_def)
  have n: "?n \<le> length ?row" using assms(4) ri(2) by (simp add: runner_ok_def Let_def)
  have j: "j < ?n" "?row ! j \<noteq> 0" using assms(5) ri(2,4) by (auto simp: real_positions_def NULL_BLOCK_ID_def)
  show l: "j < length ?srow" using m n j(1) by (metis length_map length_take min_absorb2)
  have id: "block_id (pheap (km_pool km) (?srow ! j)) = ?row ! j" using arg_cong [OF m, of "\<lambda>xs. xs ! j"] j(1) l n by simp
  have c: "coord_inv (km_managers km) (km_pool km) fl" using assms(3) by (simp add: km_inv_def Let_def km_pool_def)
  show "?srow ! j \<noteq> Blk 0" using mirror_null [OF c _ nth_mem [OF l]] g id j(2) by simp
qed

section \<open>One step of worker and scheduler\<close>

text \<open>
  C8: Eviction keeps the worker's block table and the scheduler's block table in step. Starting from tables
  that name the same blocks, the worker's hook, the hand-over of its entries and the reclaiming by the
  scheduler all succeed. Afterwards the tables name the same blocks again and the ownership invariant of the
  cache holds. The scheduler has freed as many entries as the worker evicted, and rows of other groups and of
  requests outside the batch are unchanged.
\<close>

theorem evict_reclaim_in_step:
  assumes "build_eviction_config env (mr_settings mr) = Some cfg" "runner_ok mr" "scorer_ok one_va" "skive_evict_every env \<noteq> 0"
    and "km_inv km fl" "mirror mr km" "one_row_each mr" "mr_pending_free mr = []" "\<not> skive_no_reclaim env"
  shows "\<exists>mr' pending mr'' n km' fl'. skive_post_step batch_va one_va env mr = Inr mr' \<and>
    skive_pop_pending env mr' = (pending, mr'') \<and> skive_reclaim (map as_triple pending) tot km = Inr (n, tot + n, km') \<and>
    mirror mr'' km' \<and> km_inv km' fl' \<and> mr_pending_free mr'' = [] \<and> n = mr_evicted_total mr'' - mr_evicted_total mr \<and>
    (\<forall>g < length (km_managers km). \<forall>r. g \<noteq> fst (skive_full_group mr) \<or> Some r \<notin> set (take (mr_num_reqs mr) (mr_req_ids mr)) \<longrightarrow>
       row_of (km_managers km' ! g) r = row_of (km_managers km ! g) r)"
proof -
  let ?rows = "bt_rows (evict_table mr)" and ?gid = "fst (skive_full_group mr)" and ?N = "mr_num_reqs mr"
  obtain mr' js where p: "skive_post_step batch_va one_va env mr = Inr mr'"
    "mr_tables mr' = (mr_tables mr)[?gid := (evict_table mr)\<lparr>bt_rows := map (\<lambda>ri. nulled (js ri) (?rows ! ri)) [0..<length ?rows]\<rparr>]"
    "skive_full_group mr' = skive_full_group mr" "mr_num_reqs mr' = ?N" "mr_req_ids mr' = mr_req_ids mr"
    "mr_pending_free mr' = step_entries mr js" "mr_evicted_total mr' = mr_evicted_total mr + int (\<Sum>ri\<leftarrow>[0..<?N]. length (js ri))"
    and ev: "\<forall>ri < ?N. js ri = [] \<or> row_evicted env cfg mr ri (js ri)"
    using post_step_law [OF assms(1-4), of batch_va] assms(8) unfolding step_entries_def by fastforce
  have none: "js ri = []" if "ri < ?N" "mr_req_ids mr ! ri = None" for ri
    using ev that by (auto simp: row_evicted_def Let_def)
  have ch: "distinct (js ri)" "set (js ri) \<subseteq> set (real_positions (nat (num_blocks_per_row (evict_table mr) ! ri)) (?rows ! ri))" if "ri < ?N" for ri
    using ev that by (auto simp: row_evicted_def Let_def evict_choice_def)
  define mr'' where "mr'' = (if step_entries mr js = [] then mr' else mr'\<lparr>mr_pending_free := []\<rparr>)"
  have pop: "skive_pop_pending env mr' = (step_entries mr js, mr'')" using p(6) assms(9) by (simp add: skive_pop_pending_def mr''_def)
  have f: "mr_tables mr'' = mr_tables mr'" "mr_num_reqs mr'' = ?N" "mr_req_ids mr'' = mr_req_ids mr" "mr_pending_free mr'' = []"
    "mr_evicted_total mr'' = mr_evicted_total mr'" "mr_config_groups mr'' = mr_config_groups mr'" "mr_attn_groups mr'' = mr_attn_groups mr'"
    using p(4-6) by (simp_all add: mr''_def)
  have grp: "skive_full_group mr'' = skive_full_group mr" using full_group_cong [OF f(6,7)] f(1) p(3) by simp
  let ?items = "map as_triple (step_entries mr js)"
  obtain km' fl' where r: "skive_reclaim ?items tot km =
      (let n = reclaim_count ?items (\<lambda>g. row_of (km_managers km ! g)) (length (km_managers km)) in Inr (n, tot + n, km'))"
    "km_inv km' fl'" "same_config (km_pool km) (km_pool km')" "length (km_managers km') = length (km_managers km)"
    "\<forall>g < length (km_managers km). \<forall>r. row_of (km_managers km' ! g) r = fold (\<lambda>i. reclaimed i g r) ?items (row_of (km_managers km ! g) r)"
    using skive_reclaim_law [OF assms(5), of ?items tot] by blast
  have cnt: "reclaim_count ?items (\<lambda>g. row_of (km_managers km ! g)) (length (km_managers km)) = int (length ?items)"
  proof (rule reclaim_count_distinct)
    show "distinct (map pending_fields ?items)" using distinct_step_entries [OF assms(7)] ch(1) by (simp add: comp_def)
    show "\<forall>item \<in> set ?items. case pending_fields item of (r, j, g) \<Rightarrow> g < length (km_managers km) \<and>
        j < length (row_of (km_managers km ! g) r) \<and> row_of (km_managers km ! g) r ! j \<noteq> Blk 0"
      using entries_hit [OF assms(6,7,5,2)] ch(2) by fastforce
  qed
  have "length (step_entries mr js) = (\<Sum>ri\<leftarrow>[0..<?N]. length (js ri))"
    unfolding step_entries_def length_concat map_map comp_def
    by (intro arg_cong [of _ _ sum_list] map_cong refl) (use none in \<open>auto simp: row_entries_def split: option.split\<close>)
  hence n: "int (length ?items) = mr_evicted_total mr'' - mr_evicted_total mr" using p(7) f(5) by simp
  have "?gid < length (mr_tables mr)" "?N \<le> length ?rows" using assms(2) by (simp_all add: runner_ok_def Let_def)
  hence "evict_table mr'' = (evict_table mr)\<lparr>bt_rows := map (\<lambda>ri. nulled (js ri) (?rows ! ri)) [0..<length ?rows]\<rparr>"
    "\<forall>ri < ?N. map (\<lambda>ri. nulled (js ri) (?rows ! ri)) [0..<length ?rows] ! ri = nulled (js ri) (?rows ! ri)"
    using p(2) f(1) grp by simp_all
  hence mir: "mirror mr'' km'" using mirror_step [OF assms(6,7,5) r(2-5) assms(2) grp f(2,3)] by blast
  have "row_of (km_managers km' ! g) r = row_of (km_managers km ! g) r"
    if "g < length (km_managers km)" "g \<noteq> ?gid \<or> Some r \<notin> set (take ?N (mr_req_ids mr))" for g r
  proof (rule nth_equalityI)
    show l: "length (row_of (km_managers km' ! g) r) = length (row_of (km_managers km ! g) r)" using r(5) that(1) by simp
    have no: "(r, k, g) \<notin> set (step_entries mr js)" for k
    proof
      assume "(r, k, g) \<in> set (step_entries mr js)"
      then obtain ri where ri: "g = ?gid" "ri < ?N" "mr_req_ids mr ! ri = Some r" unfolding in_step_entries by blast
      hence "Some r \<in> set (take ?N (mr_req_ids mr))"
        using assms(2) by (auto simp: runner_ok_def Let_def in_set_conv_nth intro!: exI [of _ ri])
      thus False using that(2) ri(1) by simp
    qed
    fix k assume "k < length (row_of (km_managers km' ! g) r)"
    thus "row_of (km_managers km' ! g) r ! k = row_of (km_managers km ! g) r ! k"
      using r(5) that(1) l nth_reclaimed [of k "row_of (km_managers km ! g) r" g r ?items] no by (auto simp del: fold_simps)
  qed
  thus ?thesis using p(1) pop r(1,2) mir f(4) cnt n unfolding Let_def
    by (intro exI [of _ mr'] exI [of _ "step_entries mr js"] exI [of _ mr''] exI [of _ "int (length ?items)"] exI [of _ km'] exI [of _ fl']) simp
qed

text \<open>The demonstration runner with a cache whose request holds the same three blocks.\<close>

lemma demo_in_step:
  obtains km fl where "km_inv km fl" "mirror demo_runner km"
proof -
  obtain km m where d: "untracked ''a'' m" "km_inv km (map Blk [1..<8])" "mgr_block_size m = 16" "km_managers km = [m]"
    "num_gpu_blocks (km_pool km) = 8" by (rule demo_manager [of "\<lambda>x. x" "''a''"]) blast
  let ?p = "km_pool km"
  have c: "coord_inv ([] @ m # []) ?p (map Blk [1..<8])" using d(2,4) by (simp add: km_inv_def Let_def km_pool_def)
  have row: "row_of m ''a'' = []" using d(1) by (simp add: untracked_def)
  have "cdiv 40 16 = 3" by (simp add: cdiv_def)
  then obtain bs m' p' fl' where a: "op_ok (others [] []) ''a'' m ?p (map Blk [1..<8]) m' p' fl'" "row_of m' ''a'' = bs"
    "map Blk [1..<8] = bs @ fl'" "length bs = 3"
    using allocate_ok [OF coord_inv_mgr [OF c], of 40 "''a''"] row d(3) by auto
  have "take 3 (map Blk [1..<8]) = [Blk 1, Blk 2, Blk 3]" by (simp add: upt_rec numeral_eq_Suc)
  hence bs: "bs = [Blk 1, Blk 2, Blk 3]" using a(3,4) by (metis append_eq_conv_conj)
  have op: "same_config ?p p'" "only_row ''a'' m m'" using a(1) by (simp_all add: op_ok_def)
  let ?km = "km\<lparr>km_coordinator := with_managers [m'] p' (km_coordinator km)\<rparr>"
  have inv: "km_inv ?km fl'"
    using coord_update [OF c a(1)] op d(4) by (intro km_inv_update [OF d(2), where rid = "''a''"]) (simp_all add: km_pool_def)
  have "pool_inv p' fl'" using inv by (simp add: km_inv_def Let_def coord_inv_def)
  moreover have "num_gpu_blocks p' = 8" using op(1) d(5) by (simp add: same_config_def)
  ultimately have "block_id (pheap p' (Blk i)) = int i" if "i \<le> 3" for i using that by (simp add: pool_inv_def shape_ok_def)
  hence "mirror demo_runner ?km"
    unfolding mirror_def Let_def demo_group using a(2) bs by (simp add: demo_runner_def km_pool_def)
  thus thesis using that inv by blast
qed

theorem evict_reclaim_in_step_witness:
  "\<exists>km fl mr' pending mr'' n km'. km_inv km fl \<and>
     skive_post_step (\<lambda>_ _. None) (\<lambda>_ _ _. None) demo_env demo_runner = Inr mr' \<and>
     skive_pop_pending demo_env mr' = (pending, mr'') \<and> skive_reclaim (map as_triple pending) 0 km = Inr (n, n, km') \<and> mirror mr'' km'"
proof -
  obtain km fl where k: "km_inv km fl" "mirror demo_runner km" by (rule demo_in_step)
  have "one_row_each demo_runner" by (simp add: one_row_each_def demo_runner_def)
  moreover have "scorer_ok (\<lambda>_ _ _. None)" "mr_pending_free demo_runner = []" "\<not> skive_no_reclaim demo_env" "skive_evict_every demo_env \<noteq> 0"
    by (simp_all add: scorer_ok_def demo_runner_def demo_env_def)
  ultimately show ?thesis using k
      evict_reclaim_in_step [OF demo_config demo_runner_ok _ _ k, of "\<lambda>_ _ _. None" "\<lambda>_ _. None" 0] by fastforce
qed

end
