(* ===== verification/Encoder_Cache.thy ===== *)
theory Encoder_Cache
  imports Requests
begin

text \<open>
  The cache of encoder outputs, \<^verbatim>\<open>vllm/v1/core/encoder_cache_manager.py\<close>: the manager that shares
  the embeddings of one multi-modal item between requests, the manager that encoder-decoder models
  use in its place, and the budget computed at start-up. The ordered dictionary \<^verbatim>\<open>freeable\<close> is an
  association list whose front is the oldest entry. \<^verbatim>\<open>list(set)\<close> has an order the language does not
  fix, so the operation that iterates over it takes the enumeration as a parameter.
\<close>

section \<open>The manager of multi-modal models\<close>

record encoder_cache =
  cache_size :: int
  num_free_slots :: int
  num_freeable_slots :: int
  cached :: "(string \<times> string set) list"
  request_cached_ids :: "(string \<times> nat set) list"
  freeable :: "(string \<times> int) list"
  freed :: "string list"

definition new_encoder_cache :: "int \<Rightarrow> encoder_cache" where
  "new_encoder_cache n =
     \<lparr>cache_size = n, num_free_slots = n, num_freeable_slots = n, cached = [],
      request_cached_ids = [], freeable = [], freed = []\<rparr>"

definition encoder_reset :: "encoder_cache \<Rightarrow> encoder_cache" where
  "encoder_reset c =
     c\<lparr>cached := [], request_cached_ids := [], freeable := [], freed := [],
       num_free_slots := cache_size c, num_freeable_slots := cache_size c\<rparr>"

definition set_at :: "('k \<times> 'v set) list \<Rightarrow> 'k \<Rightarrow> 'v set" where
  "set_at m k = (case map_of m k of None \<Rightarrow> {} | Some s \<Rightarrow> s)"

definition get_cached_input_ids :: "request \<Rightarrow> encoder_cache \<Rightarrow> nat set" where
  "get_cached_input_ids r c = set_at (request_cached_ids c) (request_id r)"

definition add_reference :: "string \<Rightarrow> nat \<Rightarrow> string \<Rightarrow> encoder_cache \<Rightarrow> encoder_cache" where
  "add_reference rid i h c =
     c\<lparr>cached := AList.update h (insert rid (set_at (cached c) h)) (cached c),
       request_cached_ids :=
         AList.update rid (insert i (set_at (request_cached_ids c) rid)) (request_cached_ids c)\<rparr>"

definition take_from_freeable :: "string \<Rightarrow> encoder_cache \<Rightarrow> encoder_cache res" where
  "take_from_freeable h c =
     (case map_of (freeable c) h of
        None \<Rightarrow> Inl KeyError
      | Some n \<Rightarrow> Inr (c\<lparr>freeable := AList.delete h (freeable c),
                         num_freeable_slots := num_freeable_slots c - n\<rparr>))"

definition check_and_update_cache :: "request \<Rightarrow> nat \<Rightarrow> encoder_cache \<Rightarrow> (bool \<times> encoder_cache) res" where
  "check_and_update_cache r i c =
     bindE (py_index (mm_features r) (int i)) (\<lambda>f.
       let h = mm_identifier f
       in case map_of (cached c) h of
            None \<Rightarrow> Inr (False, c)
          | Some refs \<Rightarrow>
              bindE (if refs = {} then take_from_freeable h c else Inr c) (\<lambda>c1.
                Inr (True, add_reference (request_id r) i h c1)))"

text \<open>The eviction loop: \<^verbatim>\<open>popitem(last=False)\<close> on an empty dictionary raises \<^verbatim>\<open>KeyError\<close>.\<close>

function evict_oldest :: "int \<Rightarrow> encoder_cache \<Rightarrow> encoder_cache res" where
  "evict_oldest need c =
     (if need > num_free_slots c
      then case freeable c of
             [] \<Rightarrow> Inl KeyError
           | (h, n) # rest \<Rightarrow>
               if map_of (cached c) h = None then Inl KeyError
               else evict_oldest need
                      (c\<lparr>freeable := rest, cached := AList.delete h (cached c), freed := freed c @ [h],
                         num_free_slots := num_free_slots c + n\<rparr>)
      else Inr c)"
  by pat_completeness auto
termination
  by (relation "measure (\<lambda>(need, c). length (freeable c))") auto

declare evict_oldest.simps [simp del]

definition can_allocate ::
  "request \<Rightarrow> nat \<Rightarrow> int \<Rightarrow> int \<Rightarrow> encoder_cache \<Rightarrow> (bool \<times> encoder_cache) res" where
  "can_allocate r i encoder_compute_budget num_embeds_to_schedule c =
     bindE (get_num_encoder_embeds r i) (\<lambda>n.
       if n > encoder_compute_budget then Inr (False, c)
       else let num_embeds = n + num_embeds_to_schedule
            in if num_embeds \<le> num_free_slots c then Inr (True, c)
               else if num_embeds > num_freeable_slots c then Inr (False, c)
               else bindE (evict_oldest num_embeds c) (\<lambda>c1. Inr (True, c1)))"

definition allocate_encoder :: "request \<Rightarrow> nat \<Rightarrow> encoder_cache \<Rightarrow> encoder_cache res" where
  "allocate_encoder r i c =
     bindE (py_index (mm_features r) (int i)) (\<lambda>f.
       let h = mm_identifier f;
           c1 = (if map_of (cached c) h = None then c\<lparr>cached := AList.update h {} (cached c)\<rparr> else c)
       in bindE (get_num_encoder_embeds r i) (\<lambda>n.
          bindE (guardE (num_free_slots c1 \<ge> n) AssertionError) (\<lambda>_.
          bindE (guardE (num_freeable_slots c1 \<ge> n) AssertionError) (\<lambda>_.
            let c2 = add_reference (request_id r) i h c1
            in Inr (c2\<lparr>num_free_slots := num_free_slots c2 - n,
                       num_freeable_slots := num_freeable_slots c2 - n\<rparr>)))))"

definition drop_input_id :: "string \<Rightarrow> nat \<Rightarrow> encoder_cache \<Rightarrow> encoder_cache" where
  "drop_input_id rid i c =
     (case map_of (request_cached_ids c) rid of
        None \<Rightarrow> c
      | Some ids \<Rightarrow>
          c\<lparr>request_cached_ids :=
              (if ids - {i} = {} then AList.delete rid (request_cached_ids c)
               else AList.update rid (ids - {i}) (request_cached_ids c))\<rparr>)"

definition free_encoder_input :: "request \<Rightarrow> nat \<Rightarrow> encoder_cache \<Rightarrow> encoder_cache res" where
  "free_encoder_input r i c =
     bindE (py_index (mm_features r) (int i)) (\<lambda>f.
       let h = mm_identifier f;
           c1 = drop_input_id (request_id r) i c;
           refs = set_at (cached c1) h
       in if refs = {} then Inr c1
          else let left = refs - {request_id r};
                   c2 = c1\<lparr>cached := AList.update h left (cached c1)\<rparr>
               in if left \<noteq> {} then Inr c2
                  else bindE (get_num_encoder_embeds r i) (\<lambda>n.
                         Inr (c2\<lparr>freeable := AList.update h n (freeable c2),
                                 num_freeable_slots := num_freeable_slots c2 + n\<rparr>)))"

definition encoder_free :: "(nat set \<Rightarrow> nat list) \<Rightarrow> request \<Rightarrow> encoder_cache \<Rightarrow> encoder_cache res" where
  "encoder_free list_of r c =
     foldE (free_encoder_input r) (list_of (get_cached_input_ids r c)) c"

definition get_freed_mm_hashes :: "encoder_cache \<Rightarrow> string list \<times> encoder_cache" where
  "get_freed_mm_hashes c = (freed c, c\<lparr>freed := []\<rparr>)"

section \<open>The budget\<close>

text \<open>The fields of the scheduler configuration the budget reads.\<close>

record mm_scheduler_config =
  disable_chunked_mm_input :: bool
  max_num_batched_tokens :: int
  max_num_encoder_input_tokens :: int
  encoder_cache_size :: int

definition compute_mm_encoder_budget ::
  "mm_scheduler_config \<Rightarrow> (string \<times> int) list \<Rightarrow> (int \<times> int) res" where
  "compute_mm_encoder_budget cfg mm_max_toks_per_item =
     (if mm_max_toks_per_item = [] then Inr (0, 0)
      else let max_tokens = Max (set (map snd mm_max_toks_per_item))
           in if disable_chunked_mm_input cfg \<and> max_tokens > max_num_batched_tokens cfg
              then Inl ValueError
              else Inr (max (max_num_encoder_input_tokens cfg) max_tokens,
                        max (encoder_cache_size cfg) max_tokens))"

section \<open>The manager of encoder-decoder models\<close>

record encdec_cache =
  ed_cache_size :: int
  ed_num_free_slots :: int
  ed_allocated :: "string list"
  ed_to_free :: "string list"

definition new_encdec_cache :: "int \<Rightarrow> encdec_cache" where
  "new_encdec_cache n = \<lparr>ed_cache_size = n, ed_num_free_slots = n, ed_allocated = [], ed_to_free = []\<rparr>"

definition encdec_reset :: "encdec_cache \<Rightarrow> encdec_cache" where
  "encdec_reset c = c\<lparr>ed_num_free_slots := ed_cache_size c, ed_allocated := [], ed_to_free := []\<rparr>"

definition encdec_check_and_update_cache :: "request \<Rightarrow> nat \<Rightarrow> encdec_cache \<Rightarrow> (bool \<times> encdec_cache) res" where
  "encdec_check_and_update_cache r i c = Inr (False, c)"

definition encdec_can_allocate ::
  "request \<Rightarrow> nat \<Rightarrow> int \<Rightarrow> int \<Rightarrow> encdec_cache \<Rightarrow> (bool \<times> encdec_cache) res" where
  "encdec_can_allocate r i encoder_compute_budget num_embeds_to_schedule c =
     bindE (get_num_encoder_embeds r i) (\<lambda>n.
       if n > encoder_compute_budget then Inr (False, c)
       else Inr (n + num_embeds_to_schedule \<le> ed_num_free_slots c, c))"

definition encdec_allocate :: "request \<Rightarrow> nat \<Rightarrow> encdec_cache \<Rightarrow> encdec_cache res" where
  "encdec_allocate r i c =
     bindE (get_num_encoder_embeds r i) (\<lambda>n.
     bindE (py_index (mm_features r) (int i)) (\<lambda>f.
       Inr (c\<lparr>ed_num_free_slots := ed_num_free_slots c - n,
              ed_allocated := ed_allocated c @ [mm_identifier f]\<rparr>)))"

definition encdec_free_encoder_input :: "request \<Rightarrow> nat \<Rightarrow> encdec_cache \<Rightarrow> encdec_cache res" where
  "encdec_free_encoder_input r i c =
     bindE (get_num_encoder_embeds r i) (\<lambda>n.
       Inr (c\<lparr>ed_num_free_slots := ed_num_free_slots c + n\<rparr>))"

definition encdec_free :: "request \<Rightarrow> encdec_cache \<Rightarrow> encdec_cache res" where
  "encdec_free r c = foldE (encdec_free_encoder_input r) [0..<length (mm_features r)] c"

definition encdec_get_cached_input_ids :: "request \<Rightarrow> encdec_cache \<Rightarrow> nat set" where
  "encdec_get_cached_input_ids r c = set [0..<length (mm_features r)]"

definition encdec_get_freed_mm_hashes :: "encdec_cache \<Rightarrow> string list \<times> encdec_cache" where
  "encdec_get_freed_mm_hashes c = (ed_to_free c, c\<lparr>ed_to_free := ed_allocated c, ed_allocated := []\<rparr>)"

end
