(* ===== verification/Encoder_Correct.thy ===== *)
theory Encoder_Correct
  imports Encoder_Cache
begin

text \<open>
  The accounting of the encoder cache. An entry is a hash with a key in \<^verbatim>\<open>cached\<close>; it is held when
  some request references it. The invariant says that the free slots are the capacity less the sizes
  of all entries, that the freeable slots are the capacity less the sizes of the held entries, and that
  \<^verbatim>\<open>freeable\<close> lists exactly the entries nobody holds. Sizes are a function of the hash: two items
  with one hash have the same number of embeddings.
\<close>

section \<open>Entries, references and the invariant\<close>

named_theorems enc_simps \<open>effect of the primitive updates on entries and references\<close>

definition entries :: "encoder_cache \<Rightarrow> string set" where
  "entries c = dom (map_of (cached c))"

definition refs_to :: "encoder_cache \<Rightarrow> string \<Rightarrow> string set" where
  "refs_to c h = set_at (cached c) h"

definition held :: "encoder_cache \<Rightarrow> string set" where
  "held c = {h. refs_to c h \<noteq> {}}"

definition sizes_ok :: "(string \<Rightarrow> mm_feature list) \<Rightarrow> (string \<Rightarrow> int) \<Rightarrow> bool" where
  "sizes_ok F sz \<longleftrightarrow> (\<forall>h. 0 \<le> sz h) \<and>
     (\<forall>rid. \<forall>f \<in> set (F rid). get_num_embeds (mm_position f) = sz (mm_identifier f))"

definition known :: "(string \<Rightarrow> mm_feature list) \<Rightarrow> request \<Rightarrow> bool" where
  "known F r \<longleftrightarrow> mm_features r = F (request_id r)"

definition ec_account :: "(string \<Rightarrow> int) \<Rightarrow> encoder_cache \<Rightarrow> bool" where
  "ec_account sz c \<longleftrightarrow> distinct (map fst (freeable c)) \<and> (\<forall>(h, n) \<in> set (freeable c). n = sz h) \<and>
     fst ` set (freeable c) = entries c - held c \<and>
     num_free_slots c = cache_size c - sum sz (entries c) \<and>
     num_freeable_slots c = cache_size c - sum sz (held c) \<and> 0 \<le> num_free_slots c"

definition ec_refs :: "(string \<Rightarrow> mm_feature list) \<Rightarrow> encoder_cache \<Rightarrow> bool" where
  "ec_refs F c \<longleftrightarrow>
     (\<forall>rid. finite (set_at (request_cached_ids c) rid) \<and>
            (\<forall>i \<in> set_at (request_cached_ids c) rid. i < length (F rid)) \<and>
            (\<forall>h. rid \<in> refs_to c h \<longrightarrow>
               (\<exists>i \<in> set_at (request_cached_ids c) rid. mm_identifier (F rid ! i) = h)))"

definition ec_inv :: "(string \<Rightarrow> mm_feature list) \<Rightarrow> (string \<Rightarrow> int) \<Rightarrow> encoder_cache \<Rightarrow> bool" where
  "ec_inv F sz c \<longleftrightarrow> ec_account sz c \<and> ec_refs F c"

lemma set_at_update [simp]: "set_at (AList.update k s m) = (set_at m)(k := s)"
  by (rule ext) (simp add: set_at_def update_conv')

lemma set_at_delete [simp]: "set_at (AList.delete k m) = (set_at m)(k := {})"
  by (rule ext) (simp add: set_at_def delete_conv')

lemma set_at_Nil [simp]: "set_at [] k = {}"
  by (simp add: set_at_def)

lemma view_of_cached [simp]:
  "entries (c\<lparr>freeable := fs\<rparr>) = entries c" "refs_to (c\<lparr>freeable := fs\<rparr>) = refs_to c"
  "entries (c\<lparr>num_freeable_slots := n\<rparr>) = entries c" "refs_to (c\<lparr>num_freeable_slots := n\<rparr>) = refs_to c"
  "entries (c\<lparr>num_free_slots := n\<rparr>) = entries c" "refs_to (c\<lparr>num_free_slots := n\<rparr>) = refs_to c"
  "entries (c\<lparr>freed := hs\<rparr>) = entries c" "refs_to (c\<lparr>freed := hs\<rparr>) = refs_to c"
  "entries (c\<lparr>request_cached_ids := m\<rparr>) = entries c" "refs_to (c\<lparr>request_cached_ids := m\<rparr>) = refs_to c"
  "held (c\<lparr>freeable := fs\<rparr>) = held c" "held (c\<lparr>num_freeable_slots := n\<rparr>) = held c"
  "held (c\<lparr>num_free_slots := n\<rparr>) = held c" "held (c\<lparr>freed := hs\<rparr>) = held c"
  "held (c\<lparr>request_cached_ids := m\<rparr>) = held c"
  by (simp_all add: entries_def held_def refs_to_def fun_eq_iff)

lemma finite_entries [simp]: "finite (entries c)"
  by (simp add: entries_def finite_dom_map_of)

lemma held_entries: "held c \<subseteq> entries c"
  by (auto simp: held_def refs_to_def entries_def set_at_def split: option.splits)

lemma finite_held [simp]: "finite (held c)"
  using finite_subset [OF held_entries finite_entries] .

lemma map_of_None_entries: "map_of (cached c) h = None \<longleftrightarrow> h \<notin> entries c"
  by (simp add: entries_def domIff)

lemma map_of_Some_refs: "map_of (cached c) h = Some s \<Longrightarrow> h \<in> entries c \<and> s = refs_to c h"
  by (auto simp: entries_def refs_to_def set_at_def)

lemma refs_entries: "rid \<in> refs_to c h \<Longrightarrow> h \<in> entries c"
  using held_entries [of c] by (auto simp: held_def)

lemma py_index_feature:
  assumes "known F r" "i < length (F (request_id r))"
  shows "py_index (mm_features r) (int i) = Inr (F (request_id r) ! i)"
  using assms by (simp add: known_def py_index_def)

lemma embeds_feature:
  assumes "known F r" "sizes_ok F sz" "i < length (F (request_id r))"
  shows "get_num_encoder_embeds r i = Inr (sz (mm_identifier (F (request_id r) ! i)))"
proof -
  have "get_num_embeds (mm_position (F (request_id r) ! i)) = sz (mm_identifier (F (request_id r) ! i))"
    using assms(2) nth_mem [OF assms(3)] unfolding sizes_ok_def by blast
  thus ?thesis using assms by (simp add: known_def get_num_encoder_embeds_def)
qed

lemma free_le_freeable:
  assumes "ec_account sz c" "sizes_ok F sz"
  shows "num_free_slots c \<le> num_freeable_slots c"
  using assms sum_mono2 [OF finite_entries held_entries, of c sz]
  by (auto simp: ec_account_def sizes_ok_def)

lemma new_encoder_cache_inv: "0 \<le> n \<Longrightarrow> ec_inv F sz (new_encoder_cache n)"
  by (simp add: ec_inv_def ec_account_def ec_refs_def new_encoder_cache_def entries_def held_def refs_to_def)

section \<open>Looking up\<close>

lemma entries_add_reference [enc_simps]: "entries (add_reference rid i h c) = insert h (entries c)"
  by (auto simp: entries_def add_reference_def update_conv')

lemma refs_add_reference [enc_simps]:
  "refs_to (add_reference rid i h c) = (refs_to c)(h := insert rid (refs_to c h))"
  by (rule ext) (simp add: refs_to_def add_reference_def)

lemma held_add_reference [enc_simps]: "held (add_reference rid i h c) = insert h (held c)"
  by (auto simp: held_def refs_add_reference)

lemma add_reference_fields [simp]:
  "cache_size (add_reference rid i h c) = cache_size c"
  "num_free_slots (add_reference rid i h c) = num_free_slots c"
  "num_freeable_slots (add_reference rid i h c) = num_freeable_slots c"
  "freeable (add_reference rid i h c) = freeable c"
  "freed (add_reference rid i h c) = freed c"
  by (simp_all add: add_reference_def)

lemma ec_refs_add_reference:
  assumes "ec_refs F c" "i < length (F rid)" "mm_identifier (F rid ! i) = h"
  shows "ec_refs F (add_reference rid i h c)"
  using assms unfolding ec_refs_def refs_add_reference by (auto simp: add_reference_def)

lemma take_from_freeable_law:
  assumes "ec_account sz c" "h \<in> entries c" "h \<notin> held c"
  shows "take_from_freeable h c =
           Inr (c\<lparr>freeable := AList.delete h (freeable c), num_freeable_slots := num_freeable_slots c - sz h\<rparr>)"
proof -
  have "h \<in> fst ` set (freeable c)" using assms by (simp add: ec_account_def)
  then obtain n where "map_of (freeable c) h = Some n"
    by (metis map_of_eq_None_iff not_None_eq)
  moreover hence "n = sz h" using assms(1) map_of_SomeD by (fastforce simp: ec_account_def)
  ultimately show ?thesis by (simp add: take_from_freeable_def)
qed

lemma adopt_entry_account:
  assumes "ec_account sz c" "h \<in> entries c" "h \<notin> held c"
  shows "ec_account sz (add_reference rid i h
           (c\<lparr>freeable := AList.delete h (freeable c), num_freeable_slots := num_freeable_slots c - sz h\<rparr>))"
    (is "ec_account sz (add_reference rid i h ?d)")
proof -
  have keys: "fst ` set (AList.delete h (freeable c)) = entries c - insert h (held c)"
    using assms(1) by (auto simp: ec_account_def dom_map_of_conv_image_fst [symmetric] delete_conv')
  have "\<forall>(k, n) \<in> set (AList.delete h (freeable c)). n = sz k"
    using assms(1) by (auto simp: ec_account_def AList.delete_eq)
  thus ?thesis
    using assms distinct_delete [of "freeable c" h]
    by (auto simp: ec_account_def enc_simps keys insert_absorb)
qed

lemma check_and_update_cache_law:
  assumes inv: "ec_inv F sz c" and r: "known F r" and i: "i < length (F (request_id r))"
  defines "h \<equiv> mm_identifier (F (request_id r) ! i)"
  shows "\<exists>c'. check_and_update_cache r i c = Inr (h \<in> entries c, c') \<and> ec_inv F sz c' \<and>
           entries c' = entries c \<and> num_free_slots c' = num_free_slots c \<and> cache_size c' = cache_size c \<and>
           freed c' = freed c \<and> refs_to c' = (if h \<in> entries c then (refs_to c)(h := insert (request_id r) (refs_to c h)) else refs_to c)"
proof (cases "map_of (cached c) h")
  case None
  moreover hence "h \<notin> entries c" by (simp add: map_of_None_entries)
  ultimately show ?thesis using inv py_index_feature [OF r i]
    by (simp add: check_and_update_cache_def h_def [symmetric] Let_def)
next
  case (Some s)
  hence s: "h \<in> entries c" "s = refs_to c h" using map_of_Some_refs by blast+
  have acc: "ec_account sz c" and refs: "ec_refs F c" using inv by (simp_all add: ec_inv_def)
  define d where "d = (if s = {} then c\<lparr>freeable := AList.delete h (freeable c),
      num_freeable_slots := num_freeable_slots c - sz h\<rparr> else c)"
  have d: "(if s = {} then take_from_freeable h c else Inr c) = Inr d"
    using take_from_freeable_law [OF acc s(1)] s(2) by (simp add: d_def held_def)
  have same: "entries d = entries c" "refs_to d = refs_to c" "num_free_slots d = num_free_slots c"
    "cache_size d = cache_size c" "request_cached_ids d = request_cached_ids c" "freed d = freed c"
    by (auto simp: d_def entries_def refs_to_def)
  have "ec_account sz (add_reference (request_id r) i h d)"
  proof (cases "s = {}")
    case True
    thus ?thesis using adopt_entry_account [OF acc s(1)] s(2) by (simp add: d_def held_def)
  next
    case False
    hence "h \<in> held c" using s(2) by (simp add: held_def)
    thus ?thesis using False acc s(1) by (simp add: d_def ec_account_def enc_simps insert_absorb)
  qed
  moreover have "ec_refs F (add_reference (request_id r) i h d)"
    by (rule ec_refs_add_reference) (use refs same i in \<open>simp_all add: ec_refs_def h_def\<close>)
  moreover have "check_and_update_cache r i c = Inr (True, add_reference (request_id r) i h d)"
    unfolding check_and_update_cache_def py_index_feature [OF r i] bindE_Inr Let_def h_def [symmetric]
      Some option.case d by (rule refl)
  ultimately show ?thesis using s same by (simp add: ec_inv_def enc_simps insert_absorb)
qed

section \<open>Making room\<close>

definition without_oldest :: "encoder_cache \<Rightarrow> encoder_cache" where
  "without_oldest c =
     c\<lparr>freeable := tl (freeable c), cached := AList.delete (fst (hd (freeable c))) (cached c),
       freed := freed c @ [fst (hd (freeable c))], num_free_slots := num_free_slots c + snd (hd (freeable c))\<rparr>"

lemma without_oldest_fields [simp]:
  "cache_size (without_oldest c) = cache_size c"
  "num_freeable_slots (without_oldest c) = num_freeable_slots c"
  "request_cached_ids (without_oldest c) = request_cached_ids c"
  "freeable (without_oldest c) = tl (freeable c)"
  "freed (without_oldest c) = freed c @ [fst (hd (freeable c))]"
  "num_free_slots (without_oldest c) = num_free_slots c + snd (hd (freeable c))"
  by (simp_all add: without_oldest_def)

lemma without_oldest_law:
  assumes acc: "ec_account sz c" and sz: "sizes_ok F sz" and ne: "freeable c = (h, n) # rest"
  shows "map_of (cached c) h \<noteq> None" "ec_account sz (without_oldest c)"
    "refs_to (without_oldest c) = refs_to c" "entries (without_oldest c) = entries c - {h}"
proof -
  have h: "h \<in> entries c" "h \<notin> held c" "n = sz h" using acc ne by (auto simp: ec_account_def)
  show "map_of (cached c) h \<noteq> None" using h(1) map_of_None_entries by metis
  show refs: "refs_to (without_oldest c) = refs_to c"
    by (rule ext) (use h(2) ne in \<open>auto simp: without_oldest_def refs_to_def held_def\<close>)
  show ent: "entries (without_oldest c) = entries c - {h}"
    using ne by (auto simp: without_oldest_def entries_def delete_conv')
  have "fst ` set rest = entries c - {h} - held c"
  proof -
    have "insert h (fst ` set rest) = entries c - held c" "h \<notin> fst ` set rest"
      using acc ne by (auto simp: ec_account_def)
    thus ?thesis by blast
  qed
  moreover have "held (without_oldest c) = held c" by (simp add: held_def refs)
  moreover have "sum sz (entries c - {h}) = sum sz (entries c) - sz h"
    using h(1) by (simp add: sum_diff1)
  ultimately show "ec_account sz (without_oldest c)"
    using acc ne h sz by (simp add: ec_account_def ent sizes_ok_def)
qed

lemma evict_oldest_step:
  assumes "ec_account sz c" "sizes_ok F sz" "need > num_free_slots c" "need \<le> num_freeable_slots c"
  shows "freeable c \<noteq> [] \<and> evict_oldest need c = evict_oldest need (without_oldest c)"
proof -
  have "freeable c \<noteq> []"
  proof
    assume "freeable c = []"
    hence "entries c = held c" using assms(1) held_entries [of c] by (auto simp: ec_account_def)
    thus False using assms by (simp add: ec_account_def)
  qed
  then obtain h n rest where ne: "freeable c = (h, n) # rest" by (metis list.exhaust surj_pair)
  show ?thesis using assms(3) ne without_oldest_law(1) [OF assms(1,2) ne]
    by (subst evict_oldest.simps) (auto simp: without_oldest_def)
qed

lemma evict_oldest_law:
  assumes "ec_account sz c" "sizes_ok F sz" "need \<le> num_freeable_slots c"
  shows "\<exists>c' m. evict_oldest need c = Inr c' \<and> ec_account sz c' \<and> need \<le> num_free_slots c' \<and>
           refs_to c' = refs_to c \<and> request_cached_ids c' = request_cached_ids c \<and> cache_size c' = cache_size c \<and>
           m \<le> length (freeable c) \<and> freeable c' = drop m (freeable c) \<and>
           freed c' = freed c @ map fst (take m (freeable c)) \<and>
           entries c' = entries c - fst ` set (take m (freeable c)) \<and>
           (0 < m \<longrightarrow> num_free_slots c' - snd (freeable c ! (m - 1)) < need)"
  using assms
proof (induction "length (freeable c)" arbitrary: c rule: less_induct)
  case less
  show ?case
  proof (cases "need > num_free_slots c")
    case False
    thus ?thesis using less.prems by (intro exI [of _ c] exI [of _ 0]) (simp add: evict_oldest.simps)
  next
    case True
    note step = evict_oldest_step [OF less.prems(1,2) True less.prems(3)]
    then obtain h n rest where ne: "freeable c = (h, n) # rest" by (metis list.exhaust surj_pair)
    note law = without_oldest_law [OF less.prems(1,2) ne]
    have "length (freeable (without_oldest c)) < length (freeable c)" using ne by simp
    from less.hyps [OF this law(2) less.prems(2)] less.prems(3)
    obtain c' m where IH: "evict_oldest need (without_oldest c) = Inr c'" "ec_account sz c'" "need \<le> num_free_slots c'"
        "refs_to c' = refs_to (without_oldest c)" "request_cached_ids c' = request_cached_ids c" "cache_size c' = cache_size c"
        "m \<le> length rest" "freeable c' = drop m rest" "freed c' = freed (without_oldest c) @ map fst (take m rest)"
        "entries c' = entries (without_oldest c) - fst ` set (take m rest)"
        "0 < m \<longrightarrow> num_free_slots c' - snd (rest ! (m - 1)) < need"
      using ne by auto
    have last: "num_free_slots c' - snd (freeable c ! m) < need"
    proof (cases "m = 0")
      case True
      hence "num_free_slots c' = num_free_slots (without_oldest c)"
        using IH(2,6,10) law(2) by (simp add: ec_account_def)
      thus ?thesis using True ne \<open>need > num_free_slots c\<close> by simp
    next
      case False
      thus ?thesis using IH(11) ne by (cases m) auto
    qed
    show ?thesis
      by (intro exI [of _ c'] exI [of _ "Suc m"])
        (use IH(1-10) last ne law step in \<open>auto simp: nth_Cons'\<close>)
  qed
qed

lemma can_allocate_law:
  assumes inv: "ec_inv F sz c" and sz: "sizes_ok F sz" and r: "known F r" and i: "i < length (F (request_id r))"
  defines "n \<equiv> sz (mm_identifier (F (request_id r) ! i))"
  shows "\<exists>b c' m. can_allocate r i budget k c = Inr (b, c') \<and> ec_inv F sz c' \<and>
           (b \<longleftrightarrow> n \<le> budget \<and> n + k \<le> cache_size c - sum sz (held c)) \<and>
           (if b then n + k \<le> num_free_slots c' else c' = c) \<and>
           refs_to c' = refs_to c \<and> cache_size c' = cache_size c \<and> freeable c' = drop m (freeable c) \<and>
           freed c' = freed c @ map fst (take m (freeable c)) \<and>
           entries c' = entries c - fst ` set (take m (freeable c)) \<and>
           (0 < m \<longrightarrow> num_free_slots c' - snd (freeable c ! (m - 1)) < n + k)"
proof -
  note e = embeds_feature [OF r sz i, folded n_def]
  have acc: "ec_account sz c" using inv by (simp add: ec_inv_def)
  hence cap: "num_freeable_slots c = cache_size c - sum sz (held c)" by (simp add: ec_account_def)
  show ?thesis
  proof (cases "n \<le> budget \<and> \<not> n + k \<le> num_free_slots c \<and> n + k \<le> num_freeable_slots c")
    case False
    thus ?thesis using e inv cap free_le_freeable [OF acc sz]
      by (intro exI [of _ "n \<le> budget \<and> n + k \<le> num_freeable_slots c"] exI [of _ c] exI [of _ 0])
        (auto simp: can_allocate_def)
  next
    case True
    then obtain c' m where ev: "evict_oldest (n + k) c = Inr c'" "ec_account sz c'" "n + k \<le> num_free_slots c'"
        "refs_to c' = refs_to c" "request_cached_ids c' = request_cached_ids c" "cache_size c' = cache_size c"
        "freeable c' = drop m (freeable c)" "freed c' = freed c @ map fst (take m (freeable c))"
        "entries c' = entries c - fst ` set (take m (freeable c))"
        "0 < m \<longrightarrow> num_free_slots c' - snd (freeable c ! (m - 1)) < n + k"
      using evict_oldest_law [OF acc sz, of "n + k"] by blast
    have "ec_inv F sz c'" using inv ev(2,4,5) by (simp add: ec_inv_def ec_refs_def)
    moreover have "can_allocate r i budget k c = Inr (True, c')"
      using True e ev(1) by (simp add: can_allocate_def)
    ultimately show ?thesis using True cap ev
      by (intro exI [of _ True] exI [of _ c'] exI [of _ m]) simp
  qed
qed

section \<open>Allocating and releasing\<close>

lemma update_new: "k \<notin> fst ` set al \<Longrightarrow> AList.update k v al = al @ [(k, v)]"
  by (induction al) auto

lemma allocate_encoder_law:
  assumes inv: "ec_inv F sz c" and sz: "sizes_ok F sz" and r: "known F r" and i: "i < length (F (request_id r))"
    and h: "h = mm_identifier (F (request_id r) ! i)" and new: "h \<notin> entries c" and room: "sz h \<le> num_free_slots c"
  shows "\<exists>c'. allocate_encoder r i c = Inr c' \<and> ec_inv F sz c' \<and> entries c' = insert h (entries c) \<and>
           refs_to c' = (refs_to c)(h := {request_id r}) \<and> num_free_slots c' = num_free_slots c - sz h \<and>
           cache_size c' = cache_size c \<and> freed c' = freed c"
proof -
  define c1 where "c1 = c\<lparr>cached := AList.update h {} (cached c)\<rparr>"
  define c2 where "c2 = add_reference (request_id r) i h c1"
  define c3 where "c3 = c2\<lparr>num_free_slots := num_free_slots c2 - sz h, num_freeable_slots := num_freeable_slots c2 - sz h\<rparr>"
  have acc: "ec_account sz c" and refs: "ec_refs F c" using inv by (simp_all add: ec_inv_def)
  have "refs_to c h = {}" using new refs_entries by blast
  hence c1: "entries c1 = insert h (entries c)" "refs_to c1 = refs_to c" "held c1 = held c"
    by (auto simp: c1_def entries_def held_def refs_to_def update_conv' fun_eq_iff)
  have f1: "freeable c1 = freeable c" "num_free_slots c1 = num_free_slots c" "cache_size c1 = cache_size c"
    "num_freeable_slots c1 = num_freeable_slots c" "request_cached_ids c1 = request_cached_ids c" "freed c1 = freed c"
    by (simp_all add: c1_def)
  have out: "h \<notin> held c" using new held_entries by blast
  have "allocate_encoder r i c = Inr c3"
    using py_index_feature [OF r i] embeds_feature [OF r sz i] new room free_le_freeable [OF acc sz]
    by (simp add: allocate_encoder_def h [symmetric] map_of_None_entries c3_def c2_def c1_def Let_def)
  moreover have "ec_account sz c3"
    using acc new out room c1 f1 by (auto simp: c3_def c2_def ec_account_def enc_simps)
  moreover have "ec_refs F c3"
  proof -
    have "ec_refs F c1" using refs c1(2) f1(5) by (simp add: ec_refs_def)
    hence "ec_refs F c2" unfolding c2_def by (rule ec_refs_add_reference) (use i h in simp_all)
    thus ?thesis by (simp add: ec_refs_def c3_def)
  qed
  ultimately show ?thesis using c1 f1 \<open>refs_to c h = {}\<close>
    by (simp add: ec_inv_def c3_def c2_def enc_simps)
qed

lemma drop_input_id_fields [simp]:
  "cached (drop_input_id rid i c) = cached c" "cache_size (drop_input_id rid i c) = cache_size c"
  "num_free_slots (drop_input_id rid i c) = num_free_slots c"
  "num_freeable_slots (drop_input_id rid i c) = num_freeable_slots c"
  "freeable (drop_input_id rid i c) = freeable c" "freed (drop_input_id rid i c) = freed c"
  by (simp_all add: drop_input_id_def split: option.split)

lemma ids_drop_input_id:
  "set_at (request_cached_ids (drop_input_id rid i c)) =
     (set_at (request_cached_ids c))(rid := set_at (request_cached_ids c) rid - {i})"
  by (rule ext) (auto simp: drop_input_id_def set_at_def delete_conv' update_conv' split: option.splits)

lemma release_account:
  assumes acc: "ec_account sz c" and sz: "sizes_ok F sz" and h: "refs_to c h = {rid}"
  shows "ec_account sz (c\<lparr>cached := AList.update h {} (cached c), freeable := AList.update h (sz h) (freeable c),
           num_freeable_slots := num_freeable_slots c + sz h\<rparr>)" (is "ec_account sz ?d")
proof -
  have hh: "h \<in> held c" "h \<in> entries c" using h held_entries by (auto simp: held_def)
  have ent: "entries ?d = entries c" using hh by (auto simp: entries_def update_conv')
  have hld: "held ?d = held c - {h}" by (auto simp: held_def refs_to_def)
  have "h \<notin> fst ` set (freeable c)" using acc hh by (simp add: ec_account_def)
  hence fr: "AList.update h (sz h) (freeable c) = freeable c @ [(h, sz h)]" by (rule update_new)
  have "fst ` set (freeable ?d) = entries c - (held c - {h})"
    using acc hh by (auto simp: fr ec_account_def)
  moreover have "sum sz (held c - {h}) = sum sz (held c) - sz h" using hh(1) by (simp add: sum_diff1)
  ultimately show ?thesis using acc \<open>h \<notin> fst ` set (freeable c)\<close>
    unfolding ec_account_def ent hld by (auto simp: fr)
qed

lemma ec_refs_release:
  assumes refs: "ec_refs F c" and drefs: "refs_to d = (refs_to c)(h := refs_to c h - {rid})"
    and ids: "set_at (request_cached_ids d) = (set_at (request_cached_ids c))(rid := set_at (request_cached_ids c) rid - {i})"
    and h: "mm_identifier (F rid ! i) = h"
  shows "ec_refs F d"
  unfolding ec_refs_def
proof (intro allI conjI ballI impI)
  fix q
  show "finite (set_at (request_cached_ids d) q)" using refs by (simp add: ids ec_refs_def)
  show "j < length (F q)" if "j \<in> set_at (request_cached_ids d) q" for j
    using that refs by (auto simp: ids ec_refs_def split: if_splits)
  show "\<exists>j \<in> set_at (request_cached_ids d) q. mm_identifier (F q ! j) = k" if "q \<in> refs_to d k" for k
  proof -
    have q: "q \<in> refs_to c k" "q = rid \<longrightarrow> k \<noteq> h" using that by (auto simp: drefs split: if_splits)
    then obtain j where j: "j \<in> set_at (request_cached_ids c) q" "mm_identifier (F q ! j) = k"
      using refs unfolding ec_refs_def by blast
    hence "j \<in> set_at (request_cached_ids d) q" using q(2) h by (auto simp: ids)
    thus ?thesis using j(2) by blast
  qed
qed

lemma free_encoder_input_law:
  assumes inv: "ec_inv F sz c" and sz: "sizes_ok F sz" and r: "known F r" and i: "i < length (F (request_id r))"
    and h: "h = mm_identifier (F (request_id r) ! i)"
  shows "\<exists>c'. free_encoder_input r i c = Inr c' \<and> ec_inv F sz c' \<and> entries c' = entries c \<and>
           refs_to c' = (refs_to c)(h := refs_to c h - {request_id r}) \<and>
           set_at (request_cached_ids c') = (set_at (request_cached_ids c))
             (request_id r := set_at (request_cached_ids c) (request_id r) - {i}) \<and>
           num_free_slots c' = num_free_slots c \<and> cache_size c' = cache_size c \<and> freed c' = freed c"
proof -
  let ?rid = "request_id r"
  define c1 where "c1 = drop_input_id ?rid i c"
  define c2 where "c2 = c1\<lparr>cached := AList.update h (refs_to c h - {?rid}) (cached c1)\<rparr>"
  define c3 where "c3 = c2\<lparr>freeable := AList.update h (sz h) (freeable c2), num_freeable_slots := num_freeable_slots c2 + sz h\<rparr>"
  have acc: "ec_account sz c" and refs: "ec_refs F c" using inv by (simp_all add: ec_inv_def)
  have c1: "entries c1 = entries c" "refs_to c1 = refs_to c" "held c1 = held c"
    by (simp_all add: c1_def entries_def held_def refs_to_def fun_eq_iff)
  define d where "d = (if refs_to c h = {} then c1 else if refs_to c h - {?rid} \<noteq> {} then c2 else c3)"
  have run: "free_encoder_input r i c = Inr d"
    using py_index_feature [OF r i] embeds_feature [OF r sz i]
    by (simp add: free_encoder_input_def h [symmetric] d_def c3_def c2_def c1_def Let_def refs_to_def)
  have drefs: "refs_to d = (refs_to c)(h := refs_to c h - {?rid})"
    by (rule ext) (auto simp: d_def c1 c2_def c3_def refs_to_def c1_def)
  have dents: "entries d = entries c"
    using refs_entries [of _ c h] by (auto simp: d_def c1 c2_def c3_def entries_def update_conv' c1_def)
  have dids: "request_cached_ids d = request_cached_ids c1" by (simp add: d_def c2_def c3_def)
  have dfld: "num_free_slots d = num_free_slots c" "cache_size d = cache_size c" "freed d = freed c"
    by (simp_all add: d_def c1_def c2_def c3_def)
  have ids: "set_at (request_cached_ids d) = (set_at (request_cached_ids c))(?rid := set_at (request_cached_ids c) ?rid - {i})"
    by (simp add: dids c1_def ids_drop_input_id)
  have "ec_refs F d" using refs ec_refs_release [OF refs drefs ids] h by blast
  moreover have "ec_account sz d"
  proof (cases "refs_to c h - {?rid} = {} \<and> refs_to c h \<noteq> {}")
    case True
    hence "refs_to c h = {?rid}" by blast
    moreover hence "ec_account sz c1" "refs_to c1 h = {?rid}" using acc c1 by (simp_all add: ec_account_def c1_def)
    ultimately show ?thesis using release_account [OF _ sz, of c1 h ?rid]
      by (simp add: d_def c3_def c2_def)
  next
    case False
    hence "held d = held c" by (auto simp: held_def drefs)
    moreover have "freeable d = freeable c" "num_freeable_slots d = num_freeable_slots c"
      using False by (auto simp: d_def c1_def c2_def)
    ultimately show ?thesis using acc by (simp add: ec_account_def dents dfld)
  qed
  ultimately show ?thesis using run drefs dents ids dfld by (simp add: ec_inv_def)
qed

definition enumerates :: "(nat set \<Rightarrow> nat list) \<Rightarrow> bool" where
  "enumerates list_of \<longleftrightarrow> (\<forall>S. finite S \<longrightarrow> set (list_of S) = S)"

lemma free_inputs_law:
  assumes "ec_inv F sz c" and sz: "sizes_ok F sz" and r: "known F r" and "\<forall>i \<in> set js. i < length (F (request_id r))"
  shows "\<exists>c'. foldE (free_encoder_input r) js c = Inr c' \<and> ec_inv F sz c' \<and> entries c' = entries c \<and>
           (\<forall>h. refs_to c' h = (if h \<in> (\<lambda>i. mm_identifier (F (request_id r) ! i)) ` set js
                                then refs_to c h - {request_id r} else refs_to c h)) \<and>
           num_free_slots c' = num_free_slots c \<and> cache_size c' = cache_size c \<and> freed c' = freed c"
  using assms(1,4)
proof (induction js arbitrary: c)
  case Nil
  thus ?case by simp
next
  case (Cons i js)
  obtain d where d: "free_encoder_input r i c = Inr d" "ec_inv F sz d" "entries d = entries c"
      "refs_to d = (refs_to c)(mm_identifier (F (request_id r) ! i) := refs_to c (mm_identifier (F (request_id r) ! i)) - {request_id r})"
      "num_free_slots d = num_free_slots c" "cache_size d = cache_size c" "freed d = freed c"
    using free_encoder_input_law [OF Cons.prems(1) sz r _ refl, of i] Cons.prems(2) by auto
  obtain c' where c': "foldE (free_encoder_input r) js d = Inr c'" "ec_inv F sz c'" "entries c' = entries d"
      "\<forall>h. refs_to c' h = (if h \<in> (\<lambda>i. mm_identifier (F (request_id r) ! i)) ` set js
                           then refs_to d h - {request_id r} else refs_to d h)"
      "num_free_slots c' = num_free_slots d" "cache_size c' = cache_size d" "freed c' = freed d"
    using Cons.IH [OF d(2)] Cons.prems(2) by auto
  show ?case using d c' by (intro exI [of _ c']) auto
qed

lemma encoder_free_law:
  assumes inv: "ec_inv F sz c" and sz: "sizes_ok F sz" and r: "known F r" and l: "enumerates list_of"
  shows "\<exists>c'. encoder_free list_of r c = Inr c' \<and> ec_inv F sz c' \<and> entries c' = entries c \<and>
           (\<forall>h. refs_to c' h = refs_to c h - {request_id r}) \<and>
           num_free_slots c' = num_free_slots c \<and> cache_size c' = cache_size c \<and> freed c' = freed c"
proof -
  let ?ids = "set_at (request_cached_ids c) (request_id r)"
  have refs: "ec_refs F c" using inv by (simp add: ec_inv_def)
  hence js: "set (list_of ?ids) = ?ids" "\<forall>i \<in> ?ids. i < length (F (request_id r))"
    using l by (simp_all add: enumerates_def ec_refs_def)
  have "request_id r \<in> refs_to c h \<Longrightarrow> h \<in> (\<lambda>i. mm_identifier (F (request_id r) ! i)) ` ?ids" for h
    using refs unfolding ec_refs_def by blast
  thus ?thesis using free_inputs_law [OF inv sz r, of "list_of ?ids"] js
    by (auto simp: encoder_free_def get_cached_input_ids_def)
qed

end
