(* ===== verification/Encoder_Schedule.thy ===== *)
theory Encoder_Schedule
  imports Encoder_Correct
begin

text \<open>
  Scheduling of encoder inputs: the search for the multi-modal items that overlap a window of tokens
  (\<^verbatim>\<open>vllm/multimodal/utils.py\<close>), the choice of the encoder inputs of a step and the release of
  processed ones (\<^verbatim>\<open>vllm/v1/core/sched/scheduler.py\<close>), and the reads of the encoder cache that the
  worker makes for the scheduled tokens (\<^verbatim>\<open>vllm/v1/worker/gpu_model_runner.py\<close>). The encoder-cache
  connector is code of a plug-in: the question whether it holds an item is a parameter.
\<close>

section \<open>Items in a window\<close>

text \<open>\<^verbatim>\<open>bisect.bisect_left\<close> with a key, for bounds inside the list.\<close>

function bisect_loop :: "('a \<Rightarrow> int) \<Rightarrow> 'a list \<Rightarrow> int \<Rightarrow> nat \<Rightarrow> nat \<Rightarrow> nat" where
  "bisect_loop key a x lo hi =
     (if lo < hi
      then let mid = (lo + hi) div 2
           in if key (a ! mid) < x then bisect_loop key a x (mid + 1) hi else bisect_loop key a x lo mid
      else lo)"
  by pat_completeness auto
termination
  by (relation "measure (\<lambda>(key, a, x, lo, hi). hi - lo)") auto

declare bisect_loop.simps [simp del]

definition bisect_left :: "('a \<Rightarrow> int) \<Rightarrow> 'a list \<Rightarrow> int \<Rightarrow> nat" where
  "bisect_left key a x = bisect_loop key a x 0 (length a)"

definition get_mm_features_in_window :: "mm_feature list \<Rightarrow> int \<Rightarrow> int \<Rightarrow> nat \<times> nat" where
  "get_mm_features_in_window fs start stop =
     (bisect_left (\<lambda>f. mm_offset (mm_position f) + mm_length (mm_position f)) fs (start + 1),
      bisect_left (\<lambda>f. mm_offset (mm_position f)) fs stop)"

section \<open>The cache manager of the scheduler\<close>

datatype enc_manager = Mm encoder_cache | Ed encdec_cache

definition new_enc_manager :: "bool \<Rightarrow> int \<Rightarrow> enc_manager" where
  "new_enc_manager is_encoder_decoder n =
     (if is_encoder_decoder then Ed (new_encdec_cache n) else Mm (new_encoder_cache n))"

text \<open>The calls dispatch on the class of the manager.\<close>

fun mgr_check :: "request \<Rightarrow> nat \<Rightarrow> enc_manager \<Rightarrow> (bool \<times> enc_manager) res" where
  "mgr_check r i (Mm c) = bindE (check_and_update_cache r i c) (\<lambda>(b, c'). Inr (b, Mm c'))"
| "mgr_check r i (Ed c) = bindE (encdec_check_and_update_cache r i c) (\<lambda>(b, c'). Inr (b, Ed c'))"

fun mgr_can_allocate :: "request \<Rightarrow> nat \<Rightarrow> int \<Rightarrow> int \<Rightarrow> enc_manager \<Rightarrow> (bool \<times> enc_manager) res" where
  "mgr_can_allocate r i budget k (Mm c) = bindE (can_allocate r i budget k c) (\<lambda>(b, c'). Inr (b, Mm c'))"
| "mgr_can_allocate r i budget k (Ed c) = bindE (encdec_can_allocate r i budget k c) (\<lambda>(b, c'). Inr (b, Ed c'))"

fun mgr_allocate :: "request \<Rightarrow> nat \<Rightarrow> enc_manager \<Rightarrow> enc_manager res" where
  "mgr_allocate r i (Mm c) = bindE (allocate_encoder r i c) (\<lambda>c'. Inr (Mm c'))"
| "mgr_allocate r i (Ed c) = bindE (encdec_allocate r i c) (\<lambda>c'. Inr (Ed c'))"

fun mgr_free_encoder_input :: "request \<Rightarrow> nat \<Rightarrow> enc_manager \<Rightarrow> enc_manager res" where
  "mgr_free_encoder_input r i (Mm c) = bindE (free_encoder_input r i c) (\<lambda>c'. Inr (Mm c'))"
| "mgr_free_encoder_input r i (Ed c) = bindE (encdec_free_encoder_input r i c) (\<lambda>c'. Inr (Ed c'))"

fun mgr_free :: "(nat set \<Rightarrow> nat list) \<Rightarrow> request \<Rightarrow> enc_manager \<Rightarrow> enc_manager res" where
  "mgr_free list_of r (Mm c) = bindE (encoder_free list_of r c) (\<lambda>c'. Inr (Mm c'))"
| "mgr_free list_of r (Ed c) = bindE (encdec_free r c) (\<lambda>c'. Inr (Ed c'))"

fun mgr_cached_input_ids :: "request \<Rightarrow> enc_manager \<Rightarrow> nat set" where
  "mgr_cached_input_ids r (Mm c) = get_cached_input_ids r c"
| "mgr_cached_input_ids r (Ed c) = encdec_get_cached_input_ids r c"

section \<open>Choosing the encoder inputs of a step\<close>

record enc_env =
  is_encoder_decoder :: bool
  env_scheduler_config :: mm_scheduler_config
  ec_connector :: "(string \<Rightarrow> bool) option"

record enc_plan =
  encoder_inputs_to_schedule :: "nat list"
  external_load_encoder_input :: "nat list"
  mm_hashes_to_schedule :: "string set"
  num_embeds_to_schedule :: int
  plan_new_tokens :: int
  plan_budget :: int
  plan_manager :: enc_manager

definition plan_item :: "enc_env \<Rightarrow> nat \<Rightarrow> mm_feature \<Rightarrow> enc_plan \<Rightarrow> enc_plan" where
  "plan_item env i f s =
     (let n = get_num_embeds (mm_position f);
          s1 = s\<lparr>mm_hashes_to_schedule := insert (mm_identifier f) (mm_hashes_to_schedule s),
                 num_embeds_to_schedule := num_embeds_to_schedule s + n\<rparr>
      in if (case ec_connector env of None \<Rightarrow> False | Some has_cache_item \<Rightarrow> has_cache_item (mm_identifier f))
         then s1\<lparr>external_load_encoder_input := external_load_encoder_input s @ [i]\<rparr>
         else s1\<lparr>plan_budget := plan_budget s - n,
                 encoder_inputs_to_schedule := encoder_inputs_to_schedule s @ [i]\<rparr>)"

text \<open>One round of the loop. The flag says that the loop breaks.\<close>

definition schedule_item ::
  "enc_env \<Rightarrow> request \<Rightarrow> int \<Rightarrow> int \<Rightarrow> nat \<Rightarrow> enc_plan \<Rightarrow> (bool \<times> enc_plan) res" where
  "schedule_item env r num_computed shift i s =
     bindE (py_index (mm_features r) (int i)) (\<lambda>f.
       let start_pos = mm_offset (mm_position f); num_encoder_tokens = mm_length (mm_position f)
       in if is_encoder_decoder env \<and> num_computed > 0
          then bindE (guardE (start_pos = 0) AssertionError) (\<lambda>_. Inr (False, s))
          else bindE (if is_encoder_decoder env then Inr (False, plan_manager s)
                      else if mm_identifier f \<in> mm_hashes_to_schedule s then Inr (True, plan_manager s)
                      else mgr_check r i (plan_manager s)) (\<lambda>(skip, m).
            let s1 = s\<lparr>plan_manager := m\<rparr>; num_new = plan_new_tokens s
            in if skip then Inr (False, s1)
               else if disable_chunked_mm_input (env_scheduler_config env) \<and> num_computed < start_pos \<and>
                       num_computed + num_new < start_pos + num_encoder_tokens
               then Inr (True, s1\<lparr>plan_new_tokens := max 0 (start_pos - (num_computed + shift))\<rparr>)
               else bindE (mgr_can_allocate r i (plan_budget s) (num_embeds_to_schedule s) m) (\<lambda>(ok, m2).
                 let s2 = s1\<lparr>plan_manager := m2\<rparr>
                 in if \<not> ok
                    then Inr (True, s2\<lparr>plan_new_tokens :=
                           if num_computed + shift < start_pos then start_pos - (num_computed + shift) else 0\<rparr>)
                    else bindE (get_embeds_indices_in_range (mm_position f) (max 0 (num_computed - start_pos))
                                  (min num_encoder_tokens (num_computed + num_new - start_pos))) (\<lambda>(a, b).
                      if b - a = 0 then Inr (False, s2) else Inr (False, plan_item env i f s2)))))"

fun schedule_loop :: "enc_env \<Rightarrow> request \<Rightarrow> int \<Rightarrow> int \<Rightarrow> nat list \<Rightarrow> enc_plan \<Rightarrow> enc_plan res" where
  "schedule_loop env r num_computed shift [] s = Inr s"
| "schedule_loop env r num_computed shift (i # js) s =
     bindE (schedule_item env r num_computed shift i s) (\<lambda>(stop, s').
       if stop then Inr s' else schedule_loop env r num_computed shift js s')"

definition has_encoder_inputs :: "request \<Rightarrow> bool" where
  "has_encoder_inputs r \<longleftrightarrow> length (mm_features r) > 0"

definition empty_plan :: "int \<Rightarrow> int \<Rightarrow> enc_manager \<Rightarrow> enc_plan" where
  "empty_plan num_new budget m =
     \<lparr>encoder_inputs_to_schedule = [], external_load_encoder_input = [], mm_hashes_to_schedule = {},
      num_embeds_to_schedule = 0, plan_new_tokens = num_new, plan_budget = budget, plan_manager = m\<rparr>"

definition try_schedule_encoder_inputs ::
  "enc_env \<Rightarrow> request \<Rightarrow> int \<Rightarrow> int \<Rightarrow> int \<Rightarrow> int \<Rightarrow> enc_manager \<Rightarrow> enc_plan res" where
  "try_schedule_encoder_inputs env r num_computed num_new budget shift m =
     (if num_new = 0 \<or> \<not> has_encoder_inputs r then Inr (empty_plan num_new budget m)
      else bindE (guardE (length (mm_features r) > 0) AssertionError) (\<lambda>_.
        let (lo0, hi) = get_mm_features_in_window (mm_features r) num_computed (num_computed + num_new + shift);
            lo = (if is_encoder_decoder env then 0 else lo0)
        in schedule_loop env r num_computed shift [lo..<hi] (empty_plan num_new budget m)))"

text \<open>The allocations the scheduler makes once the request has its KV blocks.\<close>

definition allocate_planned :: "request \<Rightarrow> enc_plan \<Rightarrow> enc_manager \<Rightarrow> enc_manager res" where
  "allocate_planned r pl m =
     bindE (foldE (mgr_allocate r) (encoder_inputs_to_schedule pl) m)
       (foldE (mgr_allocate r) (external_load_encoder_input pl))"

section \<open>Releasing processed inputs\<close>

definition free_if_processed :: "enc_env \<Rightarrow> request \<Rightarrow> nat \<Rightarrow> enc_manager \<Rightarrow> enc_manager res" where
  "free_if_processed env r i m =
     bindE (py_index (mm_features r) (int i)) (\<lambda>f.
       if is_encoder_decoder env \<and> num_computed_tokens r > 0 then mgr_free_encoder_input r i m
       else if mm_offset (mm_position f) + mm_length (mm_position f) \<le> num_computed_tokens r
       then mgr_free_encoder_input r i m
       else Inr m)"

definition free_encoder_inputs ::
  "enc_env \<Rightarrow> (nat set \<Rightarrow> nat list) \<Rightarrow> request \<Rightarrow> enc_manager \<Rightarrow> enc_manager res" where
  "free_encoder_inputs env list_of r m =
     (let ids = mgr_cached_input_ids r m
      in if ids = {} then Inr m else foldE (free_if_processed env r) (list_of ids) m)"

section \<open>The reads of the worker\<close>

text \<open>
  The items the worker reads for the scheduled tokens of one request. The encoder cache of the worker
  is the set of hashes it holds an output for.
\<close>

definition gather_item :: "mm_feature list \<Rightarrow> int \<Rightarrow> int \<Rightarrow> string set \<Rightarrow> nat \<Rightarrow> string list \<Rightarrow> string list res" where
  "gather_item fs num_computed num_scheduled encoder_outputs i acc =
     bindE (py_index fs (int i)) (\<lambda>f.
       let start_pos = mm_offset (mm_position f);
           start_idx = max (num_computed - start_pos) 0;
           end_idx = min (num_computed - start_pos + num_scheduled) (mm_length (mm_position f))
       in bindE (guardE (start_idx < end_idx) AssertionError) (\<lambda>_.
          bindE (get_embeds_indices_in_range (mm_position f) start_idx end_idx) (\<lambda>(a, b).
            if a = b then Inr acc
            else bindE (guardE (mm_identifier f \<in> encoder_outputs) AssertionError) (\<lambda>_.
              Inr (acc @ [mm_identifier f])))))"

definition gather_mm_embeddings ::
  "mm_feature list \<Rightarrow> int \<Rightarrow> int \<Rightarrow> int \<Rightarrow> string set \<Rightarrow> string list res" where
  "gather_mm_embeddings fs num_computed num_scheduled shift encoder_outputs =
     (let n = num_computed + shift; (lo, hi) = get_mm_features_in_window fs n (n + num_scheduled)
      in foldE (gather_item fs n num_scheduled encoder_outputs) [lo..<hi] [])"

end
