(* ===== verification/Encoder_Plan.thy ===== *)
theory Encoder_Plan
  imports Encoder_Schedule
begin

text \<open>
  Correctness of the encoder scheduling: the window search finds exactly the overlapping items, the
  choice of inputs never raises and the allocations it announces always succeed, and the worker finds
  every encoder output it reads. Items are placed in order and do not overlap, and the mask of an item
  has the length of its placeholder.
\<close>

section \<open>The window search\<close>

definition f_start :: "mm_feature \<Rightarrow> int" where
  "f_start f = mm_offset (mm_position f)"

definition f_end :: "mm_feature \<Rightarrow> int" where
  "f_end f = mm_offset (mm_position f) + mm_length (mm_position f)"

definition feature_wf :: "mm_feature \<Rightarrow> bool" where
  "feature_wf f \<longleftrightarrow> f_start f < f_end f \<and>
     (case is_embed (mm_position f) of None \<Rightarrow> True | Some bm \<Rightarrow> int (length bm) = mm_length (mm_position f))"

definition features_wf :: "mm_feature list \<Rightarrow> bool" where
  "features_wf fs \<longleftrightarrow> (\<forall>f \<in> set fs. feature_wf f) \<and>
     (\<forall>j < length fs. \<forall>i < j. f_end (fs ! i) \<le> f_start (fs ! j))"

lemma bisect_loop_law:
  assumes "sorted (map key a)" "lo \<le> hi" "hi \<le> length a"
    and "\<forall>j < lo. key (a ! j) < x" "\<forall>j. hi \<le> j \<and> j < length a \<longrightarrow> x \<le> key (a ! j)"
  shows "bisect_loop key a x lo hi \<le> length a \<and> (\<forall>j < bisect_loop key a x lo hi. key (a ! j) < x) \<and>
         (\<forall>j. bisect_loop key a x lo hi \<le> j \<and> j < length a \<longrightarrow> x \<le> key (a ! j))"
  using assms
proof (induction key a x lo hi rule: bisect_loop.induct)
  case (1 key a x lo hi)
  show ?case
  proof (cases "lo < hi")
    case False
    hence "bisect_loop key a x lo hi = lo" by (simp add: bisect_loop.simps [of key a x lo hi])
    moreover have "lo = hi" using False 1(4) by simp
    ultimately show ?thesis using 1(5-7) by simp
  next
    case True
    define mid where "mid = (lo + hi) div 2"
    have mid: "lo \<le> mid" "mid < hi" using True by (auto simp: mid_def)
    have mono: "key (a ! i) \<le> key (a ! j)" if "i \<le> j" "j < length a" for i j
      using sorted_nth_mono [OF 1(3), of i j] that by simp
    show ?thesis
    proof (cases "key (a ! mid) < x")
      case less: True
      have below: "\<forall>j < mid + 1. key (a ! j) < x"
      proof (intro allI impI)
        fix j assume "j < mid + 1"
        hence "key (a ! j) \<le> key (a ! mid)" using mono [of j mid] mid 1(5) by simp
        thus "key (a ! j) < x" using less by simp
      qed
      have step: "bisect_loop key a x lo hi = bisect_loop key a x (mid + 1) hi"
        using True less by (simp add: bisect_loop.simps [of key a x lo hi] mid_def)
      show ?thesis unfolding step
        by (rule 1(1) [OF True mid_def less 1(3) _ 1(5) below 1(7)]) (use mid in simp)
    next
      case ge: False
      have above: "\<forall>j. mid \<le> j \<and> j < length a \<longrightarrow> x \<le> key (a ! j)"
      proof (intro allI impI)
        fix j assume "mid \<le> j \<and> j < length a"
        hence "key (a ! mid) \<le> key (a ! j)" using mono by simp
        thus "x \<le> key (a ! j)" using ge by simp
      qed
      have step: "bisect_loop key a x lo hi = bisect_loop key a x lo mid"
        using True ge by (simp add: bisect_loop.simps [of key a x lo hi] mid_def)
      show ?thesis unfolding step
        by (rule 1(2) [OF True mid_def ge 1(3) mid(1) _ 1(6) above]) (use mid 1(5) in simp)
    qed
  qed
qed

lemma bisect_left_law:
  assumes "sorted (map key a)" "j < length a"
  shows "j < bisect_left key a x \<longleftrightarrow> key (a ! j) < x"
proof -
  have "(\<forall>j < bisect_left key a x. key (a ! j) < x) \<and>
        (\<forall>j. bisect_left key a x \<le> j \<and> j < length a \<longrightarrow> x \<le> key (a ! j))"
    using bisect_loop_law [OF assms(1), of 0 "length a" x] by (simp add: bisect_left_def)
  thus ?thesis using assms(2) by (metis not_less)
qed

lemma bisect_left_le: "sorted (map key a) \<Longrightarrow> bisect_left key a x \<le> length a"
  using bisect_loop_law [of key a 0 "length a" x] by (simp add: bisect_left_def)

lemma features_sorted:
  assumes "features_wf fs"
  shows "sorted (map f_start fs)" "sorted (map f_end fs)"
proof -
  have lt: "f_start (fs ! j) < f_end (fs ! j)" if "j < length fs" for j
    using assms nth_mem [OF that] by (auto simp: features_wf_def feature_wf_def)
  have "f_start (fs ! i) \<le> f_start (fs ! j) \<and> f_end (fs ! i) \<le> f_end (fs ! j)" if "i \<le> j" "j < length fs" for i j
  proof (cases "i = j")
    case False
    hence "f_end (fs ! i) \<le> f_start (fs ! j)" using assms that by (simp add: features_wf_def)
    thus ?thesis using lt [of i] lt [of j] that by simp
  qed simp
  thus "sorted (map f_start fs)" "sorted (map f_end fs)" by (simp_all add: sorted_iff_nth_mono)
qed

lemma window_law:
  assumes wf: "features_wf fs" and w: "get_mm_features_in_window fs a b = (lo, hi)"
  shows "hi \<le> length fs"
    "i < length fs \<Longrightarrow> i \<in> set [lo..<hi] \<longleftrightarrow> a < f_end (fs ! i) \<and> f_start (fs ! i) < b"
proof -
  have keys: "(\<lambda>f. mm_offset (mm_position f) + mm_length (mm_position f)) = f_end" "(\<lambda>f. mm_offset (mm_position f)) = f_start"
    by (simp_all add: f_end_def f_start_def fun_eq_iff)
  have lo: "lo = bisect_left f_end fs (a + 1)" and hi: "hi = bisect_left f_start fs b"
    using w by (simp_all add: get_mm_features_in_window_def keys)
  show "hi \<le> length fs" unfolding hi by (rule bisect_left_le [OF features_sorted(1) [OF wf]])
  assume i: "i < length fs"
  have "i < hi \<longleftrightarrow> f_start (fs ! i) < b" unfolding hi by (rule bisect_left_law [OF features_sorted(1) [OF wf] i])
  moreover have "i < lo \<longleftrightarrow> f_end (fs ! i) < a + 1" unfolding lo by (rule bisect_left_law [OF features_sorted(2) [OF wf] i])
  ultimately show "i \<in> set [lo..<hi] \<longleftrightarrow> a < f_end (fs ! i) \<and> f_start (fs ! i) < b" by auto
qed

section \<open>Embeddings in a range\<close>

text \<open>Position \<open>p\<close> of the sequence is filled with an embedding of the item.\<close>

definition embed_at :: "mm_feature \<Rightarrow> int \<Rightarrow> bool" where
  "embed_at f p \<longleftrightarrow> f_start f \<le> p \<and> p < f_end f \<and>
     (case is_embed (mm_position f) of None \<Rightarrow> True | Some bm \<Rightarrow> bm ! nat (p - f_start f))"

lemma count_prefix_eq:
  assumes "a \<le> b" "b \<le> length bm" "length (filter id (take a bm)) = length (filter id (take b bm))"
    and "a \<le> j" "j < b"
  shows "\<not> bm ! j"
proof
  assume "bm ! j"
  have "take b bm = take a bm @ take (b - a) (drop a bm)" using assms(1) by (metis le_add_diff_inverse take_add)
  hence "filter id (take (b - a) (drop a bm)) = []" using assms(3) by (simp add: filter_append)
  moreover have "take (b - a) (drop a bm) ! (j - a)" "j - a < length (take (b - a) (drop a bm))"
    using assms \<open>bm ! j\<close> by simp_all
  ultimately show False using nth_mem [of "j - a" "take (b - a) (drop a bm)"]
    unfolding filter_empty_conv id_apply by blast
qed

lemma embeds_range_total:
  assumes wf: "feature_wf f" and a: "0 \<le> a" "a \<le> mm_length (mm_position f)"
    and b: "b \<le> mm_length (mm_position f)"
  shows "\<exists>s e. get_embeds_indices_in_range (mm_position f) a b = Inr (s, e) \<and>
           (e - s = 0 \<longrightarrow> (\<forall>p. f_start f + a \<le> p \<and> p < f_start f + b \<longrightarrow> \<not> embed_at f p))"
proof (cases "is_embed (mm_position f)")
  case None
  thus ?thesis by (auto simp: get_embeds_indices_in_range_def embeds_cumsum_def)
next
  case (Some bm)
  hence len: "int (length bm) = mm_length (mm_position f)" using wf by (simp add: feature_wf_def)
  define b' where "b' = max b 0"
  have "(if b > 0 then py_index (cumsum 0 bm) (b - 1) else Inr 0) =
        (if b' > 0 then py_index (cumsum 0 bm) (b' - 1) else Inr 0)" by (simp add: b'_def max_def)
  also have "\<dots> = Inr (int (length (filter id (take (nat b') bm))))"
    by (rule cumsum_prefix) (use b len in \<open>simp_all add: b'_def\<close>)
  finally have e: "(if b > 0 then py_index (cumsum 0 bm) (b - 1) else Inr 0) = Inr (int (length (filter id (take (nat b') bm))))" .
  have run: "get_embeds_indices_in_range (mm_position f) a b =
      Inr (int (length (filter id (take (nat a) bm))), int (length (filter id (take (nat b') bm))))"
    using cumsum_prefix [of a bm] a len Some e
    by (simp only: get_embeds_indices_in_range_def embeds_cumsum_def option.map option.case bindE_Inr)
  have "\<not> embed_at f p" if eq: "length (filter id (take (nat a) bm)) = length (filter id (take (nat b') bm))"
    and p: "f_start f + a \<le> p" "p < f_start f + b" for p
    using count_prefix_eq [OF _ _ eq, of "nat (p - f_start f)"] p a b len Some
    by (auto simp: embed_at_def b'_def nat_le_iff)
  thus ?thesis using run by auto
qed

lemma embeds_in_window:
  assumes wf: "feature_wf f" and win: "nc < f_end f" and n: "0 \<le> n"
  shows "\<exists>a e. get_embeds_indices_in_range (mm_position f) (max 0 (nc - mm_offset (mm_position f)))
           (min (mm_length (mm_position f)) (nc + n - mm_offset (mm_position f))) = Inr (a, e) \<and>
           (e - a = 0 \<longrightarrow> (\<forall>p. nc \<le> p \<and> p < nc + n \<longrightarrow> \<not> embed_at f p))"
proof -
  let ?a = "max 0 (nc - mm_offset (mm_position f))"
    and ?b = "min (mm_length (mm_position f)) (nc + n - mm_offset (mm_position f))"
  have "?a \<le> mm_length (mm_position f)" using wf win by (auto simp: feature_wf_def f_start_def f_end_def)
  then obtain a e where ae: "get_embeds_indices_in_range (mm_position f) ?a ?b = Inr (a, e)"
      "e - a = 0 \<longrightarrow> (\<forall>p. f_start f + ?a \<le> p \<and> p < f_start f + ?b \<longrightarrow> \<not> embed_at f p)"
    using embeds_range_total [OF wf, of ?a ?b] by auto
  have "f_start f + ?a \<le> p \<and> p < f_start f + ?b" if "embed_at f p" "nc \<le> p" "p < nc + n" for p
    using that by (auto simp: embed_at_def f_start_def f_end_def)
  thus ?thesis using ae by blast
qed

section \<open>The plan\<close>

abbreviation feat_id :: "(string \<Rightarrow> mm_feature list) \<Rightarrow> request \<Rightarrow> nat \<Rightarrow> string" where
  "feat_id F r i \<equiv> mm_identifier (F (request_id r) ! i)"

definition planned :: "enc_plan \<Rightarrow> nat list" where
  "planned s = encoder_inputs_to_schedule s @ external_load_encoder_input s"

definition plan_ok ::
  "(string \<Rightarrow> mm_feature list) \<Rightarrow> (string \<Rightarrow> int) \<Rightarrow> request \<Rightarrow> int \<Rightarrow> enc_plan \<Rightarrow> encoder_cache \<Rightarrow> bool" where
  "plan_ok F sz r b0 s c \<longleftrightarrow> plan_manager s = Mm c \<and> ec_inv F sz c \<and>
     (\<forall>i \<in> set (planned s). i < length (F (request_id r))) \<and>
     mm_hashes_to_schedule s = feat_id F r ` set (planned s) \<and> distinct (map (feat_id F r) (planned s)) \<and>
     mm_hashes_to_schedule s \<inter> entries c = {} \<and>
     num_embeds_to_schedule s = (\<Sum>i \<leftarrow> planned s. sz (feat_id F r i)) \<and>
     num_embeds_to_schedule s \<le> num_free_slots c \<and>
     plan_budget s = b0 - (\<Sum>i \<leftarrow> encoder_inputs_to_schedule s. sz (feat_id F r i)) \<and>
     (0 \<le> b0 \<longrightarrow> 0 \<le> plan_budget s)"

text \<open>The plan only grows, references are only added for the request, and entries only leave through \<^verbatim>\<open>freed\<close>.\<close>

definition shrunk :: "encoder_cache \<Rightarrow> encoder_cache \<Rightarrow> bool" where
  "shrunk c c' \<longleftrightarrow> (\<exists>ev. freed c' = freed c @ ev \<and> entries c' = entries c - set ev)"

definition plan_le :: "string \<Rightarrow> enc_plan \<Rightarrow> encoder_cache \<Rightarrow> enc_plan \<Rightarrow> encoder_cache \<Rightarrow> bool" where
  "plan_le rid s c s' c' \<longleftrightarrow> mm_hashes_to_schedule s \<subseteq> mm_hashes_to_schedule s' \<and> shrunk c c' \<and>
     cache_size c' = cache_size c \<and>
     (\<forall>h. refs_to c h \<subseteq> refs_to c' h \<and> refs_to c' h \<subseteq> insert rid (refs_to c h))"

definition covered :: "string \<Rightarrow> int \<Rightarrow> int \<Rightarrow> enc_plan \<Rightarrow> encoder_cache \<Rightarrow> mm_feature \<Rightarrow> bool" where
  "covered rid nc n s c f \<longleftrightarrow> mm_identifier f \<in> mm_hashes_to_schedule s \<or> rid \<in> refs_to c (mm_identifier f) \<or>
     (\<forall>p. nc \<le> p \<and> p < nc + n \<longrightarrow> \<not> embed_at f p)"

lemma shrunk_refl: "shrunk c c"
  by (simp add: shrunk_def)

lemma shrunk_trans:
  assumes "shrunk a b" "shrunk b c"
  shows "shrunk a c"
proof -
  obtain u v where "freed b = freed a @ u" "entries b = entries a - set u"
    "freed c = freed b @ v" "entries c = entries b - set v"
    using assms by (auto simp: shrunk_def)
  thus ?thesis unfolding shrunk_def by (intro exI [of _ "u @ v"]) auto
qed

lemma plan_le_refl: "plan_le rid s c s c"
  by (auto simp: plan_le_def shrunk_refl)

lemma plan_le_trans: "plan_le rid s c s1 c1 \<Longrightarrow> plan_le rid s1 c1 s2 c2 \<Longrightarrow> plan_le rid s c s2 c2"
  unfolding plan_le_def using shrunk_trans by fastforce

lemma covered_mono:
  "covered rid nc n s c f \<Longrightarrow> plan_le rid s c s' c' \<Longrightarrow> n' \<le> n \<Longrightarrow> covered rid nc n' s' c' f"
  unfolding covered_def plan_le_def by fastforce

lemma empty_plan_ok: "ec_inv F sz c \<Longrightarrow> plan_ok F sz r b (empty_plan n b (Mm c)) c"
  by (simp add: plan_ok_def empty_plan_def planned_def ec_inv_def ec_account_def)

text \<open>Outcome of one round for item \<open>f\<close>: the loop breaks before the item, or goes on with the item covered.\<close>

definition round_law ::
  "(string \<Rightarrow> mm_feature list) \<Rightarrow> (string \<Rightarrow> int) \<Rightarrow> request \<Rightarrow> int \<Rightarrow> int \<Rightarrow> mm_feature \<Rightarrow> enc_plan \<Rightarrow> encoder_cache \<Rightarrow>
   bool \<Rightarrow> enc_plan \<Rightarrow> encoder_cache \<Rightarrow> bool" where
  "round_law F sz r b0 nc f s c stop s' c' \<longleftrightarrow>
     plan_ok F sz r b0 s' c' \<and> plan_le (request_id r) s c s' c' \<and>
     (if stop then 0 \<le> plan_new_tokens s' \<and> plan_new_tokens s' \<le> plan_new_tokens s \<and>
                   (nc + plan_new_tokens s' \<le> f_start f \<or> plan_new_tokens s' = 0)
      else plan_new_tokens s' = plan_new_tokens s \<and> covered (request_id r) nc (plan_new_tokens s) s' c' f)"

lemma plan_ok_new_tokens [simp]: "plan_ok F sz r b0 (s\<lparr>plan_new_tokens := n\<rparr>) c = plan_ok F sz r b0 s c"
  by (simp add: plan_ok_def planned_def)

lemma plan_le_new_tokens [simp]: "plan_le rid s c (s'\<lparr>plan_new_tokens := n\<rparr>) c' = plan_le rid s c s' c'"
  by (simp add: plan_le_def)

lemma plan_ok_manager:
  assumes "plan_ok F sz r b0 s c" "ec_inv F sz c'" "entries c' \<subseteq> entries c" "num_embeds_to_schedule s \<le> num_free_slots c'"
  shows "plan_ok F sz r b0 (s\<lparr>plan_manager := Mm c'\<rparr>) c'"
proof -
  have "mm_hashes_to_schedule s \<inter> entries c' = {}" using assms(1,3) unfolding plan_ok_def by blast
  moreover have "planned (s\<lparr>plan_manager := Mm c'\<rparr>) = planned s" by (simp add: planned_def)
  ultimately show ?thesis using assms by (auto simp: plan_ok_def)
qed

lemma plan_item_law:
  assumes ok: "plan_ok F sz r b0 s c" and sz: "sizes_ok F sz" and i: "i < length (F (request_id r))"
    and f: "f = F (request_id r) ! i" and h: "h = mm_identifier f"
    and new: "h \<notin> mm_hashes_to_schedule s" "h \<notin> entries c"
    and room: "sz h + num_embeds_to_schedule s \<le> num_free_slots c" "sz h \<le> plan_budget s"
  shows "plan_ok F sz r b0 (plan_item env i f s) c" "mm_hashes_to_schedule (plan_item env i f s) = insert h (mm_hashes_to_schedule s)"
    "plan_new_tokens (plan_item env i f s) = plan_new_tokens s"
proof -
  have n: "get_num_embeds (mm_position f) = sz h"
    using sz nth_mem [OF i] unfolding sizes_ok_def f h by blast
  show "mm_hashes_to_schedule (plan_item env i f s) = insert h (mm_hashes_to_schedule s)"
    "plan_new_tokens (plan_item env i f s) = plan_new_tokens s"
    by (simp_all add: plan_item_def Let_def h)
  show "plan_ok F sz r b0 (plan_item env i f s) c"
    using ok new room i
    by (auto simp: plan_ok_def planned_def plan_item_def Let_def n f [symmetric] h [symmetric])
qed

lemma check_step:
  assumes ok: "plan_ok F sz r b0 s c" and r: "known F r" and i: "i < length (F (request_id r))"
    and new: "feat_id F r i \<notin> mm_hashes_to_schedule s"
  shows "\<exists>c'. mgr_check r i (plan_manager s) = Inr (feat_id F r i \<in> entries c, Mm c') \<and>
           plan_ok F sz r b0 (s\<lparr>plan_manager := Mm c'\<rparr>) c' \<and>
           plan_le (request_id r) s c (s\<lparr>plan_manager := Mm c'\<rparr>) c' \<and> entries c' = entries c \<and>
           (feat_id F r i \<in> entries c \<longrightarrow> request_id r \<in> refs_to c' (feat_id F r i))"
proof -
  have m: "plan_manager s = Mm c" and inv: "ec_inv F sz c" using ok by (simp_all add: plan_ok_def)
  obtain c' where c': "check_and_update_cache r i c = Inr (feat_id F r i \<in> entries c, c')" "ec_inv F sz c'"
      "entries c' = entries c" "num_free_slots c' = num_free_slots c" "freed c' = freed c" "cache_size c' = cache_size c"
      "refs_to c' = (if feat_id F r i \<in> entries c
         then (refs_to c)(feat_id F r i := insert (request_id r) (refs_to c (feat_id F r i))) else refs_to c)"
    using check_and_update_cache_law [OF inv r i] by blast
  have "plan_ok F sz r b0 (s\<lparr>plan_manager := Mm c'\<rparr>) c'"
    by (rule plan_ok_manager [OF ok c'(2)]) (use c' ok in \<open>auto simp: plan_ok_def\<close>)
  moreover have "plan_le (request_id r) s c (s\<lparr>plan_manager := Mm c'\<rparr>) c'"
    using c' by (auto simp: plan_le_def shrunk_def)
  ultimately show ?thesis using c' m by simp
qed

lemma can_allocate_step:
  assumes ok: "plan_ok F sz r b0 s c" and sz: "sizes_ok F sz" and r: "known F r" and i: "i < length (F (request_id r))"
  shows "\<exists>b c'. mgr_can_allocate r i (plan_budget s) (num_embeds_to_schedule s) (plan_manager s) = Inr (b, Mm c') \<and>
           plan_ok F sz r b0 (s\<lparr>plan_manager := Mm c'\<rparr>) c' \<and>
           plan_le (request_id r) s c (s\<lparr>plan_manager := Mm c'\<rparr>) c' \<and> entries c' \<subseteq> entries c \<and>
           (b \<longrightarrow> sz (feat_id F r i) + num_embeds_to_schedule s \<le> num_free_slots c' \<and> sz (feat_id F r i) \<le> plan_budget s)"
proof -
  have m: "plan_manager s = Mm c" and inv: "ec_inv F sz c" using ok by (simp_all add: plan_ok_def)
  obtain b c' m where c': "can_allocate r i (plan_budget s) (num_embeds_to_schedule s) c = Inr (b, c')" "ec_inv F sz c'"
      "b \<longrightarrow> sz (feat_id F r i) \<le> plan_budget s"
      "if b then sz (feat_id F r i) + num_embeds_to_schedule s \<le> num_free_slots c' else c' = c"
      "refs_to c' = refs_to c" "cache_size c' = cache_size c" "freed c' = freed c @ map fst (take m (freeable c))"
      "entries c' = entries c - fst ` set (take m (freeable c))"
    using can_allocate_law [OF inv sz r i] by blast
  have "0 \<le> sz (feat_id F r i)" using sz by (simp add: sizes_ok_def)
  hence "num_embeds_to_schedule s \<le> num_free_slots c'" using c'(4) ok by (auto simp: plan_ok_def split: if_splits)
  hence "plan_ok F sz r b0 (s\<lparr>plan_manager := Mm c'\<rparr>) c'"
    by (intro plan_ok_manager [OF ok c'(2)]) (auto simp: c'(8))
  moreover have "plan_le (request_id r) s c (s\<lparr>plan_manager := Mm c'\<rparr>) c'"
    using c'(5-8) unfolding plan_le_def shrunk_def
    by (auto intro!: exI [of _ "map fst (take m (freeable c))"])
  ultimately show ?thesis using c' \<open>plan_manager s = Mm c\<close> by (auto split: if_splits)
qed

text \<open>
  A round for an item that is not yet scheduled: \<open>s1\<close> is the plan after the lookup, \<open>s2\<close> after the
  test for room.
\<close>

abbreviation cut_chunk :: "enc_env \<Rightarrow> int \<Rightarrow> int \<Rightarrow> mm_feature \<Rightarrow> bool" where
  "cut_chunk env nc n f \<equiv> disable_chunked_mm_input (env_scheduler_config env) \<and> nc < mm_offset (mm_position f) \<and>
     nc + n < mm_offset (mm_position f) + mm_length (mm_position f)"

definition tokens_before :: "int \<Rightarrow> int \<Rightarrow> mm_feature \<Rightarrow> int" where
  "tokens_before nc shift f =
     (if nc + shift < mm_offset (mm_position f) then mm_offset (mm_position f) - (nc + shift) else 0)"

lemma schedule_item_run:
  assumes ok: "plan_ok F sz r b0 s c" and sz: "sizes_ok F sz" and r: "known F r" and i: "i < length (F (request_id r))"
    and mm: "\<not> is_encoder_decoder env" and f: "f = F (request_id r) ! i" and wf: "feature_wf f"
    and win: "nc < f_end f" and pos: "0 \<le> plan_new_tokens s" and fresh: "mm_identifier f \<notin> mm_hashes_to_schedule s"
  shows "\<exists>s1 c1 s2 c2 b x. plan_ok F sz r b0 s1 c1 \<and> plan_le (request_id r) s c s1 c1 \<and> plan_ok F sz r b0 s2 c2 \<and>
    plan_le (request_id r) s c s2 c2 \<and> s1 = s\<lparr>plan_manager := Mm c1\<rparr> \<and> s2 = s\<lparr>plan_manager := Mm c2\<rparr> \<and>
    entries c2 \<subseteq> entries c \<and> (mm_identifier f \<in> entries c \<longrightarrow> request_id r \<in> refs_to c1 (mm_identifier f)) \<and>
    (b \<longrightarrow> sz (mm_identifier f) + num_embeds_to_schedule s \<le> num_free_slots c2 \<and> sz (mm_identifier f) \<le> plan_budget s) \<and>
    (x \<longrightarrow> (\<forall>p. nc \<le> p \<and> p < nc + plan_new_tokens s \<longrightarrow> \<not> embed_at f p)) \<and>
    schedule_item env r nc shift i s =
      (if mm_identifier f \<in> entries c then Inr (False, s1)
       else if cut_chunk env nc (plan_new_tokens s) f then Inr (True, s1\<lparr>plan_new_tokens := tokens_before nc shift f\<rparr>)
       else if \<not> b then Inr (True, s2\<lparr>plan_new_tokens := tokens_before nc shift f\<rparr>)
       else if x then Inr (False, s2) else Inr (False, plan_item env i f s2))"
proof -
  let ?h = "mm_identifier f"
  obtain c1 where c1: "mgr_check r i (plan_manager s) = Inr (?h \<in> entries c, Mm c1)"
      "plan_ok F sz r b0 (s\<lparr>plan_manager := Mm c1\<rparr>) c1" "plan_le (request_id r) s c (s\<lparr>plan_manager := Mm c1\<rparr>) c1"
      "entries c1 = entries c" "?h \<in> entries c \<longrightarrow> request_id r \<in> refs_to c1 ?h"
    using check_step [OF ok r i] fresh by (auto simp: f)
  define s1 where "s1 = s\<lparr>plan_manager := Mm c1\<rparr>"
  obtain b c2 where c2: "mgr_can_allocate r i (plan_budget s) (num_embeds_to_schedule s) (Mm c1) = Inr (b, Mm c2)"
      "plan_ok F sz r b0 (s1\<lparr>plan_manager := Mm c2\<rparr>) c2" "plan_le (request_id r) s1 c1 (s1\<lparr>plan_manager := Mm c2\<rparr>) c2"
      "entries c2 \<subseteq> entries c1"
      "b \<longrightarrow> sz ?h + num_embeds_to_schedule s \<le> num_free_slots c2 \<and> sz ?h \<le> plan_budget s"
    using can_allocate_step [OF c1(2) sz r i] by (auto simp: f s1_def)
  define s2 where "s2 = s\<lparr>plan_manager := Mm c2\<rparr>"
  have s2: "s1\<lparr>plan_manager := Mm c2\<rparr> = s2" by (simp add: s1_def s2_def)
  obtain a e where rng: "get_embeds_indices_in_range (mm_position f) (max 0 (nc - mm_offset (mm_position f)))
      (min (mm_length (mm_position f)) (nc + plan_new_tokens s - mm_offset (mm_position f))) = Inr (a, e)"
    and none: "e - a = 0 \<longrightarrow> (\<forall>p. nc \<le> p \<and> p < nc + plan_new_tokens s \<longrightarrow> \<not> embed_at f p)"
    using embeds_in_window [OF wf win pos] by blast
  have tb: "max 0 (mm_offset (mm_position f) - (nc + shift)) = tokens_before nc shift f" by (simp add: tokens_before_def)
  have run: "schedule_item env r nc shift i s =
    (if ?h \<in> entries c then Inr (False, s1)
     else if cut_chunk env nc (plan_new_tokens s) f then Inr (True, s1\<lparr>plan_new_tokens := tokens_before nc shift f\<rparr>)
     else if \<not> b then Inr (True, s2\<lparr>plan_new_tokens := tokens_before nc shift f\<rparr>)
     else if e - a = 0 then Inr (False, s2) else Inr (False, plan_item env i f s2))"
    using mm fresh c1(1) c2(1) rng
    by (simp add: schedule_item_def Let_def py_index_feature [OF r i, folded f] s2 s1_def [symmetric] tb tokens_before_def [symmetric])
  show ?thesis
    by (rule exI [of _ s1], rule exI [of _ c1], rule exI [of _ s2], rule exI [of _ c2], rule exI [of _ b],
        rule exI [of _ "e - a = 0"], intro conjI)
      (use none c1(2-5) c2(2-5) plan_le_trans [OF c1(3) [folded s1_def] c2(3)] s2 in
        \<open>simp_all only: run s1_def [symmetric] s2_def [symmetric] simp_thms\<close>)
qed

lemma schedule_item_law:
  assumes ok: "plan_ok F sz r b0 s c" and sz: "sizes_ok F sz" and r: "known F r" and i: "i < length (F (request_id r))"
    and mm: "\<not> is_encoder_decoder env" and f: "f = F (request_id r) ! i" and wf: "feature_wf f"
    and win: "nc < f_end f" "f_start f < nc + plan_new_tokens s + shift" and pos: "0 \<le> plan_new_tokens s" "0 \<le> shift"
  shows "\<exists>stop s' c'. schedule_item env r nc shift i s = Inr (stop, s') \<and> round_law F sz r b0 nc f s c stop s' c'"
proof (cases "mm_identifier f \<in> mm_hashes_to_schedule s")
  case True
  have "plan_manager s = Mm c" using ok by (simp add: plan_ok_def)
  hence "schedule_item env r nc shift i s = Inr (False, s)"
    using mm True by (simp add: schedule_item_def Let_def py_index_feature [OF r i, folded f])
  moreover have "round_law F sz r b0 nc f s c False s c"
    by (simp add: round_law_def covered_def True ok plan_le_refl)
  ultimately show ?thesis by blast
next
  case False
  let ?h = "mm_identifier f"
  obtain s1 c1 s2 c2 b x where ok1: "plan_ok F sz r b0 s1 c1" "plan_le (request_id r) s c s1 c1"
      and ok2: "plan_ok F sz r b0 s2 c2" "plan_le (request_id r) s c s2 c2"
      and eqs: "s1 = s\<lparr>plan_manager := Mm c1\<rparr>" "s2 = s\<lparr>plan_manager := Mm c2\<rparr>"
      and sub: "entries c2 \<subseteq> entries c" and ref: "?h \<in> entries c \<longrightarrow> request_id r \<in> refs_to c1 ?h"
      and room: "b \<longrightarrow> sz ?h + num_embeds_to_schedule s \<le> num_free_slots c2 \<and> sz ?h \<le> plan_budget s"
      and none: "x \<longrightarrow> (\<forall>p. nc \<le> p \<and> p < nc + plan_new_tokens s \<longrightarrow> \<not> embed_at f p)"
      and run: "schedule_item env r nc shift i s =
        (if ?h \<in> entries c then Inr (False, s1)
         else if cut_chunk env nc (plan_new_tokens s) f then Inr (True, s1\<lparr>plan_new_tokens := tokens_before nc shift f\<rparr>)
         else if \<not> b then Inr (True, s2\<lparr>plan_new_tokens := tokens_before nc shift f\<rparr>)
         else if x then Inr (False, s2) else Inr (False, plan_item env i f s2))"
    using schedule_item_run [OF ok sz r i mm f wf win(1) pos(1) False, of shift] by blast
  have hit: "round_law F sz r b0 nc f s c False s1 c1" if "?h \<in> entries c"
    using ref that by (simp add: round_law_def covered_def ok1) (simp add: eqs)
  have stop: "round_law F sz r b0 nc f s c True (t\<lparr>plan_new_tokens := tokens_before nc shift f\<rparr>) d"
    if "plan_ok F sz r b0 t d" "plan_le (request_id r) s c t d" for t d
    using that win pos by (auto simp: round_law_def f_start_def tokens_before_def)
  have skip: "round_law F sz r b0 nc f s c False s2 c2" if x
    using none that by (simp add: round_law_def covered_def ok2) (simp add: eqs)
  have plan: "round_law F sz r b0 nc f s c False (plan_item env i f s2) c2" if "?h \<notin> entries c" b
  proof -
    have "?h \<notin> entries c2" "?h \<notin> mm_hashes_to_schedule s2" "sz ?h + num_embeds_to_schedule s2 \<le> num_free_slots c2"
        "sz ?h \<le> plan_budget s2"
      using that sub room False eqs by auto
    note law = plan_item_law [OF ok2(1) sz i f refl this(2,1,3,4), of env]
    have "plan_le (request_id r) s c (plan_item env i f s2) c2"
      using ok2(2) law(2) by (auto simp: plan_le_def)
    thus ?thesis by (simp add: round_law_def covered_def law) (simp add: eqs)
  qed
  show ?thesis unfolding run using hit stop [OF ok1] stop [OF ok2] skip plan by (auto split: if_splits)
qed

text \<open>All items of a window: the plan covers every one of them for the tokens it settles on.\<close>

lemma schedule_loop_law:
  assumes "plan_ok F sz r b0 s c" and sz: "sizes_ok F sz" and r: "known F r" and mm: "\<not> is_encoder_decoder env"
    and wf: "features_wf (F (request_id r))" and pos: "0 \<le> plan_new_tokens s" "0 \<le> shift" and "sorted js"
    and "\<forall>i \<in> set js. i < length (F (request_id r)) \<and> nc < f_end (F (request_id r) ! i) \<and>
           f_start (F (request_id r) ! i) < nc + plan_new_tokens s + shift"
  shows "\<exists>s' c'. schedule_loop env r nc shift js s = Inr s' \<and> plan_ok F sz r b0 s' c' \<and>
           plan_le (request_id r) s c s' c' \<and> 0 \<le> plan_new_tokens s' \<and> plan_new_tokens s' \<le> plan_new_tokens s \<and>
           (\<forall>i \<in> set js. covered (request_id r) nc (plan_new_tokens s') s' c' (F (request_id r) ! i))"
  using assms(1,6,8,9)
proof (induction js arbitrary: s c)
  case Nil
  thus ?case using plan_le_refl by auto
next
  case (Cons i js)
  let ?f = "F (request_id r) ! i"
  have i: "i < length (F (request_id r))" "nc < f_end ?f" "f_start ?f < nc + plan_new_tokens s + shift"
    using Cons.prems(4) by simp_all
  have "feature_wf ?f" using wf nth_mem [OF i(1)] by (simp add: features_wf_def)
  then obtain stop s1 c1 where s1: "schedule_item env r nc shift i s = Inr (stop, s1)"
      "round_law F sz r b0 nc ?f s c stop s1 c1"
    using schedule_item_law [OF Cons.prems(1) sz r i(1) mm refl _ i(2,3) Cons.prems(2) pos(2)] by blast
  show ?case
  proof (cases stop)
    case True
    have "covered (request_id r) nc (plan_new_tokens s1) s1 c1 (F (request_id r) ! j)" if "j \<in> set (i # js)" for j
    proof -
      have "i \<le> j" "j < length (F (request_id r))" using Cons.prems(3,4) that by auto
      hence "f_start ?f \<le> f_start (F (request_id r) ! j)"
        using sorted_nth_mono [OF features_sorted(1) [OF wf], of i j] by simp
      thus ?thesis using s1(2) True by (auto simp: round_law_def covered_def embed_at_def)
    qed
    thus ?thesis using s1 True by (auto simp: round_law_def)
  next
    case False
    hence law: "plan_ok F sz r b0 s1 c1" "plan_le (request_id r) s c s1 c1" "plan_new_tokens s1 = plan_new_tokens s"
        "covered (request_id r) nc (plan_new_tokens s) s1 c1 ?f"
      using s1(2) by (simp_all add: round_law_def)
    obtain s' c' where IH: "schedule_loop env r nc shift js s1 = Inr s'" "plan_ok F sz r b0 s' c'"
        "plan_le (request_id r) s1 c1 s' c'" "0 \<le> plan_new_tokens s'" "plan_new_tokens s' \<le> plan_new_tokens s"
        "\<forall>i \<in> set js. covered (request_id r) nc (plan_new_tokens s') s' c' (F (request_id r) ! i)"
      using Cons.IH [OF law(1)] Cons.prems law(3) by auto
    have "covered (request_id r) nc (plan_new_tokens s') s' c' ?f"
      by (rule covered_mono [OF law(4) IH(3,5)])
    moreover have "plan_le (request_id r) s c s' c'" by (rule plan_le_trans [OF law(2) IH(3)])
    ultimately show ?thesis using IH s1(1) False by auto
  qed
qed

lemma try_schedule_law:
  assumes inv: "ec_inv F sz c" and sz: "sizes_ok F sz" and r: "known F r" and mm: "\<not> is_encoder_decoder env"
    and wf: "features_wf (F (request_id r))" and pos: "0 \<le> n" "0 \<le> shift"
  shows "\<exists>pl c'. try_schedule_encoder_inputs env r nc n b0 shift (Mm c) = Inr pl \<and> plan_ok F sz r b0 pl c' \<and>
           plan_le (request_id r) (empty_plan n b0 (Mm c)) c pl c' \<and> 0 \<le> plan_new_tokens pl \<and> plan_new_tokens pl \<le> n \<and>
           (\<forall>f \<in> set (F (request_id r)). covered (request_id r) nc (plan_new_tokens pl) pl c' f)"
proof (cases "n = 0 \<or> \<not> has_encoder_inputs r")
  case True
  hence "covered (request_id r) nc n (empty_plan n b0 (Mm c)) c f" if "f \<in> set (F (request_id r))" for f
    using that r by (auto simp: covered_def has_encoder_inputs_def known_def)
  thus ?thesis using True empty_plan_ok [OF inv] plan_le_refl pos
    by (intro exI [of _ "empty_plan n b0 (Mm c)"] exI [of _ c])
      (auto simp: try_schedule_encoder_inputs_def empty_plan_def)
next
  case False
  let ?fs = "F (request_id r)" and ?s = "empty_plan n b0 (Mm c)"
  obtain lo hi where w: "get_mm_features_in_window ?fs nc (nc + n + shift) = (lo, hi)" by force
  have n: "plan_new_tokens ?s = n" by (simp add: empty_plan_def)
  have "i < length ?fs \<and> nc < f_end (?fs ! i) \<and> f_start (?fs ! i) < nc + n + shift" if "i \<in> set [lo..<hi]" for i
    using window_law(1) [OF wf w] window_law(2) [OF wf w, of i] that by auto
  then obtain pl c' where pl: "schedule_loop env r nc shift [lo..<hi] ?s = Inr pl" "plan_ok F sz r b0 pl c'"
      "plan_le (request_id r) ?s c pl c'" "0 \<le> plan_new_tokens pl" "plan_new_tokens pl \<le> n"
      "\<forall>i \<in> set [lo..<hi]. covered (request_id r) nc (plan_new_tokens pl) pl c' (?fs ! i)"
    using schedule_loop_law [where s = ?s and js = "[lo..<hi]" and nc = nc, OF empty_plan_ok [OF inv] sz r mm wf _ pos(2)]
      pos(1) n by auto
  have "covered (request_id r) nc (plan_new_tokens pl) pl c' f" if f: "f \<in> set ?fs" for f
  proof -
    obtain i where i: "i < length ?fs" "f = ?fs ! i" using f by (metis in_set_conv_nth)
    show ?thesis
    proof (cases "i \<in> set [lo..<hi]")
      case False
      hence "f_end f \<le> nc \<or> nc + n + shift \<le> f_start f" using window_law(2) [OF wf w i(1)] i(2) by auto
      thus ?thesis using pl(5) pos(2) by (auto simp: covered_def embed_at_def)
    qed (use pl(6) i(2) in simp)
  qed
  moreover have "try_schedule_encoder_inputs env r nc n b0 shift (Mm c) = Inr pl"
    using False w pl(1) mm r
    by (simp add: try_schedule_encoder_inputs_def has_encoder_inputs_def known_def)
  ultimately show ?thesis using pl by blast
qed

section \<open>Allocating the planned inputs\<close>

lemma allocate_fold_law:
  assumes "ec_inv F sz c" and sz: "sizes_ok F sz" and r: "known F r"
    and "\<forall>i \<in> set js. i < length (F (request_id r))" "distinct (map (feat_id F r) js)"
    and "feat_id F r ` set js \<inter> entries c = {}" "(\<Sum>i \<leftarrow> js. sz (feat_id F r i)) \<le> num_free_slots c"
  shows "\<exists>c'. foldE (mgr_allocate r) js (Mm c) = Inr (Mm c') \<and> ec_inv F sz c' \<and>
           entries c' = entries c \<union> feat_id F r ` set js \<and> freed c' = freed c \<and> cache_size c' = cache_size c \<and>
           num_free_slots c' = num_free_slots c - (\<Sum>i \<leftarrow> js. sz (feat_id F r i)) \<and>
           (\<forall>h. refs_to c' h = (if h \<in> feat_id F r ` set js then {request_id r} else refs_to c h))"
  using assms(1,4-7)
proof (induction js arbitrary: c)
  case Nil
  thus ?case by simp
next
  case (Cons i js)
  have nonneg: "0 \<le> (\<Sum>i \<leftarrow> js. sz (feat_id F r i))"
    using sz by (intro sum_list_nonneg) (auto simp: sizes_ok_def)
  obtain d where d: "allocate_encoder r i c = Inr d" "ec_inv F sz d" "entries d = insert (feat_id F r i) (entries c)"
      "refs_to d = (refs_to c)(feat_id F r i := {request_id r})" "num_free_slots d = num_free_slots c - sz (feat_id F r i)"
      "cache_size d = cache_size c" "freed d = freed c"
    using allocate_encoder_law [OF Cons.prems(1) sz r _ refl, of i] Cons.prems nonneg by auto
  obtain c' where c': "foldE (mgr_allocate r) js (Mm d) = Inr (Mm c')" "ec_inv F sz c'"
      "entries c' = entries d \<union> feat_id F r ` set js" "freed c' = freed d" "cache_size c' = cache_size d"
      "num_free_slots c' = num_free_slots d - (\<Sum>i \<leftarrow> js. sz (feat_id F r i))"
      "\<forall>h. refs_to c' h = (if h \<in> feat_id F r ` set js then {request_id r} else refs_to d h)"
    using Cons.IH [OF d(2)] Cons.prems d(3,5) by auto
  show ?case using d c' by (intro exI [of _ c']) auto
qed

lemma allocate_planned_law:
  assumes ok: "plan_ok F sz r b0 pl c" and sz: "sizes_ok F sz" and r: "known F r"
    and d: "ec_inv F sz d" "entries d = entries c" "num_free_slots d = num_free_slots c"
  shows "\<exists>c'. allocate_planned r pl (Mm d) = Inr (Mm c') \<and> ec_inv F sz c' \<and>
           entries c' = entries d \<union> mm_hashes_to_schedule pl \<and> freed c' = freed d \<and> cache_size c' = cache_size d \<and>
           (\<forall>h. refs_to c' h = (if h \<in> mm_hashes_to_schedule pl then {request_id r} else refs_to d h))"
proof -
  have "allocate_planned r pl (Mm d) = foldE (mgr_allocate r) (planned pl) (Mm d)"
    by (simp add: allocate_planned_def planned_def foldE_append bindE_def)
  moreover have "mm_hashes_to_schedule pl = feat_id F r ` set (planned pl)" using ok by (simp add: plan_ok_def)
  ultimately show ?thesis
    using allocate_fold_law [OF d(1) sz r, of "planned pl"] ok d by (auto simp: plan_ok_def)
qed

section \<open>The reads of the worker\<close>

lemma embeds_range_found:
  assumes wf: "feature_wf f" and a: "0 \<le> a" "a < b" "b \<le> mm_length (mm_position f)"
    and run: "get_embeds_indices_in_range (mm_position f) a b = Inr (s, e)" "s \<noteq> e"
  shows "\<exists>p. f_start f + a \<le> p \<and> p < f_start f + b \<and> embed_at f p"
proof (cases "is_embed (mm_position f)")
  case None
  thus ?thesis using a by (intro exI [of _ "f_start f + a"]) (simp add: embed_at_def f_start_def f_end_def)
next
  case (Some bm)
  hence len: "int (length bm) = mm_length (mm_position f)" using wf by (simp add: feature_wf_def)
  have "length (filter id (take (nat a) bm)) \<noteq> length (filter id (take (nat b) bm))"
    using cumsum_prefix [of a bm] cumsum_prefix [of b bm] a len Some run
    by (auto simp: get_embeds_indices_in_range_def embeds_cumsum_def)
  moreover have "take (nat b) bm = take (nat a) bm @ take (nat b - nat a) (drop (nat a) bm)"
    using a by (metis le_add_diff_inverse less_imp_le nat_mono take_add)
  ultimately have "filter id (take (nat b - nat a) (drop (nat a) bm)) \<noteq> []" by (auto simp del: take_drop)
  then obtain k where k: "k < nat b - nat a" "nat a + k < length bm" "bm ! (nat a + k)"
    by (auto simp: filter_empty_conv in_set_conv_nth)
  thus ?thesis using a Some len
    by (intro exI [of _ "f_start f + a + int k"]) (auto simp: embed_at_def f_start_def f_end_def nat_add_distrib)
qed

lemma gather_item_law:
  assumes wf: "features_wf fs" and i: "i < length fs" "nc < f_end (fs ! i)" "f_start (fs ! i) < nc + n" and n: "0 < n"
    and W: "\<And>f p. f \<in> set fs \<Longrightarrow> embed_at f p \<Longrightarrow> nc \<le> p \<Longrightarrow> p < nc + n \<Longrightarrow> mm_identifier f \<in> W"
  shows "\<exists>hs. gather_item fs nc n W i acc = Inr hs"
proof -
  define f where "f = fs ! i"
  have f: "f \<in> set fs" "feature_wf f" using wf nth_mem [OF i(1)] by (auto simp: f_def features_wf_def)
  let ?a = "max (nc - mm_offset (mm_position f)) 0"
    and ?b = "min (nc - mm_offset (mm_position f) + n) (mm_length (mm_position f))"
  have win: "nc < f_end f" "f_start f < nc + n" using i by (simp_all add: f_def)
  have ab: "0 \<le> ?a" "?a < ?b" "?b \<le> mm_length (mm_position f)"
    using win f(2) n by (auto simp: f_start_def f_end_def feature_wf_def)
  obtain s e where run: "get_embeds_indices_in_range (mm_position f) ?a ?b = Inr (s, e)"
    using embeds_range_total [OF f(2), of ?a ?b] ab by auto
  have "mm_identifier f \<in> W" if ne: "s \<noteq> e"
  proof -
    obtain p where "f_start f + ?a \<le> p" "p < f_start f + ?b" "embed_at f p"
      using embeds_range_found [OF f(2) ab run ne] by blast
    thus ?thesis by (intro W [OF f(1)]) (auto simp: f_start_def)
  qed
  moreover have "py_index fs (int i) = Inr f" using i by (simp add: py_index_def f_def)
  ultimately show ?thesis using run ab(2) by (simp add: gather_item_def Let_def)
qed

lemma gather_law:
  assumes wf: "features_wf fs" and n: "0 < n"
    and W: "\<And>f p. f \<in> set fs \<Longrightarrow> embed_at f p \<Longrightarrow> nc \<le> p \<Longrightarrow> p < nc + n \<Longrightarrow> mm_identifier f \<in> W"
  shows "\<exists>hs. gather_mm_embeddings fs nc n 0 W = Inr hs"
proof -
  obtain lo hi where w: "get_mm_features_in_window fs nc (nc + n) = (lo, hi)" by force
  have js: "i < length fs \<and> nc < f_end (fs ! i) \<and> f_start (fs ! i) < nc + n" if "i \<in> set [lo..<hi]" for i
    using window_law(1) [OF wf w] window_law(2) [OF wf w, of i] that by auto
  have "\<exists>hs. foldE (gather_item fs nc n W) [lo..<hi] [] = Inr hs \<and> set [] \<subseteq> set [lo..<hi]"
  proof (rule foldE_total [where P = "\<lambda>js _. set js \<subseteq> set [lo..<hi]"])
    fix i ks acc
    assume "set (i # ks) \<subseteq> set [lo..<hi]"
    thus "\<exists>hs. gather_item fs nc n W i acc = Inr hs \<and> set ks \<subseteq> set [lo..<hi]"
      using gather_item_law [OF wf _ _ _ n W] js by auto
  qed simp
  thus ?thesis using w by (simp add: gather_mm_embeddings_def)
qed

end
