(* ===== verification/Encoder_Lifecycle.thy ===== *)
theory Encoder_Lifecycle
  imports Encoder_Plan
begin

text \<open>
  The encoder cache over whole runs of the engine. A state holds the cache of the scheduler, the hashes
  whose outputs the worker keeps, and the hashes scheduled since the last hand-over. The steps are the
  calls the scheduler makes, in any order and for any requests; each carries the set of requests whose
  references it releases. At the hand-over the worker drops the evicted outputs and computes or loads
  the scheduled ones.
\<close>

section \<open>Steps\<close>

record enc_sys =
  sys_cache :: encoder_cache
  sys_worker :: "string set"
  sys_pending :: "string set"

definition new_enc_sys :: "int \<Rightarrow> enc_sys" where
  "new_enc_sys n = \<lparr>sys_cache = new_encoder_cache n, sys_worker = {}, sys_pending = {}\<rparr>"

definition hand_over :: "enc_sys \<Rightarrow> enc_sys" where
  "hand_over s =
     (let (hs, c) = get_freed_mm_hashes (sys_cache s)
      in s\<lparr>sys_cache := c, sys_worker := (sys_worker s - set hs) \<union> sys_pending s, sys_pending := {}\<rparr>)"

text \<open>A request as the scheduler passes it: its items are those known for its id and are well placed.\<close>

definition schedulable :: "(string \<Rightarrow> mm_feature list) \<Rightarrow> request \<Rightarrow> int \<Rightarrow> int \<Rightarrow> bool" where
  "schedulable F r n shift \<longleftrightarrow> known F r \<and> features_wf (F (request_id r)) \<and> 0 \<le> n \<and> 0 \<le> shift"

inductive enc_step ::
  "(string \<Rightarrow> mm_feature list) \<Rightarrow> enc_env \<Rightarrow> (nat set \<Rightarrow> nat list) \<Rightarrow> enc_sys \<Rightarrow> string set \<Rightarrow> enc_sys \<Rightarrow> bool"
  for F env list_of where
  step_try: "schedulable F r n shift \<Longrightarrow>
     try_schedule_encoder_inputs env r nc n b shift (Mm (sys_cache s)) = Inr pl \<Longrightarrow> plan_manager pl = Mm c \<Longrightarrow>
     enc_step F env list_of s {} (s\<lparr>sys_cache := c\<rparr>)"
| step_schedule: "schedulable F r n shift \<Longrightarrow>
     try_schedule_encoder_inputs env r nc n b shift (Mm (sys_cache s)) = Inr pl \<Longrightarrow>
     \<forall>q \<in> set preempted. known F q \<and> request_id q \<noteq> request_id r \<Longrightarrow>
     foldE (mgr_free list_of) preempted (plan_manager pl) = Inr m \<Longrightarrow> allocate_planned r pl m = Inr (Mm c) \<Longrightarrow>
     enc_step F env list_of s (request_id ` set preempted)
       (s\<lparr>sys_cache := c, sys_pending := sys_pending s \<union> mm_hashes_to_schedule pl\<rparr>)"
| step_free: "known F r \<Longrightarrow> encoder_free list_of r (sys_cache s) = Inr c \<Longrightarrow>
     enc_step F env list_of s {request_id r} (s\<lparr>sys_cache := c\<rparr>)"
| step_processed: "known F r \<Longrightarrow> free_encoder_inputs env list_of r (Mm (sys_cache s)) = Inr (Mm c) \<Longrightarrow>
     enc_step F env list_of s {request_id r} (s\<lparr>sys_cache := c\<rparr>)"
| step_hand_over: "enc_step F env list_of s {} (hand_over s)"
| step_reset: "sys_pending s = {} \<Longrightarrow>
     enc_step F env list_of s UNIV (s\<lparr>sys_cache := encoder_reset (sys_cache s), sys_worker := {}\<rparr>)"

inductive enc_reachable ::
  "(string \<Rightarrow> mm_feature list) \<Rightarrow> enc_env \<Rightarrow> (nat set \<Rightarrow> nat list) \<Rightarrow> int \<Rightarrow> enc_sys \<Rightarrow> bool"
  for F env list_of n where
  reach_new: "enc_reachable F env list_of n (new_enc_sys n)"
| reach_step: "enc_reachable F env list_of n s \<Longrightarrow> enc_step F env list_of s X s' \<Longrightarrow> enc_reachable F env list_of n s'"

text \<open>Runs in which request \<open>rid\<close> is not released.\<close>

inductive enc_run ::
  "(string \<Rightarrow> mm_feature list) \<Rightarrow> enc_env \<Rightarrow> (nat set \<Rightarrow> nat list) \<Rightarrow> string \<Rightarrow> enc_sys \<Rightarrow> enc_sys \<Rightarrow> bool"
  for F env list_of rid where
  run_refl: "enc_run F env list_of rid s s"
| run_step: "enc_run F env list_of rid s t \<Longrightarrow> enc_step F env list_of t X u \<Longrightarrow> rid \<notin> X \<Longrightarrow> enc_run F env list_of rid s u"

section \<open>The invariant\<close>

definition sys_ok :: "(string \<Rightarrow> mm_feature list) \<Rightarrow> (string \<Rightarrow> int) \<Rightarrow> int \<Rightarrow> enc_sys \<Rightarrow> bool" where
  "sys_ok F sz n s \<longleftrightarrow> ec_inv F sz (sys_cache s) \<and> cache_size (sys_cache s) = n \<and>
     entries (sys_cache s) \<subseteq> (sys_worker s - set (freed (sys_cache s))) \<union> sys_pending s"

lemma free_others_law:
  assumes "ec_inv F sz c" and sz: "sizes_ok F sz" and l: "enumerates list_of" and "\<forall>q \<in> set qs. known F q"
  shows "\<exists>d. foldE (mgr_free list_of) qs (Mm c) = Inr (Mm d) \<and> ec_inv F sz d \<and> entries d = entries c \<and>
           num_free_slots d = num_free_slots c \<and> cache_size d = cache_size c \<and> freed d = freed c \<and>
           (\<forall>h. refs_to d h = refs_to c h - request_id ` set qs)"
  using assms(1,4)
proof (induction qs arbitrary: c)
  case Nil
  thus ?case by simp
next
  case (Cons q qs)
  obtain d where d: "encoder_free list_of q c = Inr d" "ec_inv F sz d" "entries d = entries c"
      "\<forall>h. refs_to d h = refs_to c h - {request_id q}" "num_free_slots d = num_free_slots c"
      "cache_size d = cache_size c" "freed d = freed c"
    using encoder_free_law [OF Cons.prems(1) sz _ l, of q] Cons.prems(2) by auto
  obtain e where e: "foldE (mgr_free list_of) qs (Mm d) = Inr (Mm e)" "ec_inv F sz e" "entries e = entries d"
      "num_free_slots e = num_free_slots d" "cache_size e = cache_size d" "freed e = freed d"
      "\<forall>h. refs_to e h = refs_to d h - request_id ` set qs"
    using Cons.IH [OF d(2)] Cons.prems(2) by auto
  show ?case using d e by (intro exI [of _ e]) auto
qed

lemma free_processed_fold:
  assumes "ec_inv F sz c" and sz: "sizes_ok F sz" and r: "known F r" and mm: "\<not> is_encoder_decoder env"
    and "\<forall>i \<in> set js. i < length (F (request_id r))"
  shows "\<exists>d. foldE (free_if_processed env r) js (Mm c) = Inr (Mm d) \<and> ec_inv F sz d \<and> entries d = entries c \<and>
           num_free_slots d = num_free_slots c \<and> cache_size d = cache_size c \<and> freed d = freed c \<and>
           (\<forall>h. refs_to c h - {request_id r} \<subseteq> refs_to d h)"
  using assms(1,5)
proof (induction js arbitrary: c)
  case Nil
  thus ?case by simp
next
  case (Cons i js)
  have i: "i < length (F (request_id r))" using Cons.prems(2) by simp
  obtain d0 where d0: "free_encoder_input r i c = Inr d0" "ec_inv F sz d0" "entries d0 = entries c"
      "refs_to d0 = (refs_to c)(feat_id F r i := refs_to c (feat_id F r i) - {request_id r})"
      "num_free_slots d0 = num_free_slots c" "cache_size d0 = cache_size c" "freed d0 = freed c"
    using free_encoder_input_law [OF Cons.prems(1) sz r i refl] by auto
  have "free_if_processed env r i (Mm c) = Inr (Mm (if f_end (F (request_id r) ! i) \<le> num_computed_tokens r then d0 else c))"
    using d0(1) mm py_index_feature [OF r i] by (simp add: free_if_processed_def f_end_def)
  then obtain d where d: "free_if_processed env r i (Mm c) = Inr (Mm d)" "d = d0 \<or> d = c" by (metis (full_types))
  hence f: "ec_inv F sz d" "entries d = entries c" "num_free_slots d = num_free_slots c" "cache_size d = cache_size c"
      "freed d = freed c" "\<forall>h. refs_to c h - {request_id r} \<subseteq> refs_to d h"
    using d0 Cons.prems(1) by (auto split: if_splits)
  obtain e where e: "foldE (free_if_processed env r) js (Mm d) = Inr (Mm e)" "ec_inv F sz e" "entries e = entries d"
      "num_free_slots e = num_free_slots d" "cache_size e = cache_size d" "freed e = freed d"
      "\<forall>h. refs_to d h - {request_id r} \<subseteq> refs_to e h"
    using Cons.IH [OF f(1)] Cons.prems(2) by auto
  have "\<forall>h. refs_to c h - {request_id r} \<subseteq> refs_to e h" using f(6) e(7) by blast
  thus ?case using d(1) f e by simp
qed

lemma free_processed_law:
  assumes inv: "ec_inv F sz c" and sz: "sizes_ok F sz" and r: "known F r" and mm: "\<not> is_encoder_decoder env"
    and l: "enumerates list_of"
  shows "\<exists>d. free_encoder_inputs env list_of r (Mm c) = Inr (Mm d) \<and> ec_inv F sz d \<and> entries d = entries c \<and>
           cache_size d = cache_size c \<and> freed d = freed c \<and> (\<forall>h. refs_to c h - {request_id r} \<subseteq> refs_to d h)"
proof -
  let ?ids = "set_at (request_cached_ids c) (request_id r)"
  have "set (list_of ?ids) = ?ids" "\<forall>i \<in> ?ids. i < length (F (request_id r))"
    using inv l by (simp_all add: enumerates_def ec_inv_def ec_refs_def)
  then obtain d where "foldE (free_if_processed env r) (list_of ?ids) (Mm c) = Inr (Mm d)" "ec_inv F sz d"
      "entries d = entries c" "cache_size d = cache_size c" "freed d = freed c"
      "\<forall>h. refs_to c h - {request_id r} \<subseteq> refs_to d h"
    using free_processed_fold [OF inv sz r mm, of "list_of ?ids"] by auto
  thus ?thesis using inv
    by (cases "?ids = {}") (auto simp: free_encoder_inputs_def get_cached_input_ids_def Let_def)
qed

text \<open>
  Scheduling one request from a consistent cache: the choice, the preemptions and the allocations all
  return, and every item with an embedding among the tokens settled on is held by the request.
\<close>

lemma schedule_law:
  assumes inv: "ec_inv F sz c" and sz: "sizes_ok F sz" and r: "schedulable F r n shift" and mm: "\<not> is_encoder_decoder env"
    and l: "enumerates list_of" and qs: "\<forall>q \<in> set qs. known F q \<and> request_id q \<noteq> request_id r"
  shows "\<exists>pl c1 d c'. try_schedule_encoder_inputs env r nc n b shift (Mm c) = Inr pl \<and> plan_manager pl = Mm c1 \<and>
           plan_ok F sz r b pl c1 \<and> plan_le (request_id r) (empty_plan n b (Mm c)) c pl c1 \<and>
           0 \<le> plan_new_tokens pl \<and> plan_new_tokens pl \<le> n \<and>
           foldE (mgr_free list_of) qs (Mm c1) = Inr (Mm d) \<and> allocate_planned r pl (Mm d) = Inr (Mm c') \<and>
           ec_inv F sz c' \<and> entries c' = entries c1 \<union> mm_hashes_to_schedule pl \<and> freed c' = freed c1 \<and>
           cache_size c' = cache_size c \<and>
           (\<forall>h. refs_to c h - request_id ` set qs \<subseteq> refs_to c' h) \<and>
           (\<forall>f \<in> set (F (request_id r)). \<forall>p. nc \<le> p \<and> p < nc + plan_new_tokens pl \<and> embed_at f p \<longrightarrow>
              request_id r \<in> refs_to c' (mm_identifier f))"
proof -
  have known: "known F r" "features_wf (F (request_id r))" "0 \<le> n" "0 \<le> shift" using r by (simp_all add: schedulable_def)
  obtain pl c1 where pl: "try_schedule_encoder_inputs env r nc n b shift (Mm c) = Inr pl" "plan_ok F sz r b pl c1"
      "plan_le (request_id r) (empty_plan n b (Mm c)) c pl c1" "0 \<le> plan_new_tokens pl" "plan_new_tokens pl \<le> n"
      "\<forall>f \<in> set (F (request_id r)). covered (request_id r) nc (plan_new_tokens pl) pl c1 f"
    using try_schedule_law [OF inv sz known(1) mm known(2-4)] by blast
  have m: "plan_manager pl = Mm c1" "ec_inv F sz c1" and fresh: "mm_hashes_to_schedule pl \<inter> entries c1 = {}"
    using pl(2) unfolding plan_ok_def by blast+
  obtain d where d: "foldE (mgr_free list_of) qs (Mm c1) = Inr (Mm d)" "ec_inv F sz d" "entries d = entries c1"
      "num_free_slots d = num_free_slots c1" "cache_size d = cache_size c1" "freed d = freed c1"
      "\<forall>h. refs_to d h = refs_to c1 h - request_id ` set qs"
    using free_others_law [OF m(2) sz l, of qs] qs by auto
  obtain c' where c': "allocate_planned r pl (Mm d) = Inr (Mm c')" "ec_inv F sz c'"
      "entries c' = entries d \<union> mm_hashes_to_schedule pl" "freed c' = freed d" "cache_size c' = cache_size d"
      "\<forall>h. refs_to c' h = (if h \<in> mm_hashes_to_schedule pl then {request_id r} else refs_to d h)"
    using allocate_planned_law [OF pl(2) sz known(1) d(2-4)] by auto
  have other: "request_id r \<notin> request_id ` set qs" using qs by auto
  have none: "refs_to c1 h = {}" if "h \<in> mm_hashes_to_schedule pl" for h
    using that fresh refs_entries by blast
  have le: "refs_to c h \<subseteq> refs_to c1 h" "cache_size c1 = cache_size c" for h using pl(3) by (simp_all add: plan_le_def)
  have keep: "refs_to c h - request_id ` set qs \<subseteq> refs_to c' h" for h
    using le(1) [of h] none [of h] c'(6) d(7) by auto
  have ready: "request_id r \<in> refs_to c' (mm_identifier f)"
    if "f \<in> set (F (request_id r))" "nc \<le> p" "p < nc + plan_new_tokens pl" "embed_at f p" for f p
    using pl(6) that c'(6) d(7) other by (auto simp: covered_def)
  have "entries c' = entries c1 \<union> mm_hashes_to_schedule pl" "freed c' = freed c1" "cache_size c' = cache_size c"
    using c'(3-5) d(3,5,6) le(2) by simp_all
  thus ?thesis using pl(1-5) m(1) d(1) c'(1,2) keep ready by blast
qed

lemma enc_step_law:
  assumes "enc_step F env list_of s X s'" and ok: "sys_ok F sz n s" and sz: "sizes_ok F sz"
    and mm: "\<not> is_encoder_decoder env" and l: "enumerates list_of" and n: "0 \<le> n"
  shows "sys_ok F sz n s' \<and> (\<forall>h. refs_to (sys_cache s) h - X \<subseteq> refs_to (sys_cache s') h)"
  using assms(1)
proof cases
  case (step_try r k shift nc b pl c)
  obtain c1 where "plan_manager pl = Mm c1" "plan_ok F sz r b pl c1"
      "plan_le (request_id r) (empty_plan k b (Mm (sys_cache s))) (sys_cache s) pl c1"
    using schedule_law [OF _ sz step_try(3) mm l, of "sys_cache s" "[]" nc b] ok step_try(4) by (auto simp: sys_ok_def)
  hence "ec_inv F sz c" "shrunk (sys_cache s) c" "cache_size c = cache_size (sys_cache s)"
      "\<forall>h. refs_to (sys_cache s) h \<subseteq> refs_to c h"
    using step_try(5) by (auto simp: plan_ok_def plan_le_def)
  thus ?thesis using ok step_try(1,2) by (auto simp: sys_ok_def shrunk_def)
next
  case (step_schedule r k shift nc b pl qs m c)
  obtain c1 d c' where law: "plan_manager pl = Mm c1"
      "plan_le (request_id r) (empty_plan k b (Mm (sys_cache s))) (sys_cache s) pl c1"
      "foldE (mgr_free list_of) qs (Mm c1) = Inr (Mm d)" "allocate_planned r pl (Mm d) = Inr (Mm c')"
      "ec_inv F sz c'" "entries c' = entries c1 \<union> mm_hashes_to_schedule pl" "freed c' = freed c1"
      "cache_size c' = cache_size (sys_cache s)" "\<forall>h. refs_to (sys_cache s) h - request_id ` set qs \<subseteq> refs_to c' h"
    using schedule_law [OF _ sz step_schedule(3) mm l step_schedule(5), of "sys_cache s" nc b] ok step_schedule(4)
    by (auto simp: sys_ok_def)
  have "c = c'" using law(1,3,4) step_schedule(6,7) by simp
  moreover have "shrunk (sys_cache s) c1" using law(2) by (simp add: plan_le_def)
  ultimately show ?thesis using ok step_schedule(1,2) law by (auto simp: sys_ok_def shrunk_def)
next
  case (step_free r c)
  thus ?thesis using encoder_free_law [OF _ sz step_free(3) l, of "sys_cache s"] ok by (auto simp: sys_ok_def)
next
  case (step_processed r c)
  thus ?thesis using free_processed_law [OF _ sz step_processed(3) mm l, of "sys_cache s"] ok by (auto simp: sys_ok_def)
next
  case step_hand_over
  have "ec_inv F sz (sys_cache s\<lparr>freed := []\<rparr>)"
    using ok by (simp add: sys_ok_def ec_inv_def ec_account_def ec_refs_def)
  thus ?thesis using ok step_hand_over by (auto simp: sys_ok_def hand_over_def get_freed_mm_hashes_def)
next
  case step_reset
  have "encoder_reset (sys_cache s) = new_encoder_cache n"
    using ok by (simp add: encoder_reset_def new_encoder_cache_def sys_ok_def)
  thus ?thesis using step_reset ok new_encoder_cache_inv [OF n, of F sz]
    by (auto simp: sys_ok_def new_encoder_cache_def entries_def)
qed

lemma enc_reachable_ok:
  assumes "enc_reachable F env list_of n s" and "sizes_ok F sz" "\<not> is_encoder_decoder env" "enumerates list_of" "0 \<le> n"
  shows "sys_ok F sz n s"
  using assms(1)
proof induction
  case reach_new
  thus ?case using new_encoder_cache_inv [OF assms(5), of F sz]
    by (simp add: sys_ok_def new_enc_sys_def) (simp add: new_encoder_cache_def entries_def)
next
  case (reach_step s X s')
  thus ?case using enc_step_law [OF reach_step.hyps(2) reach_step.IH assms(2-5)] by blast
qed

lemma enc_run_law:
  assumes "enc_run F env list_of rid s t" and ok: "sys_ok F sz n s"
    and env: "sizes_ok F sz" "\<not> is_encoder_decoder env" "enumerates list_of" "0 \<le> n"
  shows "sys_ok F sz n t \<and> (\<forall>h. rid \<in> refs_to (sys_cache s) h \<longrightarrow> rid \<in> refs_to (sys_cache t) h)"
  using assms(1) ok
proof induction
  case (run_step s t X u)
  thus ?case using enc_step_law [OF run_step.hyps(2) _ env] by blast
qed simp

end
