(* ===== verification/Encoder_Properties.thy ===== *)
theory Encoder_Properties
  imports Encoder_Lifecycle
begin

text \<open>
  The properties of the encoder cache, and concrete runs that show where the code departs from what it
  says.
\<close>

section \<open>A request with an image\<close>

definition demo_image :: mm_feature where
  "demo_image = \<lparr>mm_identifier = ''img'', mm_position = \<lparr>mm_offset = 2, mm_length = 3, is_embed = None\<rparr>\<rparr>"

definition image_request :: request where
  "image_request = demo_request\<lparr>mm_features := [demo_image]\<rparr>"

definition image_env :: enc_env where
  "image_env = \<lparr>is_encoder_decoder = False,
     env_scheduler_config = \<lparr>disable_chunked_mm_input = False, max_num_batched_tokens = 64,
       max_num_encoder_input_tokens = 8, encoder_cache_size = 8\<rparr>, ec_connector = None\<rparr>"

lemma image_request_fields [simp]: "request_id image_request = ''r0''" "mm_features image_request = [demo_image]"
  by (simp_all add: image_request_def demo_request_def)

lemma demo_image_fields [simp]:
  "mm_identifier demo_image = ''img''" "mm_offset (mm_position demo_image) = 2" "mm_length (mm_position demo_image) = 3"
  "is_embed (mm_position demo_image) = None"
  by (simp_all add: demo_image_def)

lemma image_sizes: "sizes_ok (\<lambda>_. [demo_image]) (\<lambda>_. 3)"
  by (simp add: sizes_ok_def get_num_embeds_def embeds_cumsum_def)

lemma image_schedulable: "0 \<le> n \<Longrightarrow> 0 \<le> shift \<Longrightarrow> schedulable (\<lambda>_. [demo_image]) image_request n shift"
  by (simp add: schedulable_def known_def features_wf_def feature_wf_def f_start_def f_end_def)

lemma sorted_enumerates: "enumerates sorted_list_of_set"
  by (simp add: enumerates_def)

lemma bisect_one: "bisect_left key [x] v = (if key x < v then 1 else 0)"
  by (simp add: bisect_left_def bisect_loop.simps)

lemma image_env_fields [simp]: "is_encoder_decoder image_env = False" "ec_connector image_env = None"
  "disable_chunked_mm_input (env_scheduler_config image_env) = False"
  by (simp_all add: image_env_def)

lemmas image_eval = try_schedule_encoder_inputs_def has_encoder_inputs_def get_mm_features_in_window_def bisect_one
  empty_plan_def schedule_item_def py_index_def check_and_update_cache_def can_allocate_def new_encoder_cache_def
  get_num_encoder_embeds_def get_num_embeds_def embeds_cumsum_def get_embeds_indices_in_range_def plan_item_def
  allocate_planned_def allocate_encoder_def add_reference_def set_at_def gather_mm_embeddings_def gather_item_def

lemma image_plan:
  "try_schedule_encoder_inputs image_env image_request 0 5 8 0 (Mm (new_encoder_cache 8)) =
     Inr \<lparr>encoder_inputs_to_schedule = [0], external_load_encoder_input = [], mm_hashes_to_schedule = {''img''},
          num_embeds_to_schedule = 3, plan_new_tokens = 5, plan_budget = 5, plan_manager = Mm (new_encoder_cache 8)\<rparr>"
  by (simp add: image_eval)

section \<open>Properties\<close>



text \<open>
  C14: scheduling encoder inputs never fails. In every reachable state the choice of inputs for a request
  returns, settles on at most the tokens asked for, and takes from the compute budget exactly the
  embeddings of the inputs to compute, never more than it had. The preemptions that follow and the
  allocation of every chosen input then return as well: the assertions of \<^verbatim>\<open>allocate\<close> hold.
\<close>

theorem encoder_scheduling_total:
  assumes "enc_reachable F env list_of cap s" "sizes_ok F sz" "\<not> is_encoder_decoder env" "enumerates list_of" "0 \<le> cap"
    and "schedulable F r n shift" "\<forall>q \<in> set preempted. known F q \<and> request_id q \<noteq> request_id r" "0 \<le> b"
  shows "\<exists>pl m c. try_schedule_encoder_inputs env r nc n b shift (Mm (sys_cache s)) = Inr pl \<and>
           0 \<le> plan_new_tokens pl \<and> plan_new_tokens pl \<le> n \<and> 0 \<le> plan_budget pl \<and>
           plan_budget pl = b - (\<Sum>i \<leftarrow> encoder_inputs_to_schedule pl. sz (feat_id F r i)) \<and>
           foldE (mgr_free list_of) preempted (plan_manager pl) = Inr m \<and> allocate_planned r pl m = Inr (Mm c)"
  using schedule_law [OF _ assms(2,6,3,4,7), of "sys_cache s" nc b] enc_reachable_ok [OF assms(1-5)] assms(8)
  by (auto simp: sys_ok_def plan_ok_def)

theorem encoder_scheduling_total_witness:
  "\<exists>pl m c. try_schedule_encoder_inputs image_env image_request 0 5 8 0 (Mm (sys_cache (new_enc_sys 8))) = Inr pl \<and>
     0 \<le> plan_budget pl \<and> foldE (mgr_free sorted_list_of_set) [image_request\<lparr>request_id := ''r1''\<rparr>] (plan_manager pl) = Inr m \<and>
     allocate_planned image_request pl m = Inr (Mm c)"
  using encoder_scheduling_total [OF reach_new image_sizes _ sorted_enumerates _ image_schedulable,
      of image_env 8 5 0 "[image_request\<lparr>request_id := ''r1''\<rparr>]" 8 0]
  by (auto simp: known_def)

text \<open>
  C15: the books of the encoder cache. In every reachable state the free slots are the capacity less the
  embeddings of all cached outputs and are not negative; the freeable slots are the capacity less the
  embeddings of the outputs some request holds; \<^verbatim>\<open>freeable\<close> lists each unreferenced output once and no
  other; and every cached output is held by the worker and not marked for removal, or scheduled.
\<close>

theorem encoder_cache_accounted:
  assumes "enc_reachable F env list_of cap s" "sizes_ok F sz" "\<not> is_encoder_decoder env" "enumerates list_of" "0 \<le> cap"
  defines "c \<equiv> sys_cache s"
  shows "num_free_slots c = cap - sum sz (entries c) \<and> 0 \<le> num_free_slots c \<and>
         num_freeable_slots c = cap - sum sz (held c) \<and> num_freeable_slots c \<le> cap \<and>
         distinct (map fst (freeable c)) \<and> fst ` set (freeable c) = entries c - held c \<and>
         entries c \<subseteq> (sys_worker s - set (freed c)) \<union> sys_pending s"
proof -
  have "0 \<le> sum sz (held c)" using assms(2) by (intro sum_nonneg) (simp add: sizes_ok_def)
  thus ?thesis using enc_reachable_ok [OF assms(1-5)]
    by (auto simp: sys_ok_def ec_inv_def ec_account_def c_def)
qed

theorem encoder_cache_accounted_witness:
  "num_free_slots (sys_cache (new_enc_sys 8)) = 8 - sum (\<lambda>_. 3) (entries (sys_cache (new_enc_sys 8))) \<and>
   fst ` set (freeable (sys_cache (new_enc_sys 8))) = entries (sys_cache (new_enc_sys 8)) - held (sys_cache (new_enc_sys 8))"
  using encoder_cache_accounted [OF reach_new image_sizes _ sorted_enumerates, of image_env 8] by simp

text \<open>
  C16: room for an encoder output. On a consistent cache \<^verbatim>\<open>can_allocate\<close> returns for every input of a
  known request. It says yes exactly when the item fits the compute budget and, together with what is
  already scheduled, the capacity less the entries that requests hold. A yes leaves that many slots
  free, a no changes nothing. Evicted are the oldest unreferenced entries, no more of them than
  needed, each is reported to the worker, and no reference of a request is touched.
\<close>

theorem can_allocate_exact:
  assumes "ec_inv F sz c" "sizes_ok F sz" "known F r" "i < length (F (request_id r))"
    and "n = sz (mm_identifier (F (request_id r) ! i))"
  shows "\<exists>b c' m. can_allocate r i budget k c = Inr (b, c') \<and> ec_inv F sz c' \<and>
           (b \<longleftrightarrow> n \<le> budget \<and> n + k \<le> cache_size c - sum sz (held c)) \<and>
           (if b then n + k \<le> num_free_slots c' else c' = c) \<and>
           refs_to c' = refs_to c \<and> cache_size c' = cache_size c \<and> freeable c' = drop m (freeable c) \<and>
           freed c' = freed c @ map fst (take m (freeable c)) \<and>
           entries c' = entries c - fst ` set (take m (freeable c)) \<and>
           (0 < m \<longrightarrow> num_free_slots c' - snd (freeable c ! (m - 1)) < n + k)"
  unfolding assms(5) by (rule can_allocate_law [OF assms(1-4)])

text \<open>A full cache whose only entry nobody holds.\<close>

definition stale_cache :: encoder_cache where
  "stale_cache = \<lparr>cache_size = 4, num_free_slots = 1, num_freeable_slots = 4, cached = [(''old'', {})],
     request_cached_ids = [], freeable = [(''old'', 3)], freed = []\<rparr>"

lemma stale_cache_inv: "ec_inv (\<lambda>_. [demo_image]) (\<lambda>_. 3) stale_cache"
  by (simp add: ec_inv_def ec_account_def ec_refs_def stale_cache_def entries_def held_def refs_to_def set_at_def)

theorem can_allocate_exact_witness:
  "\<exists>c'. can_allocate image_request 0 8 0 stale_cache = Inr (True, c') \<and> freed c' = [''old''] \<and> 3 \<le> num_free_slots c'"
proof -
  have "held stale_cache = {}" by (simp add: held_def refs_to_def set_at_def stale_cache_def)
  then obtain c' m where c': "can_allocate image_request 0 8 0 stale_cache = Inr (True, c')" "3 \<le> num_free_slots c'"
      "freed c' = map fst (take m [(''old'', 3 :: int)])"
    using can_allocate_exact [OF stale_cache_inv image_sizes, of image_request 0 3 8 0]
    by (auto simp: known_def stale_cache_def)
  moreover have "freed c' = [''old'']"
    using c'(1) by (simp add: can_allocate_def get_num_encoder_embeds_def get_num_embeds_def embeds_cumsum_def
        stale_cache_def evict_oldest.simps) auto
  ultimately show ?thesis by blast
qed

section \<open>Where the code departs from what it says\<close>

text \<open>
  With EAGLE the drafter reads one position further than the target model, and the scheduler widens its
  window by that shift. An item that starts right after the scheduled tokens is in the widened window, but
  it has no embedding among the scheduled tokens themselves and is skipped. The drafter then reads its
  first embedding and misses it.
\<close>

lemma eagle_shift_cache_miss:
  "\<exists>pl. try_schedule_encoder_inputs image_env image_request 0 2 8 1 (Mm (new_encoder_cache 8)) = Inr pl \<and>
     planned pl = [] \<and> plan_new_tokens pl = 2 \<and> plan_manager pl = Mm (new_encoder_cache 8) \<and>
     gather_mm_embeddings (mm_features image_request) 0 2 1 {} = Inl AssertionError"
  by (simp add: image_eval planned_def)

text \<open>
  The window search needs ordered ends. For an audio item inside a video item, which the worker allows, the
  search skips the video although it covers the window.
\<close>

lemma overlapping_items_missed:
  "get_mm_features_in_window
     [\<lparr>mm_identifier = ''video'', mm_position = \<lparr>mm_offset = 0, mm_length = 100, is_embed = None\<rparr>\<rparr>,
      \<lparr>mm_identifier = ''audio'', mm_position = \<lparr>mm_offset = 10, mm_length = 20, is_embed = None\<rparr>\<rparr>] 50 60 = (2, 2)"
  by (simp add: get_mm_features_in_window_def bisect_left_def bisect_loop.simps)

text \<open>
  The manager of encoder-decoder models gives back the slots of all items at every step after the first
  token, so the free slots exceed the capacity.
\<close>

lemma encdec_slots_exceed_capacity:
  "\<exists>c. bindE (mgr_allocate image_request 0 (new_enc_manager True 8)) (\<lambda>m.
         bindE (free_encoder_inputs (image_env\<lparr>is_encoder_decoder := True\<rparr>) (\<lambda>_. [0])
                  (image_request\<lparr>num_computed_tokens := 1\<rparr>) m) (\<lambda>m.
           free_encoder_inputs (image_env\<lparr>is_encoder_decoder := True\<rparr>) (\<lambda>_. [0])
             (image_request\<lparr>num_computed_tokens := 2\<rparr>) m)) = Inr (Ed c) \<and>
     ed_num_free_slots c > ed_cache_size c"
  by (simp add: new_enc_manager_def new_encdec_cache_def encdec_allocate_def image_eval free_encoder_inputs_def
      encdec_get_cached_input_ids_def free_if_processed_def encdec_free_encoder_input_def)

end
