(* ===== verification/Spec2Isabelle.thy ===== *)
theory Spec2Isabelle
  imports Hash_Chain Hybrid_Search Skive_Mirror Encoder_Properties
begin

text \<open>
  A verification development for the memory side of the inference engine under \<^verbatim>\<open>src/vllm\<close>: the paged
  KV cache with its prefix cache, the eviction of KV blocks (SKIVE), and the cache of encoder outputs.

  \<^bold>\<open>The program and its parts.\<close> A request is a growing list of tokens. Its keys and values live in
  fixed-size blocks of one pool. Full blocks are identified by a chained content hash and can be shared by
  requests with the same prefix. The layers of a model fall into groups, one block table per group. The
  scheduler asks the KV cache manager for the cached prefix of a request, for slots for the tokens of a step,
  and for the release of a finished request. With eviction on, the worker nulls low-scoring blocks in its own
  block table after a decode step and hands their positions to the scheduler, which frees the blocks. Encoder
  outputs of images and audio are cached under the hash of the item; the scheduler keeps the books and the
  worker the outputs.

  \<^bold>\<open>How the source maps to the theories.\<close> Each theory opens with its own summary.

  \<^item> \<^verbatim>\<open>Prelude\<close>: exceptions as values, loops that may raise, dictionaries, integer helpers.
  \<^item> \<^verbatim>\<open>Free_Block_Queue\<close>: \<^verbatim>\<open>KVCacheBlock\<close> and \<^verbatim>\<open>FreeKVCacheBlockQueue\<close> of \<^verbatim>\<open>v1/core/kv_cache_utils.py\<close> over an
    explicit store, since blocks are shared objects linked through their own fields. It refines a plain list;
    the interface locale \<^verbatim>\<open>block_queue\<close> carries its laws.
  \<^item> \<^verbatim>\<open>Requests\<close>: \<^verbatim>\<open>v1/request.py\<close>, the stop and repetition checks of \<^verbatim>\<open>v1/core/sched/utils.py\<close>, and the
    placeholder ranges of \<^verbatim>\<open>multimodal/inputs.py\<close>.
  \<^item> \<^verbatim>\<open>Block_Hash\<close>, \<^verbatim>\<open>Hash_Chain\<close>: the hashing half of \<^verbatim>\<open>kv_cache_utils.py\<close>. The digest function is a parameter;
    its collision freedom is a named hypothesis of the one property that needs it.
  \<^item> \<^verbatim>\<open>Block_Pool\<close>, \<^verbatim>\<open>Hash_Index\<close>, \<^verbatim>\<open>Pool_Invariant\<close>, \<^verbatim>\<open>Pool_Correct\<close>: \<^verbatim>\<open>v1/core/block_pool.py\<close>, with the locales
    \<^verbatim>\<open>hash_index\<close> for the map of cached blocks and \<^verbatim>\<open>block_store\<close> for the pool as its clients see it.
  \<^item> \<^verbatim>\<open>Kv_Specs\<close>: \<^verbatim>\<open>v1/kv_cache_interface.py\<close> and \<^verbatim>\<open>v1/kv_cache_spec_registry.py\<close>.
  \<^item> \<^verbatim>\<open>Kv_Managers\<close>, \<^verbatim>\<open>Cache_Hits\<close>: \<^verbatim>\<open>v1/core/single_type_kv_cache_manager.py\<close>. \<^verbatim>\<open>Hits_Correct\<close> characterises the
    prefix lookups, \<^verbatim>\<open>Manager_Invariant\<close> and \<^verbatim>\<open>Manager_Steps\<close> the ownership of blocks by one manager.
  \<^item> \<^verbatim>\<open>Kv_Coordinator\<close>, \<^verbatim>\<open>Hybrid_Search\<close>: \<^verbatim>\<open>v1/core/kv_cache_coordinator.py\<close>. \<^verbatim>\<open>Coordinator_Invariant\<close> adds up the
    ownership of all groups.
  \<^item> \<^verbatim>\<open>Kv_Cache_Manager\<close>: \<^verbatim>\<open>v1/core/kv_cache_manager.py\<close>. \<^verbatim>\<open>Slots_Correct\<close>, \<^verbatim>\<open>Cache_Lifecycle\<close> and
    \<^verbatim>\<open>Cache_Properties\<close> prove its allocation correct and its reachable states safe.
  \<^item> \<^verbatim>\<open>Evict_Policy\<close>, \<^verbatim>\<open>Evict_Correct\<close>: \<^verbatim>\<open>selection.py\<close>, \<^verbatim>\<open>manager.py\<close> and \<^verbatim>\<open>compaction.py\<close> of \<^verbatim>\<open>kv_evict\<close>.
  \<^item> \<^verbatim>\<open>Skive_Worker\<close>, \<^verbatim>\<open>Skive_Scores\<close>, \<^verbatim>\<open>Skive_Evict\<close>: the worker side of \<^verbatim>\<open>kv_evict/integration.py\<close>;
    \<^verbatim>\<open>Skive_Reclaim\<close> its scheduler side; \<^verbatim>\<open>Skive_Mirror\<close> both together.
  \<^item> \<^verbatim>\<open>Encoder_Cache\<close>, \<^verbatim>\<open>Encoder_Correct\<close>: \<^verbatim>\<open>v1/core/encoder_cache_manager.py\<close>.
  \<^item> \<^verbatim>\<open>Encoder_Schedule\<close>, \<^verbatim>\<open>Encoder_Plan\<close>: the encoder part of \<^verbatim>\<open>v1/core/sched/scheduler.py\<close>
    (\<^verbatim>\<open>_try_schedule_encoder_inputs\<close>, the allocations of \<^verbatim>\<open>schedule\<close>, \<^verbatim>\<open>_free_encoder_inputs\<close>), the window search
    of \<^verbatim>\<open>multimodal/utils.py\<close>, and the reads of \<^verbatim>\<open>_gather_mm_embeddings\<close> in \<^verbatim>\<open>v1/worker/gpu_model_runner.py\<close>.
    \<^verbatim>\<open>Encoder_Lifecycle\<close> is the step relation of scheduler and worker, \<^verbatim>\<open>Encoder_Properties\<close> what follows from it.

  \<^bold>\<open>What is shown.\<close>

  \<^item> KV cache: in every reachable state each block is counted exactly as often as it is held, the blocks that
    are still written to have one owner, and no block leaks. Allocation never raises, is all or nothing, and
    succeeds when the blocks are there. The lookup returns blocks that allocation can adopt, and the search over
    several groups ends.
  \<^item> Pool and free list: the linked list behaves like a list and rejects misuse; the pool keeps its counters,
    free list and hash index consistent, and lookup, allocation, release and reset do what they promise.
  \<^item> Hashing: equal block hashes mean equal prefixes, incremental hashing equals hashing at once, and keys
    unpack to what was packed.
  \<^item> Specifications: merged layers agree, memory bounds cover their parts, and padding is the least that aligns.
  \<^item> Eviction: the hook stays within its budget, spares sinks and local window, and keeps the runner well
    formed; compaction removes exactly the evicted tokens from the attention read; worker and scheduler name the
    same blocks after eviction and reclaiming.
  \<^item> Encoder cache: the slots add up in every reachable state, scheduling and allocation never fail, room is made
    by evicting the oldest unreferenced outputs and no more than needed, and the worker never misses an output.
  \<^item> Requests: stop checks and repetition detection are exact.

  \<^bold>\<open>Loops.\<close> Most loops are structural recursion or have a termination proof. Three loops follow data that may
  be cyclic or repeat and are partial functions with an option result: the traversal of the free list, the
  hashing loop, and the fixed-point search over groups. For each a lemma gives the result it returns, so no
  fuel bound is chosen anywhere.

  \<^bold>\<open>Limits of the statements.\<close> The ownership invariant covers managers of full, sliding-window and
  chunked-local attention; Mamba and cross-attention managers are modelled but not part of it. Reachable states are
  those of calls without external tokens: with several groups such a call can take a hit block of a later
  group, which is listed among the findings. Block scores are real numbers. For the encoder cache, items with
  the same hash have the same size, and items of a request do not overlap; the lemma
  \<^verbatim>\<open>overlapping_items_missed\<close> shows what happens otherwise. The guarantee for the worker is about the target
  model; \<^verbatim>\<open>eagle_shift_cache_miss\<close> shows that it fails for the drafter. An encoder-cache connector is assumed to
  deliver the items it announces.

  \<^bold>\<open>Not modelled.\<close>

  \<^item> The main loop of the scheduler with its queues, connectors, LoRA and structured-output bookkeeping: it reads
    clocks and calls plug-ins whose behaviour is not in the source.
  \<^item> The forward pass, attention kernels, sampling, speculative decoding and the tensor scoring of the eviction
    (attention, redundancy, query history, the fused Triton kernel): floating-point tensor code on devices.
  \<^item> Processes, sockets, executors, entry points, tokenizers and media loading: input and output, or third-party
    code.
  \<^item> The sampled timings of the KV cache metrics, event time stamps and logging.
\<close>

end
